(* ===== verification/Neve_Prelude.thy ===== *)
theory Neve_Prelude
  imports Main "HOL-Library.Char_ord"
begin

text \<open>
  What every component of the development shares.

  \<^item> Machine types. A Rust \<open>u8\<close> is an HOL character (both have exactly 256 values), so a
    byte buffer and a Rust string are both HOL strings. A \<open>u64\<close> is a natural number; the
    sources never wrap, they saturate, so saturation at \<open>u64_max\<close> is written out, and
    every function that produces a \<open>u64\<close> from text checks the bound.
  \<^item> The parts of the Rust standard library that the sources call: \<open>from_str_radix\<close>,
    \<open>strip_prefix\<close>, \<open>trim_start_matches\<close>, \<open>split_once\<close>, \<open>split\<close>, \<open>eq_ignore_ascii_case\<close>,
    \<open>to_le_bytes\<close>, \<open>from_le_bytes\<close>, \<open>from_utf8\<close>, and the \<open>{:x}\<close> and \<open>{}\<close> formats.
  \<^item> Results: an \<open>anyhow::Result\<close> is a sum with the error on the left.
  The lemmas are the round trips of the textual and byte encodings, the arithmetic of
  saturation, and small list facts; the collection \<open>neve_simps\<close> holds the ones that the
  component proofs unfold.
\<close>

named_theorems neve_simps \<open>unfolding rules shared by the component proofs\<close>

section \<open>Machine types\<close>

type_synonym u64 = nat
type_synonym u32 = nat
type_synonym usize = nat
type_synonym bytes = string
type_synonym hash32 = string

definition u64_max :: u64 where
  "u64_max = 18446744073709551615"

definition sat_add :: "u64 \<Rightarrow> u64 \<Rightarrow> u64" where
  "sat_add a b = (if a + b \<le> u64_max then a + b else u64_max)"

definition sat_sub :: "u64 \<Rightarrow> u64 \<Rightarrow> u64" where
  "sat_sub a b = (if b \<le> a then a - b else 0)"

definition sat_mul :: "u64 \<Rightarrow> u64 \<Rightarrow> u64" where
  "sat_mul a b = (if a * b \<le> u64_max then a * b else u64_max)"

text \<open>The cast \<open>as u32\<close> keeps the low 32 bits.\<close>

definition as_u32 :: "nat \<Rightarrow> u32" where
  "as_u32 n = n mod 4294967296"

section \<open>Results\<close>

fun and_then :: "'e + 'a \<Rightarrow> ('a \<Rightarrow> 'e + 'b) \<Rightarrow> 'e + 'b" where
  "and_then (Inl e) f = Inl e"
| "and_then (Inr x) f = f x"

fun map_err :: "('e \<Rightarrow> 'f) \<Rightarrow> 'e + 'a \<Rightarrow> 'f + 'a" where
  "map_err g (Inl e) = Inl (g e)"
| "map_err g (Inr x) = Inr x"

fun ok_or :: "'a option \<Rightarrow> 'e \<Rightarrow> 'e + 'a" where
  "ok_or None e = Inl e"
| "ok_or (Some x) e = Inr x"

fun res_ok :: "'e + 'a \<Rightarrow> 'a option" where
  "res_ok (Inl e) = None"
| "res_ok (Inr x) = Some x"

text \<open>\<open>Option<Result<T>>::transpose\<close>.\<close>

fun transpose_opt :: "('e + 'a) option \<Rightarrow> 'e + 'a option" where
  "transpose_opt None = Inr None"
| "transpose_opt (Some (Inl e)) = Inl e"
| "transpose_opt (Some (Inr x)) = Inr (Some x)"

section \<open>Text\<close>

definition to_digit :: "nat \<Rightarrow> char \<Rightarrow> nat option" where
  "to_digit radix c =
     (let n = of_char c :: nat;
          d = (if 48 \<le> n \<and> n \<le> 57 then Some (n - 48)
               else if 97 \<le> n \<and> n \<le> 122 then Some (n - 87)
               else if 65 \<le> n \<and> n \<le> 90 then Some (n - 55)
               else None)
      in case d of None \<Rightarrow> None | Some k \<Rightarrow> if k < radix then Some k else None)"

definition from_digit :: "nat \<Rightarrow> char" where
  "from_digit d = (if d < 10 then char_of (d + 48) else char_of (d + 87))"

fun parse_digits :: "nat \<Rightarrow> u64 \<Rightarrow> string \<Rightarrow> u64 option" where
  "parse_digits radix acc [] = Some acc"
| "parse_digits radix acc (c # cs) =
     (case to_digit radix c of
        None \<Rightarrow> None
      | Some d \<Rightarrow>
          if acc * radix + d \<le> u64_max then parse_digits radix (acc * radix + d) cs else None)"

text \<open>
  \<open>u64::from_str_radix\<close>: an empty string is an error, one leading plus sign is accepted,
  a sign alone is an error, and so is a value above \<open>u64::MAX\<close>.
\<close>

definition from_str_radix :: "nat \<Rightarrow> string \<Rightarrow> u64 option" where
  "from_str_radix radix s =
     (let digits = (case s of [] \<Rightarrow> [] | c # cs \<Rightarrow> if c = CHR ''+'' then cs else s)
      in if digits = [] then None else parse_digits radix 0 digits)"

definition parse_u64 :: "string \<Rightarrow> u64 option" where
  "parse_u64 s = from_str_radix 10 s"

fun format_radix :: "nat \<Rightarrow> nat \<Rightarrow> string" where
  "format_radix radix n =
     (if radix < 2 \<or> n < radix then [from_digit n]
      else format_radix radix (n div radix) @ [from_digit (n mod radix)])"

definition to_hex :: "u64 \<Rightarrow> string" where
  "to_hex n = format_radix 16 n"

definition to_dec :: "u64 \<Rightarrow> string" where
  "to_dec n = format_radix 10 n"

fun strip_prefix :: "string \<Rightarrow> string \<Rightarrow> string option" where
  "strip_prefix [] s = Some s"
| "strip_prefix (p # ps) [] = None"
| "strip_prefix (p # ps) (c # cs) = (if p = c then strip_prefix ps cs else None)"

lemma strip_prefix_Some_iff: "strip_prefix p s = Some r \<longleftrightarrow> s = p @ r"
  by (induction p s rule: strip_prefix.induct) auto

text \<open>\<open>trim_start_matches(p)\<close> removes the prefix as often as it occurs.\<close>

function trim_start_matches :: "string \<Rightarrow> string \<Rightarrow> string" where
  "trim_start_matches p s =
     (if p = [] then s
      else case strip_prefix p s of None \<Rightarrow> s | Some r \<Rightarrow> trim_start_matches p r)"
  by pat_completeness auto
termination
  by (relation "measure (\<lambda>(p, s). length s)") (auto simp: strip_prefix_Some_iff)

declare trim_start_matches.simps [simp del]
declare format_radix.simps [simp del]

definition trim_end_char :: "char \<Rightarrow> string \<Rightarrow> string" where
  "trim_end_char c s = rev (dropWhile (\<lambda>x. x = c) (rev s))"

fun split_once :: "char \<Rightarrow> string \<Rightarrow> (string \<times> string) option" where
  "split_once c [] = None"
| "split_once c (x # xs) =
     (if x = c then Some ([], xs)
      else case split_once c xs of None \<Rightarrow> None | Some (a, b) \<Rightarrow> Some (x # a, b))"

fun split_char :: "char \<Rightarrow> string \<Rightarrow> string list" where
  "split_char c [] = [[]]"
| "split_char c (x # xs) =
     (if x = c then [] # split_char c xs
      else case split_char c xs of [] \<Rightarrow> [[x]] | w # ws \<Rightarrow> (x # w) # ws)"

definition to_ascii_lowercase :: "char \<Rightarrow> char" where
  "to_ascii_lowercase c =
     (let n = of_char c :: nat in if 65 \<le> n \<and> n \<le> 90 then char_of (n + 32) else c)"

definition eq_ignore_ascii_case :: "string \<Rightarrow> string \<Rightarrow> bool" where
  "eq_ignore_ascii_case a b \<longleftrightarrow> map to_ascii_lowercase a = map to_ascii_lowercase b"

definition is_ascii_whitespace :: "char \<Rightarrow> bool" where
  "is_ascii_whitespace c \<longleftrightarrow> (of_char c :: nat) \<in> {9, 10, 12, 13, 32}"

text \<open>\<open>std::str::from_utf8\<close>: the well-formed byte sequences of the Unicode standard.\<close>

definition byte_in :: "nat \<Rightarrow> nat \<Rightarrow> char \<Rightarrow> bool" where
  "byte_in lo hi c \<longleftrightarrow> lo \<le> (of_char c :: nat) \<and> (of_char c :: nat) \<le> hi"

definition utf8_lead2 :: "char \<Rightarrow> char \<Rightarrow> bool" where
  "utf8_lead2 a b \<longleftrightarrow> byte_in 194 223 a \<and> byte_in 128 191 b"

definition utf8_lead3 :: "char \<Rightarrow> char \<Rightarrow> char \<Rightarrow> bool" where
  "utf8_lead3 a b c \<longleftrightarrow>
     byte_in 128 191 c \<and>
     (byte_in 224 224 a \<and> byte_in 160 191 b \<or>
      (byte_in 225 236 a \<or> byte_in 238 239 a) \<and> byte_in 128 191 b \<or>
      byte_in 237 237 a \<and> byte_in 128 159 b)"

definition utf8_lead4 :: "char \<Rightarrow> char \<Rightarrow> char \<Rightarrow> char \<Rightarrow> bool" where
  "utf8_lead4 a b c d \<longleftrightarrow>
     byte_in 128 191 c \<and> byte_in 128 191 d \<and>
     (byte_in 240 240 a \<and> byte_in 144 191 b \<or>
      byte_in 241 243 a \<and> byte_in 128 191 b \<or>
      byte_in 244 244 a \<and> byte_in 128 143 b)"

fun utf8_run :: "nat \<Rightarrow> bytes \<Rightarrow> bool" where
  "utf8_run n [] = True"
| "utf8_run 0 (a # as) = False"
| "utf8_run (Suc n) (a # as) =
     (if byte_in 0 127 a then utf8_run n as
      else case as of
        [] \<Rightarrow> False
      | b # bs \<Rightarrow>
          if utf8_lead2 a b then utf8_run n bs
          else case bs of
            [] \<Rightarrow> False
          | c # cs \<Rightarrow>
              if utf8_lead3 a b c then utf8_run n cs
              else case cs of
                [] \<Rightarrow> False
              | d # ds \<Rightarrow> utf8_lead4 a b c d \<and> utf8_run n ds)"

definition utf8_valid :: "bytes \<Rightarrow> bool" where
  "utf8_valid b \<longleftrightarrow> utf8_run (length b) b"

definition is_ascii :: "string \<Rightarrow> bool" where
  "is_ascii s \<longleftrightarrow> list_all (byte_in 0 127) s"

section \<open>Little-endian integers\<close>

fun to_le_bytes :: "nat \<Rightarrow> nat \<Rightarrow> bytes" where
  "to_le_bytes 0 v = []"
| "to_le_bytes (Suc k) v = char_of (v mod 256) # to_le_bytes k (v div 256)"

fun from_le_bytes :: "bytes \<Rightarrow> nat" where
  "from_le_bytes [] = 0"
| "from_le_bytes (c # cs) = of_char c + 256 * from_le_bytes cs"

section \<open>Sub-slices\<close>

text \<open>A \<open>Range<usize>\<close> into a buffer, and the sub-slice it selects.\<close>

type_synonym span = "nat \<times> nat"

definition slice_of :: "'a list \<Rightarrow> span \<Rightarrow> 'a list" where
  "slice_of b r = take (snd r - fst r) (drop (fst r) b)"

definition span_in :: "'a list \<Rightarrow> span \<Rightarrow> bool" where
  "span_in b r \<longleftrightarrow> fst r \<le> snd r \<and> snd r \<le> length b"

text \<open>Checked indexing, \<open>slice.get(i)\<close>.\<close>

definition get_nth :: "'a list \<Rightarrow> nat \<Rightarrow> 'a option" where
  "get_nth xs i = (if i < length xs then Some (xs ! i) else None)"

text \<open>The heights of an inclusive range, in order.\<close>

definition heights :: "u64 \<Rightarrow> u64 \<Rightarrow> u64 list" where
  "heights a b = [a..<Suc b]"

section \<open>Arithmetic of saturation\<close>

lemma sat_add_exact: "a + b \<le> u64_max \<Longrightarrow> sat_add a b = a + b"
  by (simp add: sat_add_def)

lemma sat_add_le: "sat_add a b \<le> u64_max"
  by (simp add: sat_add_def)

lemma sat_add_Suc: "a < u64_max \<Longrightarrow> sat_add a 1 = Suc a"
  by (simp add: sat_add_def)

lemma sat_add_ge: "a \<le> u64_max \<Longrightarrow> a \<le> sat_add a b"
  by (simp add: sat_add_def)

lemma sat_sub_eq [simp]: "sat_sub a b = a - b"
  by (simp add: sat_sub_def)

lemma sat_mul_le: "sat_mul a b \<le> u64_max"
  by (simp add: sat_mul_def)

lemma as_u32_small: "n < 4294967296 \<Longrightarrow> as_u32 n = n"
  by (simp add: as_u32_def)

section \<open>Text round trips\<close>

lemma of_char_char_of_mod: "(of_char (char_of (n :: nat) :: char) :: nat) = n mod 256"
  by simp

lemma to_digit_from_digit:
  assumes "d < radix" "radix \<le> 36"
  shows "to_digit radix (from_digit d) = Some d"
proof (cases "d < 10")
  case True
  then have "(of_char (from_digit d) :: nat) = d + 48"
    by (simp add: from_digit_def)
  with True assms show ?thesis
    by (simp add: to_digit_def)
next
  case False
  with assms have "(of_char (from_digit d) :: nat) = d + 87"
    by (simp add: from_digit_def)
  with False assms show ?thesis
    by (simp add: to_digit_def)
qed

lemma parse_digits_append:
  "parse_digits r a (xs @ ys) =
     (case parse_digits r a xs of None \<Rightarrow> None | Some b \<Rightarrow> parse_digits r b ys)"
  by (induction r a xs rule: parse_digits.induct) (auto split: option.splits)

lemma parse_digits_format_radix:
  assumes "2 \<le> radix" "radix \<le> 36" "n \<le> u64_max"
  shows "parse_digits radix 0 (format_radix radix n) = Some n"
  using assms
proof (induction radix n rule: format_radix.induct)
  case (1 radix n)
  show ?case
  proof (cases "n < radix")
    case True
    with 1 show ?thesis
      by (subst format_radix.simps) (simp add: to_digit_from_digit)
  next
    case False
    have "n div radix \<le> n" by simp
    with 1 False have IH: "parse_digits radix 0 (format_radix radix (n div radix)) = Some (n div radix)"
      by simp
    have "n div radix * radix + n mod radix = n" by simp
    moreover have "n mod radix < radix" using 1 by simp
    ultimately show ?thesis
      using 1 False IH
      by (subst format_radix.simps) (simp add: parse_digits_append to_digit_from_digit)
  qed
qed

lemma format_radix_head:
  assumes "2 \<le> radix" "radix \<le> 36"
  shows "\<exists>d ds. format_radix radix n = from_digit d # ds \<and> d < radix"
  using assms
proof (induction radix n rule: format_radix.induct)
  case (1 radix n)
  show ?case
  proof (cases "n < radix")
    case True
    then show ?thesis by (subst format_radix.simps) auto
  next
    case False
    with 1 obtain d ds where "format_radix radix (n div radix) = from_digit d # ds" "d < radix"
      by auto
    with 1 False show ?thesis by (subst format_radix.simps) auto
  qed
qed

lemma from_digit_neq:
  assumes "d < 36"
  shows "from_digit d \<noteq> CHR ''+'' \<and> from_digit d \<noteq> CHR ''x''  \<or> d = 33"
proof -
  have "(of_char (from_digit d) :: nat) = (if d < 10 then d + 48 else d + 87)"
    using assms by (simp add: from_digit_def)
  then show ?thesis
    by (cases "from_digit d = CHR ''+''"; cases "from_digit d = CHR ''x''"; cases "d < 10") auto
qed

lemma from_str_radix_format:
  assumes "2 \<le> radix" "radix \<le> 16" "n \<le> u64_max"
  shows "from_str_radix radix (format_radix radix n) = Some n"
proof -
  from assms format_radix_head [of radix n] obtain d ds
    where f: "format_radix radix n = from_digit d # ds" and d: "d < radix"
    by auto
  with assms from_digit_neq [of d] have "from_digit d \<noteq> CHR ''+''"
    by auto
  then show ?thesis
    using parse_digits_format_radix [of radix n] assms f
    by (simp add: from_str_radix_def)
qed

lemma from_str_radix_to_hex: "n \<le> u64_max \<Longrightarrow> from_str_radix 16 (to_hex n) = Some n"
  by (simp add: to_hex_def from_str_radix_format)

lemma parse_u64_to_dec: "n \<le> u64_max \<Longrightarrow> parse_u64 (to_dec n) = Some n"
  by (simp add: parse_u64_def to_dec_def from_str_radix_format)

lemma parse_digits_le: "parse_digits r a s = Some n \<Longrightarrow> a \<le> u64_max \<Longrightarrow> n \<le> u64_max"
  by (induction r a s rule: parse_digits.induct) (auto split: option.splits if_splits)

lemma from_str_radix_le: "from_str_radix r s = Some n \<Longrightarrow> n \<le> u64_max"
proof -
  assume "from_str_radix r s = Some n"
  then obtain ds where "parse_digits r 0 ds = Some n"
    by (auto simp del: parse_digits.simps simp: from_str_radix_def Let_def split: if_splits)
  then show ?thesis by (rule parse_digits_le) (simp add: u64_max_def)
qed

lemma trim_start_matches_no_prefix:
  "strip_prefix p s = None \<Longrightarrow> trim_start_matches p s = s"
  by (subst trim_start_matches.simps) auto

lemma trim_start_matches_prefix:
  "p \<noteq> [] \<Longrightarrow> trim_start_matches p (p @ s) = trim_start_matches p s"
  using strip_prefix_Some_iff [of p "p @ s" s] by (subst trim_start_matches.simps) simp

lemma split_once_None_iff: "split_once c s = None \<longleftrightarrow> c \<notin> set s"
  by (induction c s rule: split_once.induct) (auto split: option.splits)

lemma split_once_append: "c \<notin> set a \<Longrightarrow> split_once c (a @ c # b) = Some (a, b)"
  by (induction a) auto

lemma split_once_Some: "split_once c s = Some (a, b) \<Longrightarrow> s = a @ c # b \<and> c \<notin> set a"
  by (induction c s arbitrary: a rule: split_once.induct) (auto split: option.splits if_splits)

lemma utf8_run_ascii: "is_ascii s \<Longrightarrow> length s \<le> n \<Longrightarrow> utf8_run n s"
proof (induction s arbitrary: n)
  case Nil
  then show ?case by simp
next
  case (Cons c s)
  then obtain m where "n = Suc m" by (cases n) auto
  with Cons show ?case by (simp add: is_ascii_def)
qed

lemma utf8_valid_ascii: "is_ascii s \<Longrightarrow> utf8_valid s"
  by (simp add: utf8_valid_def utf8_run_ascii)

section \<open>Byte round trips\<close>

lemma length_to_le_bytes [simp]: "length (to_le_bytes k v) = k"
  by (induction k v rule: to_le_bytes.induct) auto

lemma from_le_to_le: "v < 256 ^ k \<Longrightarrow> from_le_bytes (to_le_bytes k v) = v"
proof (induction k v rule: to_le_bytes.induct)
  case (1 v)
  then show ?case by simp
next
  case (2 k v)
  then have "v div 256 < 256 ^ k"
    by (simp add: less_mult_imp_div_less mult.commute)
  with 2 show ?case by simp
qed

lemma from_le_to_le_u64: "v \<le> u64_max \<Longrightarrow> from_le_bytes (to_le_bytes 8 v) = v"
  by (rule from_le_to_le) (simp add: u64_max_def)

lemma from_le_to_le_u32: "v < 4294967296 \<Longrightarrow> from_le_bytes (to_le_bytes 4 v) = v"
  by (rule from_le_to_le) simp

section \<open>Lists, slices and sums\<close>

lemma slice_of_append: "slice_of (a @ b @ c) (length a, length a + length b) = b"
  by (simp add: slice_of_def)

lemma length_slice_of: "span_in b r \<Longrightarrow> length (slice_of b r) = snd r - fst r"
  by (auto simp: slice_of_def span_in_def)

lemma get_nth_Some_iff: "get_nth xs i = Some x \<longleftrightarrow> i < length xs \<and> xs ! i = x"
  by (auto simp: get_nth_def)

lemma get_nth_None_iff: "get_nth xs i = None \<longleftrightarrow> length xs \<le> i"
  by (simp add: get_nth_def)

lemma get_nth_map: "get_nth (map f xs) i = map_option f (get_nth xs i)"
  by (simp add: get_nth_def)

lemma and_then_Inr_iff: "and_then m f = Inr y \<longleftrightarrow> (\<exists>x. m = Inr x \<and> f x = Inr y)"
  by (cases m) auto

lemma and_then_Inl_iff:
  "and_then m f = Inl e \<longleftrightarrow> m = Inl e \<or> (\<exists>x. m = Inr x \<and> f x = Inl e)"
  by (cases m) auto

lemma map_err_Inr_iff [simp]: "map_err g m = Inr x \<longleftrightarrow> m = Inr x"
  by (cases m) auto

lemma ok_or_Inr_iff [simp]: "ok_or m e = Inr x \<longleftrightarrow> m = Some x"
  by (cases m) auto

lemma heights_Cons: "a \<le> b \<Longrightarrow> heights a b = a # heights (Suc a) b"
  by (simp add: heights_def upt_conv_Cons)

lemma heights_empty: "b < a \<Longrightarrow> heights a b = []"
  by (simp add: heights_def)

lemma set_heights [simp]: "set (heights a b) = {a..b}"
  by (auto simp: heights_def)

lemma length_heights [simp]: "length (heights a b) = Suc b - a"
  by (simp only: heights_def length_upt)

lemma heights_append: "a \<le> Suc m \<Longrightarrow> m \<le> b \<Longrightarrow> heights a b = heights a m @ heights (Suc m) b"
  using upt_add_eq_append [of a "Suc m" "b - m"] by (simp only: heights_def) (simp del: upt_Suc)

lemmas [neve_simps] = Let_def get_nth_def

end
