(* ===== verification/Json.thy ===== *)
theory Json
  imports Neve_Prelude
begin

text \<open>
  The JSON values the sources handle (\<open>serde_json::Value\<close>) and the part of the
  \<open>serde_json\<close> interface they call.

  The crate is not part of the repository, so its parser and printer are parameters: a record
  \<open>serde\<close> of functions that every definition which serialises or parses takes as an argument.
  \<open>from_slice\<close> is \<open>serde_json::from_slice::<Value>\<close>, \<open>to_vec\<close> is \<open>serde_json::to_vec\<close>,
  \<open>raw_value\<close> and \<open>raw_array\<close> are \<open>from_slice\<close> at the types \<open>&RawValue\<close> and
  \<open>Vec<&RawValue>\<close>; a borrowed \<open>RawValue\<close> is a sub-slice of the parsed buffer, so the
  model returns the range it occupies. What the development relies on is the locale
  \<open>serde_laws\<close>; the theory \<open>Json_Reference\<close> interprets it with an executable codec.

  A \<open>Float\<close> carries the bit pattern of an \<open>f64\<close>; the sources never look inside one.
\<close>

datatype number = PosInt u64 | NegInt int | Float nat

datatype json =
    JNull
  | JBool bool
  | JNum number
  | JStr string
  | JArr "json list"
  | JObj "(string \<times> json) list"

section \<open>Accessors of a value\<close>

fun as_object :: "json \<Rightarrow> (string \<times> json) list option" where
  "as_object (JObj kvs) = Some kvs"
| "as_object _ = None"

fun as_array :: "json \<Rightarrow> json list option" where
  "as_array (JArr vs) = Some vs"
| "as_array _ = None"

fun as_str :: "json \<Rightarrow> string option" where
  "as_str (JStr s) = Some s"
| "as_str _ = None"

fun as_u64 :: "json \<Rightarrow> u64 option" where
  "as_u64 (JNum (PosInt n)) = Some n"
| "as_u64 _ = None"

fun as_i64 :: "json \<Rightarrow> int option" where
  "as_i64 (JNum (PosInt n)) = (if n < 9223372036854775808 then Some (int n) else None)"
| "as_i64 (JNum (NegInt i)) = Some i"
| "as_i64 _ = None"

text \<open>\<open>Value::get\<close> at a string index: \<open>None\<close> on anything but an object.\<close>

fun jget :: "json \<Rightarrow> string \<Rightarrow> json option" where
  "jget (JObj kvs) k = map_of kvs k"
| "jget _ k = None"

definition jget_str :: "json \<Rightarrow> string \<Rightarrow> string option" where
  "jget_str v k = Option.bind (jget v k) as_str"

definition jget_arr :: "json \<Rightarrow> string \<Rightarrow> json list option" where
  "jget_arr v k = Option.bind (jget v k) as_array"

definition jget_u64 :: "json \<Rightarrow> string \<Rightarrow> u64 option" where
  "jget_u64 v k = Option.bind (jget v k) as_u64"

text \<open>
  \<open>Value::pointer\<close> on a path of object keys (every path the sources build consists of
  names, so an array on the way is a miss).
\<close>

fun jpointer :: "json \<Rightarrow> string list \<Rightarrow> json option" where
  "jpointer v [] = Some v"
| "jpointer v (k # ks) = Option.bind (jget v k) (\<lambda>w. jpointer w ks)"

text \<open>\<open>Map::remove\<close>, and \<open>*get_mut(k) = f(..)\<close> for a key that is present.\<close>

definition obj_remove :: "string \<Rightarrow> (string \<times> json) list \<Rightarrow> (string \<times> json) list" where
  "obj_remove k kvs = filter (\<lambda>kv. fst kv \<noteq> k) kvs"

definition obj_modify ::
  "string \<Rightarrow> (json \<Rightarrow> json) \<Rightarrow> (string \<times> json) list \<Rightarrow> (string \<times> json) list" where
  "obj_modify k f kvs = map (\<lambda>kv. if fst kv = k then (fst kv, f (snd kv)) else kv) kvs"

section \<open>Values without floats\<close>

text \<open>
  The invariants of the Rust type (distinct keys, integers in range) together with the
  absence of floats: the values for which printing and parsing are inverse (the crate is
  built without its \<open>float_roundtrip\<close> feature). Block, log and record JSON of both chains
  holds only strings, integers, arrays and objects.
\<close>

fun num_plain :: "number \<Rightarrow> bool" where
  "num_plain (PosInt n) = (n \<le> u64_max)"
| "num_plain (NegInt i) = (- 9223372036854775808 \<le> i \<and> i < 0)"
| "num_plain (Float b) = False"

fun plain :: "json \<Rightarrow> bool" where
  "plain JNull = True"
| "plain (JBool b) = True"
| "plain (JNum n) = num_plain n"
| "plain (JStr s) = True"
| "plain (JArr vs) = list_all plain vs"
| "plain (JObj kvs) = (distinct (map fst kvs) \<and> list_all (\<lambda>kv. plain (snd kv)) kvs)"

section \<open>The serialiser interface\<close>

record serde =
  from_slice :: "bytes \<Rightarrow> json option"
  to_vec :: "json \<Rightarrow> bytes option"
  raw_value :: "bytes \<Rightarrow> span option"
  raw_array :: "bytes \<Rightarrow> span list option"

fun join_comma :: "bytes list \<Rightarrow> bytes" where
  "join_comma [] = []"
| "join_comma [x] = x"
| "join_comma (x # y # ys) = x @ CHR '','' # join_comma (y # ys)"

definition array_text :: "bytes list \<Rightarrow> bytes" where
  "array_text ts = CHR ''['' # join_comma ts @ '']''"

text \<open>A text is tight when it is one JSON value with nothing around it.\<close>

definition tight :: "serde \<Rightarrow> bytes \<Rightarrow> bool" where
  "tight S t \<longleftrightarrow> raw_value S t = Some (0, length t)"

text \<open>
  The behaviour of \<open>serde_json\<close> the development relies on: printing a plain value succeeds,
  gives one tight text and parses back to the value; an object prints with its opening
  brace first; a borrowed raw value is a range of the buffer; and an array written as
  tight texts separated by commas splits into exactly those texts and parses element by
  element.
\<close>

locale serde_laws =
  fixes S :: serde
  assumes print_total: "plain v \<Longrightarrow> \<exists>b. to_vec S v = Some b"
    and parse_print: "plain v \<Longrightarrow> to_vec S v = Some b \<Longrightarrow> from_slice S b = Some v"
    and print_tight: "plain v \<Longrightarrow> to_vec S v = Some b \<Longrightarrow> tight S b"
    and print_object: "plain (JObj kvs) \<Longrightarrow> to_vec S (JObj kvs) = Some b \<Longrightarrow> \<exists>r. b = CHR ''{'' # r"
    and print_empty_array: "to_vec S (JArr []) = Some ''[]''"
    and raw_value_span: "raw_value S b = Some r \<Longrightarrow> span_in b r"
    and raw_array_span: "raw_array S b = Some rs \<Longrightarrow> r \<in> set rs \<Longrightarrow> span_in b r"
    and raw_array_texts: "list_all (tight S) ts \<Longrightarrow>
       \<exists>rs. raw_array S (array_text ts) = Some rs \<and> map (slice_of (array_text ts)) rs = ts"
    and parse_array: "list_all (tight S) ts \<Longrightarrow> map (from_slice S) ts = map Some vs \<Longrightarrow>
       from_slice S (array_text ts) = Some (JArr vs)"
begin

lemma empty_array_tight: "tight S ''[]''"
  by (rule print_tight [of "JArr []"]) (simp_all add: print_empty_array)

lemma empty_array_parses: "from_slice S ''[]'' = Some (JArr [])"
  by (rule parse_print) (simp_all add: print_empty_array)

lemma printed:
  assumes "plain v"
  obtains b where "to_vec S v = Some b" "from_slice S b = Some v" "tight S b"
  using assms print_total parse_print print_tight by blast

end

section \<open>Lemmas on the accessors\<close>

lemma jget_str_Some_iff: "jget_str v k = Some s \<longleftrightarrow> jget v k = Some (JStr s)"
  by (auto simp: jget_str_def bind_eq_Some_conv elim: as_str.elims)

lemma jget_arr_Some_iff: "jget_arr v k = Some xs \<longleftrightarrow> jget v k = Some (JArr xs)"
  by (auto simp: jget_arr_def bind_eq_Some_conv elim: as_array.elims)

lemma jget_Some_obj: "jget v k = Some w \<Longrightarrow> \<exists>kvs. v = JObj kvs \<and> map_of kvs k = Some w"
  by (cases v) auto

lemma jget_plain: "plain v \<Longrightarrow> jget v k = Some w \<Longrightarrow> plain w"
  by (cases v) (auto simp: list_all_iff dest: map_of_SomeD)

lemma map_of_obj_modify:
  "map_of (obj_modify k f kvs) k' =
     (if k' = k then map_option f (map_of kvs k) else map_of kvs k')"
  by (induction kvs) (auto simp: obj_modify_def)

lemma map_of_obj_remove:
  "map_of (obj_remove k kvs) k' = (if k' = k then None else map_of kvs k')"
  by (induction kvs) (auto simp: obj_remove_def)

lemma join_comma_Cons: "join_comma (x # ys) = (if ys = [] then x else x @ CHR '','' # join_comma ys)"
  by (cases ys) auto

lemma join_comma_snoc: "xs \<noteq> [] \<Longrightarrow> join_comma (xs @ [y]) = join_comma xs @ CHR '','' # y"
  by (induction xs rule: join_comma.induct) auto

end
