(* ===== verification/Json_Reference.thy ===== *)
theory Json_Reference
  imports Json
begin

text \<open>
  An executable codec for compact JSON, the form \<open>serde_json::to_vec\<close> writes, and the proof
  that it satisfies \<open>serde_laws\<close>. It serves two purposes: it shows that what the development
  assumes of \<open>serde_json\<close> can hold together, and it lets the witnesses run the model on
  concrete blocks. The parser is a recursive descent with fuel; the length of the input is
  always enough (lemma \<open>pval_print\<close> for printed texts, \<open>parse_mono\<close> for more fuel).
\<close>

section \<open>Printing\<close>

definition hex_nibble :: "nat \<Rightarrow> char" where
  "hex_nibble d = from_digit d"

definition escape_char :: "char \<Rightarrow> string" where
  "escape_char c =
     (let n = of_char c :: nat in
      if n = 34 then [CHR 0x5C, CHR 0x22]
      else if n = 92 then [CHR 0x5C, CHR 0x5C]
      else if n = 8 then [CHR 0x5C, CHR ''b'']
      else if n = 9 then [CHR 0x5C, CHR ''t'']
      else if n = 10 then [CHR 0x5C, CHR ''n'']
      else if n = 12 then [CHR 0x5C, CHR ''f'']
      else if n = 13 then [CHR 0x5C, CHR ''r'']
      else if n < 32 then [CHR 0x5C, CHR ''u'', CHR ''0'', CHR ''0'', hex_nibble (n div 16), hex_nibble (n mod 16)]
      else [c])"

definition print_str :: "string \<Rightarrow> string" where
  "print_str s = CHR 0x22 # concat (map escape_char s) @ [CHR 0x22]"

fun print_num :: "number \<Rightarrow> string" where
  "print_num (PosInt n) = to_dec n"
| "print_num (NegInt i) = CHR ''-'' # to_dec (nat (- i))"
| "print_num (Float b) = []"

fun print_json :: "json \<Rightarrow> string" where
  "print_json JNull = ''null''"
| "print_json (JBool b) = (if b then ''true'' else ''false'')"
| "print_json (JNum n) = print_num n"
| "print_json (JStr s) = print_str s"
| "print_json (JArr vs) = array_text (map print_json vs)"
| "print_json (JObj kvs) =
     CHR ''{'' # join_comma (map (\<lambda>kv. print_str (fst kv) @ CHR '':'' # print_json (snd kv)) kvs) @ ''}''"

section \<open>Parsing\<close>

text \<open>Sequencing of parsers: a parser returns what it read and the input that is left.\<close>

definition bindp :: "('a \<times> string) option \<Rightarrow> ('a \<Rightarrow> string \<Rightarrow> 'b option) \<Rightarrow> 'b option" where
  "bindp a f = (case a of None \<Rightarrow> None | Some (v, r) \<Rightarrow> f v r)"

definition uncons :: "string \<Rightarrow> (char \<Rightarrow> string \<Rightarrow> 'b option) \<Rightarrow> 'b option" where
  "uncons s f = (case s of [] \<Rightarrow> None | c # cs \<Rightarrow> f c cs)"

definition is_digit :: "char \<Rightarrow> bool" where
  "is_digit c \<longleftrightarrow> byte_in 48 57 c"

definition unescape :: "char \<Rightarrow> char option" where
  "unescape c =
     (if c = CHR 0x22 \<or> c = CHR 0x5C \<or> c = CHR ''/'' then Some c
      else if c = CHR ''b'' then Some (CHR 0x08)
      else if c = CHR ''t'' then Some (CHR 0x09)
      else if c = CHR ''n'' then Some (CHR 0x0A)
      else if c = CHR ''f'' then Some (CHR 0x0C)
      else if c = CHR ''r'' then Some (CHR 0x0D)
      else None)"

definition unescape_hex :: "string \<Rightarrow> (char \<times> string) option" where
  "unescape_hex s =
     uncons s (\<lambda>a s1. uncons s1 (\<lambda>b s2. uncons s2 (\<lambda>h s3. uncons s3 (\<lambda>l s4.
       if a = CHR ''0'' \<and> b = CHR ''0'' then
         (case (to_digit 16 h, to_digit 16 l) of
            (Some x, Some y) \<Rightarrow> Some (char_of (16 * x + y), s4)
          | _ \<Rightarrow> None)
       else None))))"

text \<open>One character of a string literal, escaped or not.\<close>

definition pchar :: "string \<Rightarrow> (char \<times> string) option" where
  "pchar s =
     uncons s (\<lambda>c cs.
       if c \<noteq> CHR 0x5C then Some (c, cs)
       else uncons cs (\<lambda>e r.
         if e = CHR ''u'' then unescape_hex r
         else (case unescape e of None \<Rightarrow> None | Some x \<Rightarrow> Some (x, r))))"

fun pstr :: "nat \<Rightarrow> string \<Rightarrow> (string \<times> string) option" where
  "pstr 0 s = None"
| "pstr (Suc n) s =
     uncons s (\<lambda>c cs.
       if c = CHR 0x22 then Some ([], cs)
       else bindp (pchar s) (\<lambda>x r. bindp (pstr n r) (\<lambda>w t. Some (x # w, t))))"

definition pnat :: "string \<Rightarrow> (nat \<times> string) option" where
  "pnat s =
     (case parse_u64 (takeWhile is_digit s) of
        None \<Rightarrow> None
      | Some n \<Rightarrow> Some (n, dropWhile is_digit s))"

definition pnum :: "string \<Rightarrow> (json \<times> string) option" where
  "pnum s =
     uncons s (\<lambda>c cs.
       if c = CHR ''-'' then bindp (pnat cs) (\<lambda>n r. Some (JNum (NegInt (- int n)), r))
       else bindp (pnat s) (\<lambda>n r. Some (JNum (PosInt n), r)))"

definition plit :: "string \<Rightarrow> (json \<times> string) option" where
  "plit s =
     uncons s (\<lambda>c cs.
       if c = CHR ''n'' then map_option (Pair JNull) (strip_prefix ''null'' s)
       else if c = CHR ''t'' then map_option (Pair (JBool True)) (strip_prefix ''true'' s)
       else if c = CHR ''f'' then map_option (Pair (JBool False)) (strip_prefix ''false'' s)
       else pnum s)"

text \<open>
  \<open>pval\<close> reads one value, \<open>pelems\<close> the elements of an array and \<open>pmembers\<close> the members of
  an object, up to and including the closing bracket.
\<close>

fun pval :: "nat \<Rightarrow> string \<Rightarrow> (json \<times> string) option"
and pelems :: "nat \<Rightarrow> string \<Rightarrow> (json list \<times> string) option"
and pmembers :: "nat \<Rightarrow> string \<Rightarrow> ((string \<times> json) list \<times> string) option"
where
  "pval 0 s = None"
| "pval (Suc n) s =
     uncons s (\<lambda>c cs.
       if c = CHR 0x22 then bindp (pstr n cs) (\<lambda>w r. Some (JStr w, r))
       else if c = CHR ''['' then
         uncons cs (\<lambda>d ds.
           if d = CHR '']'' then Some (JArr [], ds)
           else bindp (pelems n cs) (\<lambda>vs r. Some (JArr vs, r)))
       else if c = CHR ''{'' then
         uncons cs (\<lambda>d ds.
           if d = CHR ''}'' then Some (JObj [], ds)
           else bindp (pmembers n cs) (\<lambda>kvs r. Some (JObj kvs, r)))
       else plit s)"
| "pelems 0 s = None"
| "pelems (Suc n) s =
     bindp (pval n s) (\<lambda>v t. uncons t (\<lambda>c r.
       if c = CHR '','' then bindp (pelems n r) (\<lambda>vs u. Some (v # vs, u))
       else if c = CHR '']'' then Some ([v], r)
       else None))"
| "pmembers 0 s = None"
| "pmembers (Suc n) s =
     uncons s (\<lambda>q s'.
       if q \<noteq> CHR 0x22 then None
       else bindp (pstr n s') (\<lambda>k t. uncons t (\<lambda>c r.
         if c \<noteq> CHR '':'' then None
         else bindp (pval n r) (\<lambda>v u. uncons u (\<lambda>d w.
           if d = CHR '','' then bindp (pmembers n w) (\<lambda>kvs x. Some ((k, v) # kvs, x))
           else if d = CHR ''}'' then Some ([(k, v)], w)
           else None)))))"

fun pspans :: "nat \<Rightarrow> nat \<Rightarrow> string \<Rightarrow> span list option" where
  "pspans 0 off s = None"
| "pspans (Suc n) off s =
     bindp (pval n s) (\<lambda>v t. uncons t (\<lambda>c r.
       let e = off + (length s - length t) in
       if c = CHR '','' then map_option (Cons (off, e)) (pspans n (Suc e) r)
       else if c = CHR '']'' \<and> r = [] then Some [(off, e)]
       else None))"

definition ref_from_slice :: "bytes \<Rightarrow> json option" where
  "ref_from_slice b = (case pval (Suc (length b)) b of Some (v, []) \<Rightarrow> Some v | _ \<Rightarrow> None)"

definition ref_to_vec :: "json \<Rightarrow> bytes option" where
  "ref_to_vec v = (if plain v then Some (print_json v) else None)"

definition ref_raw_value :: "bytes \<Rightarrow> span option" where
  "ref_raw_value b = (case ref_from_slice b of Some v \<Rightarrow> Some (0, length b) | None \<Rightarrow> None)"

definition ref_raw_array :: "bytes \<Rightarrow> span list option" where
  "ref_raw_array b =
     (case b of
        [] \<Rightarrow> None
      | c # cs \<Rightarrow>
          if c \<noteq> CHR ''['' then None
          else if cs = '']'' then Some []
          else pspans (Suc (length b)) 1 cs)"

definition ref_serde :: serde where
  "ref_serde = \<lparr>from_slice = ref_from_slice, to_vec = ref_to_vec,
     raw_value = ref_raw_value, raw_array = ref_raw_array\<rparr>"

section \<open>More fuel\<close>

definition le_opt :: "'a option \<Rightarrow> 'a option \<Rightarrow> bool" where
  "le_opt a b \<longleftrightarrow> a = None \<or> a = b"

lemma le_opt_rules:
  "le_opt a a"
  "le_opt None b"
  "le_opt a b \<Longrightarrow> (\<And>v r. le_opt (f v r) (g v r)) \<Longrightarrow> le_opt (bindp a f) (bindp b g)"
  "(\<And>c cs. le_opt (h c cs) (k c cs)) \<Longrightarrow> le_opt (uncons s h) (uncons s k)"
  "(p \<Longrightarrow> le_opt a b) \<Longrightarrow> (\<not> p \<Longrightarrow> le_opt a' b') \<Longrightarrow> le_opt (if p then a else a') (if p then b else b')"
  by (auto simp: le_opt_def bindp_def uncons_def split: option.splits list.splits)

lemma pstr_le: "le_opt (pstr n s) (pstr (Suc n) s)"
proof (induction n arbitrary: s)
  case 0
  then show ?case by (simp add: le_opt_def)
next
  case (Suc n)
  show ?case
    unfolding pstr.simps(2) [of n s] pstr.simps(2) [of "Suc n" s]
    by (intro le_opt_rules Suc.IH)
qed

lemma parse_le:
  "le_opt (pval n s) (pval (Suc n) s) \<and>
   le_opt (pelems n s) (pelems (Suc n) s) \<and>
   le_opt (pmembers n s) (pmembers (Suc n) s)"
proof (induction n arbitrary: s)
  case 0
  then show ?case by (simp add: le_opt_def)
next
  case (Suc n)
  have V: "le_opt (pval n s) (pval (Suc n) s)"
    and E: "le_opt (pelems n s) (pelems (Suc n) s)"
    and M: "le_opt (pmembers n s) (pmembers (Suc n) s)" for s
    using Suc.IH by auto
  have "le_opt (pval (Suc n) s) (pval (Suc (Suc n)) s)"
    unfolding pval.simps(2) [of n s] pval.simps(2) [of "Suc n" s]
    by (intro le_opt_rules V E M pstr_le)
  moreover have "le_opt (pelems (Suc n) s) (pelems (Suc (Suc n)) s)"
    unfolding pelems.simps(2) [of n s] pelems.simps(2) [of "Suc n" s]
    by (intro le_opt_rules V E M pstr_le)
  moreover have "le_opt (pmembers (Suc n) s) (pmembers (Suc (Suc n)) s)"
    unfolding pmembers.simps(2) [of n s] pmembers.simps(2) [of "Suc n" s]
    by (intro le_opt_rules V E M pstr_le)
  ultimately show ?case by blast
qed

lemma pval_mono: "pval n s = Some x \<Longrightarrow> n \<le> m \<Longrightarrow> pval m s = Some x"
proof (induction m)
  case 0
  then show ?case by simp
next
  case (Suc m)
  then show ?case
    using parse_le [of m s] by (cases "n = Suc m") (auto simp: le_opt_def)
qed

section \<open>More input\<close>

definition nodig :: "string \<Rightarrow> bool" where
  "nodig t = (case t of [] \<Rightarrow> True | c # _ \<Rightarrow> \<not> is_digit c)"

definition ext :: "string \<Rightarrow> ('a \<times> string) option \<Rightarrow> ('a \<times> string) option \<Rightarrow> bool" where
  "ext t a b \<longleftrightarrow> (\<forall>v r. a = Some (v, r) \<longrightarrow> b = Some (v, r @ t))"

definition vext :: "string \<Rightarrow> ('a \<times> string) option \<Rightarrow> ('a \<times> string) option \<Rightarrow> bool" where
  "vext t a b \<longleftrightarrow> (\<forall>v r. a = Some (v, r) \<longrightarrow> (r = [] \<longrightarrow> nodig t) \<longrightarrow> b = Some (v, r @ t))"

lemma ext_rules:
  "ext t None b"
  "ext t (Some (v, r)) (Some (v, r @ t))"
  "ext t a b \<Longrightarrow> (\<And>v r. ext t (f v r) (g v (r @ t))) \<Longrightarrow> ext t (bindp a f) (bindp b g)"
  "(\<And>c cs. s = c # cs \<Longrightarrow> ext t (h c cs) (k c (cs @ t))) \<Longrightarrow> ext t (uncons s h) (uncons (s @ t) k)"
  "(p \<Longrightarrow> ext t a b) \<Longrightarrow> (\<not> p \<Longrightarrow> ext t a' b') \<Longrightarrow> ext t (if p then a else a') (if p then b else b')"
  by (auto simp: ext_def bindp_def uncons_def split: option.splits list.splits)

lemma ext_bindp_vext:
  assumes "vext t a b" and step: "\<And>v c cs. ext t (h v c cs) (k v c (cs @ t))"
  shows "ext t (bindp a (\<lambda>v r. uncons r (h v))) (bindp b (\<lambda>v r. uncons r (k v)))"
proof (cases a)
  case None
  then show ?thesis by (simp add: ext_def bindp_def)
next
  case (Some p)
  then obtain v r where a: "a = Some (v, r)" by (cases p) auto
  show ?thesis
  proof (cases r)
    case Nil
    with a show ?thesis by (simp add: ext_def bindp_def uncons_def)
  next
    case (Cons c cs)
    with a assms(1) have "b = Some (v, c # cs @ t)" by (simp add: vext_def)
    with a Cons step show ?thesis by (simp add: bindp_def uncons_def)
  qed
qed

lemma vext_rules:
  "ext t a b \<Longrightarrow> vext t a b"
  "vext t a b \<Longrightarrow> vext t (bindp a (\<lambda>v r. Some (F v, r))) (bindp b (\<lambda>v r. Some (F v, r)))"
  "(\<And>c cs. s = c # cs \<Longrightarrow> vext t (h c cs) (k c (cs @ t))) \<Longrightarrow> vext t (uncons s h) (uncons (s @ t) k)"
  "(p \<Longrightarrow> vext t a b) \<Longrightarrow> (\<not> p \<Longrightarrow> vext t a' b') \<Longrightarrow> vext t (if p then a else a') (if p then b else b')"
  by (auto simp: ext_def vext_def bindp_def uncons_def split: option.splits list.splits)

lemma unescape_hex_ext: "ext t (unescape_hex s) (unescape_hex (s @ t))"
  unfolding unescape_hex_def
  by (intro ext_rules) (auto simp: ext_def split: option.splits)

lemma pchar_ext: "ext t (pchar s) (pchar (s @ t))"
  unfolding pchar_def
  by (intro ext_rules unescape_hex_ext) (auto simp: ext_def split: option.splits)

lemma pstr_ext: "ext t (pstr n s) (pstr n (s @ t))"
proof (induction n arbitrary: s)
  case 0
  then show ?case by (simp add: ext_def)
next
  case (Suc n)
  show ?case
    unfolding pstr.simps(2) [of n s] pstr.simps(2) [of n "s @ t"]
    by (intro ext_rules pchar_ext Suc.IH)
qed

lemma digits_append:
  assumes "dropWhile is_digit s = [] \<longrightarrow> nodig t"
  shows "takeWhile is_digit (s @ t) = takeWhile is_digit s \<and>
     dropWhile is_digit (s @ t) = dropWhile is_digit s @ t"
  using assms
proof (induction s)
  case Nil
  then show ?case by (cases t) (auto simp: nodig_def)
next
  case (Cons a s)
  then show ?case by auto
qed

lemma pnat_vext: "vext t (pnat s) (pnat (s @ t))"
  using digits_append [of s t] by (auto simp: vext_def pnat_def split: option.splits)

lemma plit_vext: "vext t (plit s) (plit (s @ t))"
proof -
  have num: "vext t (pnum s) (pnum (s @ t))" for s
    unfolding pnum_def by (intro vext_rules pnat_vext)
  have lit: "vext t (map_option (Pair x) (strip_prefix p s)) (map_option (Pair x) (strip_prefix p (s @ t)))"
    for x p s
    by (auto simp: vext_def strip_prefix_Some_iff)
  show ?thesis unfolding plit_def by (intro vext_rules num lit)
qed

lemma parse_ext:
  "vext t (pval n s) (pval n (s @ t)) \<and>
   ext t (pelems n s) (pelems n (s @ t)) \<and>
   ext t (pmembers n s) (pmembers n (s @ t))"
proof (induction n arbitrary: s)
  case 0
  then show ?case by (simp add: ext_def vext_def)
next
  case (Suc n)
  have V: "vext t (pval n s) (pval n (s @ t))"
    and E: "ext t (pelems n s) (pelems n (s @ t))"
    and M: "ext t (pmembers n s) (pmembers n (s @ t))" for s
    using Suc.IH by auto
  have "vext t (pval (Suc n) s) (pval (Suc n) (s @ t))"
    unfolding pval.simps(2) [of n s] pval.simps(2) [of n "s @ t"]
    by (intro vext_rules(3,4) plit_vext; intro vext_rules(1) ext_rules E M pstr_ext)
  moreover have "ext t (pelems (Suc n) s) (pelems (Suc n) (s @ t))"
    unfolding pelems.simps(2) [of n s] pelems.simps(2) [of n "s @ t"]
    by (intro ext_bindp_vext V; intro ext_rules E)
  moreover have "ext t (pmembers (Suc n) s) (pmembers (Suc n) (s @ t))"
    unfolding pmembers.simps(2) [of n s] pmembers.simps(2) [of n "s @ t"]
    by (rule ext_rules(4), rule ext_rules(5), rule ext_rules(1), rule ext_rules(3) [OF pstr_ext],
        rule ext_rules(4), rule ext_rules(5), rule ext_rules(1), rule ext_bindp_vext [OF V],
        intro ext_rules M)
  ultimately show ?case by blast
qed

lemma pval_append: "pval n s = Some (v, r) \<Longrightarrow> (r = [] \<longrightarrow> nodig t) \<Longrightarrow> pval n (s @ t) = Some (v, r @ t)"
  using parse_ext [of t n s] by (simp add: vext_def)

section \<open>What is left is no longer than the input\<close>

definition leaves :: "nat \<Rightarrow> ('a \<times> string) option \<Rightarrow> bool" where
  "leaves k a \<longleftrightarrow> (\<forall>v r. a = Some (v, r) \<longrightarrow> length r < k)"

lemma leaves_rules:
  "leaves k None"
  "length r < k \<Longrightarrow> leaves k (Some (v, r))"
  "leaves l a \<Longrightarrow> (\<And>v r. length r < l \<Longrightarrow> leaves k (f v r)) \<Longrightarrow> leaves k (bindp a f)"
  "(\<And>c cs. s = c # cs \<Longrightarrow> leaves k (h c cs)) \<Longrightarrow> leaves k (uncons s h)"
  "leaves k a \<Longrightarrow> leaves k b \<Longrightarrow> leaves k (if p then a else b)"
  by (auto simp: leaves_def bindp_def uncons_def split: option.splits list.splits)

lemma leaves_le: "leaves l a \<Longrightarrow> l \<le> k \<Longrightarrow> leaves k a"
  by (auto simp: leaves_def dest: less_le_trans)

lemma unescape_hex_leaves: "leaves (length s) (unescape_hex s)"
  by (auto simp: leaves_def unescape_hex_def uncons_def split: list.splits option.splits if_splits)

lemma pchar_leaves: "leaves (length s) (pchar s)"
  unfolding pchar_def
  by (intro leaves_rules(4,5) leaves_le [OF unescape_hex_leaves])
    (auto simp: leaves_def split: option.splits)

lemma pstr_leaves: "leaves (length s) (pstr n s)"
proof (induction n arbitrary: s)
  case 0
  then show ?case by (simp add: leaves_def)
next
  case (Suc n)
  show ?case unfolding pstr.simps(2)
    by (rule leaves_rules(4), rule leaves_rules(5), rule leaves_rules(2), simp,
        rule leaves_rules(3) [OF pchar_leaves], rule leaves_rules(3) [OF Suc.IH],
        rule leaves_rules(2), simp)
qed

lemma pnat_leaves: "leaves (length s) (pnat s)"
proof -
  have "parse_u64 [] = None" by (simp add: parse_u64_def from_str_radix_def)
  then have "length (dropWhile is_digit s) < length s" if "parse_u64 (takeWhile is_digit s) \<noteq> None"
    using that by (cases s) (auto split: if_splits simp: less_Suc_eq_le length_dropWhile_le)
  then show ?thesis by (auto simp: leaves_def pnat_def split: option.splits)
qed

lemma plit_leaves: "leaves (length s) (plit s)"
proof -
  have num: "leaves (length s) (pnum s)" for s
    unfolding pnum_def
    by (intro leaves_rules(4,5), rule leaves_rules(3) [OF pnat_leaves], rule leaves_rules(2), simp,
        rule leaves_rules(3) [OF pnat_leaves], rule leaves_rules(2), simp)
  have lit: "leaves (length s) (map_option (Pair x) (strip_prefix (c # cs) s))" for x c cs and s :: string
    by (auto simp: leaves_def strip_prefix_Some_iff)
  show ?thesis unfolding plit_def by (intro leaves_rules(4,5) num lit)
qed

lemma parse_leaves:
  "leaves (length s) (pval n s) \<and> leaves (length s) (pelems n s) \<and> leaves (length s) (pmembers n s)"
proof (induction n arbitrary: s)
  case 0
  then show ?case by (simp add: leaves_def)
next
  case (Suc n)
  have V: "leaves (length s) (pval n s)"
    and E: "leaves (length s) (pelems n s)"
    and M: "leaves (length s) (pmembers n s)" for s
    using Suc.IH by auto
  note sub = leaves_rules(3) [OF V] leaves_rules(3) [OF E] leaves_rules(3) [OF M] leaves_rules(3) [OF pstr_leaves]
  have "leaves (length s) (pval (Suc n) s)"
    unfolding pval.simps(2) [of n s]
    by (intro leaves_rules(4,5) plit_leaves sub leaves_rules(2)) auto
  moreover have "leaves (length s) (pelems (Suc n) s)"
    unfolding pelems.simps(2) [of n s]
    by (intro leaves_rules(4,5,1) sub leaves_rules(2)) auto
  moreover have "leaves (length s) (pmembers (Suc n) s)"
    unfolding pmembers.simps(2) [of n s]
    by (intro leaves_rules(4,5,1) sub leaves_rules(2)) auto
  ultimately show ?case by blast
qed

section \<open>Printed texts parse back\<close>

lemma uncons_Cons [simp]: "uncons (c # cs) f = f c cs"
  by (simp add: uncons_def)

lemma bindp_Some [simp]: "bindp (Some (v, r)) f = f v r"
  by (simp add: bindp_def)

lemma char_eq_iff: "(c :: char) = d \<longleftrightarrow> (of_char c :: nat) = of_char d"
  by simp

lemma pchar_escape:
  "pchar (escape_char c @ t) = Some (c, t) \<and> escape_char c \<noteq> [] \<and> hd (escape_char c) \<noteq> CHR 0x22"
proof (cases "(of_char c :: nat) < 32 \<or> (of_char c :: nat) = 34 \<or> (of_char c :: nat) = 92")
  case True
  have sp: "c = CHR 0x22" if "(of_char c :: nat) = 34" using that by (simp add: char_eq_iff)
  have sp': "c = CHR 0x5C" if "(of_char c :: nat) = 92" using that by (simp add: char_eq_iff)
  have sp8: "c = CHR 0x08" if "(of_char c :: nat) = 8" using that by (simp add: char_eq_iff)
  have sp9: "c = CHR 0x09" if "(of_char c :: nat) = 9" using that by (simp add: char_eq_iff)
  have sp10: "c = CHR 0x0A" if "(of_char c :: nat) = 10" using that by (simp add: char_eq_iff)
  have sp12: "c = CHR 0x0C" if "(of_char c :: nat) = 12" using that by (simp add: char_eq_iff)
  have sp13: "c = CHR 0x0D" if "(of_char c :: nat) = 13" using that by (simp add: char_eq_iff)
  have hx: "unescape_hex (CHR ''0'' # CHR ''0'' # hex_nibble (n div 16) # hex_nibble (n mod 16) # t)
      = Some (char_of n, t)" if "n < 256" for n
    using that by (simp add: unescape_hex_def hex_nibble_def to_digit_from_digit)
  show ?thesis
    using True
    by (auto simp: escape_char_def Let_def pchar_def unescape_def hx dest: sp sp' sp8 sp9 sp10 sp12 sp13)
next
  case False
  then show ?thesis
    by (auto simp: escape_char_def Let_def pchar_def)
qed

lemma pstr_print:
  "length s < n \<Longrightarrow> pstr n (concat (map escape_char s) @ CHR 0x22 # t) = Some (s, t)"
proof (induction s arbitrary: n)
  case Nil
  then obtain m where "n = Suc m" by (cases n) auto
  then show ?case by simp
next
  case (Cons c s)
  then obtain m where n: "n = Suc m" by (cases n) auto
  obtain d ds where e: "escape_char c = d # ds" "d \<noteq> CHR 0x22"
    using pchar_escape [of c "[]"] by (cases "escape_char c") auto
  have "pchar ((d # ds) @ concat (map escape_char s) @ CHR 0x22 # t)
      = Some (c, concat (map escape_char s) @ CHR 0x22 # t)"
    using pchar_escape [of c "concat (map escape_char s) @ CHR 0x22 # t"] e by simp
  moreover have "pstr m (concat (map escape_char s) @ CHR 0x22 # t) = Some (s, t)"
    using Cons n by simp
  ultimately show ?case using n e by simp
qed

lemma length_escape: "length s \<le> length (concat (map escape_char s))"
proof (induction s)
  case (Cons c s)
  have "escape_char c \<noteq> []" using pchar_escape by blast
  then have "1 \<le> length (escape_char c)" by (cases "escape_char c") auto
  with Cons show ?case by simp
qed simp

lemma digit_from_digit: "d < 10 \<Longrightarrow> is_digit (from_digit d)"
  by (simp add: is_digit_def byte_in_def from_digit_def)

lemma to_dec_digits: "list_all is_digit (to_dec n)"
proof -
  have "list_all is_digit (format_radix r n)" if "r = 10" for r :: nat
    using that
  proof (induction r n rule: format_radix.induct)
    case (1 r n)
    then show ?case
      by (subst format_radix.simps) (auto simp: digit_from_digit)
  qed
  then show ?thesis by (simp add: to_dec_def)
qed

lemma pnat_print: "n \<le> u64_max \<Longrightarrow> nodig t \<Longrightarrow> pnat (to_dec n @ t) = Some (n, t)"
proof -
  assume a: "n \<le> u64_max" "nodig t"
  have "\<forall>x\<in>set (to_dec n). is_digit x" using to_dec_digits by (simp add: list_all_iff)
  then have "takeWhile is_digit (to_dec n @ t) = to_dec n \<and> dropWhile is_digit (to_dec n @ t) = t"
    using a(2) by (cases t) (auto simp: nodig_def takeWhile_append dropWhile_append)
  with a show ?thesis by (simp add: pnat_def parse_u64_to_dec)
qed

lemma to_dec_head: "\<exists>d ds. to_dec n = d # ds \<and> is_digit d"
proof -
  have "to_dec n \<noteq> []" unfolding to_dec_def by (subst format_radix.simps) simp
  then show ?thesis using to_dec_digits [of n] by (cases "to_dec n") auto
qed

lemma digit_not_special:
  "is_digit d \<Longrightarrow> d \<noteq> CHR 0x22 \<and> d \<noteq> CHR ''['' \<and> d \<noteq> CHR ''{'' \<and> d \<noteq> CHR ''n'' \<and> d \<noteq> CHR ''t'' \<and>
     d \<noteq> CHR ''f'' \<and> d \<noteq> CHR ''-'' \<and> d \<noteq> CHR '']'' \<and> d \<noteq> CHR ''}'' \<and> d \<noteq> CHR '',''"
  by (auto simp: is_digit_def byte_in_def)

lemma print_head:
  "plain v \<Longrightarrow> \<exists>c cs. print_json v = c # cs \<and> c \<noteq> CHR '']''"
proof (cases v)
  case (JNum n)
  assume p: "plain v"
  show ?thesis
  proof (cases n)
    case (PosInt k)
    obtain d ds where "to_dec k = d # ds" "is_digit d" using to_dec_head by blast
    then show ?thesis using JNum PosInt digit_not_special by auto
  qed (use JNum p in auto)
qed (auto simp: print_str_def array_text_def)

lemma pval_print_num:
  assumes "num_plain k" "nodig t" "1 \<le> n"
  shows "pval n (print_num k @ t) = Some (JNum k, t)"
proof (cases k)
  case (PosInt m)
  obtain d ds where d: "to_dec m = d # ds" "is_digit d" using to_dec_head by blast
  have "pnat (d # ds @ t) = Some (m, t)"
    using assms PosInt pnat_print [of m t] d by simp
  with assms PosInt d digit_not_special [OF d(2)] show ?thesis
    by (cases n) (auto simp: plit_def pnum_def)
next
  case (NegInt i)
  then have "nat (- i) \<le> u64_max" using assms by (simp add: u64_max_def nat_le_iff)
  with assms NegInt pnat_print [of "nat (- i)" t] show ?thesis
    by (cases n) (auto simp: plit_def pnum_def)
qed (use assms in simp)

lemma pelems_print:
  assumes "vs \<noteq> []" and "length (join_comma (map print_json vs)) < n"
    and "\<And>v n t. v \<in> set vs \<Longrightarrow> nodig t \<Longrightarrow> length (print_json v) \<le> n \<Longrightarrow> pval n (print_json v @ t) = Some (v, t)"
  shows "pelems n (join_comma (map print_json vs) @ CHR '']'' # t) = Some (vs, t)"
  using assms
proof (induction vs arbitrary: n)
  case (Cons v vs)
  then obtain m where n: "n = Suc m" by (cases n) auto
  show ?case
  proof (cases "vs = []")
    case True
    have "pval m (print_json v @ CHR '']'' # t) = Some (v, CHR '']'' # t)"
      using Cons.prems True n by (simp add: nodig_def is_digit_def byte_in_def)
    with True n show ?thesis by simp
  next
    case False
    let ?rest = "join_comma (map print_json vs) @ CHR '']'' # t"
    have "pval m (print_json v @ CHR '','' # ?rest) = Some (v, CHR '','' # ?rest)"
      using Cons.prems False n by (simp add: join_comma_Cons nodig_def is_digit_def byte_in_def)
    moreover have "pelems m ?rest = Some (vs, t)"
      using Cons.prems False n by (intro Cons.IH) (auto simp: join_comma_Cons)
    ultimately show ?thesis using n False by (simp add: join_comma_Cons)
  qed
qed simp

definition member_text :: "string \<times> json \<Rightarrow> string" where
  "member_text kv = print_str (fst kv) @ CHR '':'' # print_json (snd kv)"

lemma pmembers_print:
  assumes "kvs \<noteq> []" and "length (join_comma (map member_text kvs)) < n"
    and "\<And>kv n t. kv \<in> set kvs \<Longrightarrow> nodig t \<Longrightarrow> length (print_json (snd kv)) \<le> n \<Longrightarrow>
       pval n (print_json (snd kv) @ t) = Some (snd kv, t)"
  shows "pmembers n (join_comma (map member_text kvs) @ CHR ''}'' # t) = Some (kvs, t)"
  using assms
proof (induction kvs arbitrary: n)
  case (Cons kv kvs)
  obtain k v where kv: "kv = (k, v)" by fastforce
  obtain m where n: "n = Suc m" using Cons.prems by (cases n) auto
  define tail where "tail = (if kvs = [] then CHR ''}'' # t
    else CHR '','' # join_comma (map member_text kvs) @ CHR ''}'' # t)"
  have eq: "join_comma (map member_text (kv # kvs)) @ CHR ''}'' # t =
      CHR 0x22 # concat (map escape_char k) @ CHR 0x22 # CHR '':'' # print_json v @ tail"
    by (simp add: join_comma_Cons member_text_def kv print_str_def tail_def)
  have len: "length (concat (map escape_char k)) + length (print_json v) + 2 < n"
    using Cons.prems(2) by (auto simp: join_comma_Cons member_text_def kv print_str_def split: if_splits)
  have "pstr m (concat (map escape_char k) @ CHR 0x22 # CHR '':'' # print_json v @ tail) =
      Some (k, CHR '':'' # print_json v @ tail)"
    using len n length_escape [of k] by (intro pstr_print) linarith
  moreover have "pval m (print_json v @ tail) = Some (v, tail)"
    using Cons.prems(3) [of kv tail m] len n kv by (simp add: nodig_def is_digit_def byte_in_def tail_def)
  moreover have "pmembers m (join_comma (map member_text kvs) @ CHR ''}'' # t) = Some (kvs, t)" if "kvs \<noteq> []"
    using Cons.prems n that by (intro Cons.IH) (auto simp: join_comma_Cons)
  ultimately show ?case unfolding eq by (simp add: n kv tail_def split: if_splits)
qed simp

lemma pval_print:
  "plain v \<Longrightarrow> nodig t \<Longrightarrow> length (print_json v) \<le> n \<Longrightarrow> pval n (print_json v @ t) = Some (v, t)"
proof (induction v arbitrary: n t)
  case (JStr s)
  then obtain m where n: "n = Suc m" by (cases n) (auto simp: print_str_def)
  have "length s < m" using JStr n length_escape [of s] by (simp add: print_str_def)
  from pstr_print [OF this, of t] n show ?case by (simp add: print_str_def)
next
  case (JNum k)
  then have "1 \<le> n"
    using print_head [of "JNum k"] by (cases n) auto
  with JNum pval_print_num show ?case by simp
next
  case (JArr vs)
  then obtain m where n: "n = Suc m" by (cases n) (auto simp: array_text_def)
  show ?case
  proof (cases "vs = []")
    case False
    then obtain v vs' where vs: "vs = v # vs'" by (cases vs) auto
    have "\<exists>c cs. join_comma (map print_json vs) = c # cs \<and> c \<noteq> CHR '']''"
      using print_head [of v] JArr.prems(1) vs by (auto simp: join_comma_Cons)
    then obtain c cs where hd: "join_comma (map print_json vs) = c # cs" "c \<noteq> CHR '']''"
      by blast
    have "pelems m (join_comma (map print_json vs) @ CHR '']'' # t) = Some (vs, t)"
      using JArr n False by (intro pelems_print) (auto simp: array_text_def list_all_iff)
    with hd n show ?thesis by (simp add: array_text_def)
  qed (simp add: n array_text_def)
next
  case (JObj kvs)
  then obtain m where n: "n = Suc m" by (cases n) auto
  have m: "print_json (JObj kvs) @ t = CHR ''{'' # join_comma (map member_text kvs) @ CHR ''}'' # t"
    by (simp add: member_text_def [abs_def])
  show ?case
  proof (cases "kvs = []")
    case False
    then obtain kv kvs' where k: "kvs = kv # kvs'" by (cases kvs) auto
    have "\<exists>cs. join_comma (map member_text kvs) = CHR 0x22 # cs"
      by (simp add: k join_comma_Cons member_text_def print_str_def)
    moreover have "pmembers m (join_comma (map member_text kvs) @ CHR ''}'' # t) = Some (kvs, t)"
      using JObj.prems n False
      by (intro pmembers_print JObj.IH) (auto simp: list_all_iff member_text_def [abs_def] snds.simps)
    ultimately show ?thesis unfolding m n by auto
  qed (simp add: n)
next
  case JNull
  then show ?case by (cases n) (auto simp: plit_def)
next
  case (JBool b)
  then show ?case by (cases n) (auto simp: plit_def split: if_splits)
qed

section \<open>Splitting an array into its element texts\<close>

lemma pspans_texts:
  assumes "ts \<noteq> []" and "\<forall>u\<in>set ts. \<exists>v. pval (Suc (length u)) u = Some (v, [])"
    and "length (join_comma ts) + 1 < n"
  shows "\<exists>rs. pspans n (length pre) (join_comma ts @ '']'') = Some rs \<and>
     map (slice_of (pre @ join_comma ts @ '']'')) rs = ts"
  using assms
proof (induction ts arbitrary: n pre)
  case (Cons u ts)
  obtain m where n: "n = Suc m" using Cons.prems(3) by (cases n) auto
  obtain v where v: "pval (Suc (length u)) u = Some (v, [])" using Cons.prems(2) by auto
  have len: "Suc (length u) \<le> m" using Cons.prems(3) n by (auto simp: join_comma_Cons split: if_splits)
  have P: "pval m (u @ w) = Some (v, w)" if "nodig w" for w
    using pval_append [OF v] that pval_mono [OF _ len, of "u @ w" "(v, w)"] by simp
  show ?case
  proof (cases "ts = []")
    case True
    have "pval m (u @ '']'') = Some (v, '']'')"
      by (rule P) (simp add: nodig_def is_digit_def byte_in_def)
    with True n show ?thesis by (simp add: slice_of_def)
  next
    case False
    let ?rest = "join_comma ts @ '']''"
    have pv: "pval m (u @ CHR '','' # ?rest) = Some (v, CHR '','' # ?rest)"
      by (rule P) (simp add: nodig_def is_digit_def byte_in_def)
    have h1: "\<forall>u\<in>set ts. \<exists>v. pval (Suc (length u)) u = Some (v, [])"
      using Cons.prems(2) by simp
    have h2: "length (join_comma ts) + 1 < m"
      using Cons.prems(3) n False by (simp add: join_comma_Cons)
    obtain rs where
      rs: "pspans m (length (pre @ u @ '','')) ?rest = Some rs"
        "map (slice_of ((pre @ u @ '','') @ ?rest)) rs = ts"
      using Cons.IH [OF False h1 h2, of "pre @ u @ '',''"] by (elim exE conjE)
    have hd: "slice_of (pre @ u @ CHR '','' # ?rest) (length pre, length pre + length u) = u"
      by (rule slice_of_append)
    have "pspans n (length pre) (join_comma (u # ts) @ '']'') =
        Some ((length pre, length pre + length u) # rs)"
      using False n pv rs(1) by (simp add: join_comma_Cons)
    moreover have "map (slice_of (pre @ join_comma (u # ts) @ '']'')) ((length pre, length pre + length u) # rs) = u # ts"
      using False rs(2) hd by (simp add: join_comma_Cons)
    ultimately show ?thesis by (intro exI conjI)
  qed
qed simp

lemma pspans_in:
  "pspans n off s = Some rs \<Longrightarrow> r \<in> set rs \<Longrightarrow> off + length s \<le> k \<Longrightarrow> fst r \<le> snd r \<and> snd r \<le> k"
proof (induction n arbitrary: off s rs)
  case (Suc n)
  from Suc.prems(1) obtain v c t where pv: "pval n s = Some (v, c # t)"
    by (auto simp: bindp_def uncons_def split: option.splits list.splits)
  have lt: "length (c # t) < length s"
    using parse_leaves [of s n] pv by (auto simp: leaves_def)
  let ?e = "off + (length s - length (c # t))"
  have e: "off \<le> ?e" "?e \<le> k" "Suc ?e + length t \<le> k" using lt Suc.prems(3) by auto
  from Suc.prems(1) pv consider
      (more) rs' where "pspans n (Suc ?e) t = Some rs'" "rs = (off, ?e) # rs'"
    | (last) "rs = [(off, ?e)]"
    by (auto simp: Let_def split: if_splits)
  then show ?case
  proof cases
    case more
    with Suc.IH [of "Suc ?e" t rs'] e Suc.prems(2) show ?thesis by auto
  next
    case last
    with e Suc.prems(2) show ?thesis by simp
  qed
qed simp

section \<open>The reference codec satisfies the laws\<close>

lemma tight_ref: "tight ref_serde t \<longleftrightarrow> (\<exists>v. pval (Suc (length t)) t = Some (v, []))"
  by (auto simp: tight_def ref_serde_def ref_raw_value_def ref_from_slice_def
      split: option.splits list.splits)

lemma ref_print:
  assumes "plain v"
  shows "pval (Suc (length (print_json v))) (print_json v) = Some (v, [])"
  using pval_print [OF assms, of "[]" "Suc (length (print_json v))"] by (simp add: nodig_def)

lemma pelems_texts:
  assumes "ts \<noteq> []" and "map ref_from_slice ts = map Some vs" and "length (join_comma ts) + 1 < n"
  shows "pelems n (join_comma ts @ '']'') = Some (vs, [])"
  using assms
proof (induction ts arbitrary: n vs)
  case (Cons u ts)
  obtain m where n: "n = Suc m" using Cons.prems(3) by (cases n) auto
  obtain v vs' where vs: "vs = v # vs'" "ref_from_slice u = Some v" "map ref_from_slice ts = map Some vs'"
    using Cons.prems(2) by (cases vs) auto
  then have v: "pval (Suc (length u)) u = Some (v, [])"
    by (auto simp: ref_from_slice_def split: option.splits list.splits)
  have len: "Suc (length u) \<le> m" using Cons.prems(3) n by (auto simp: join_comma_Cons split: if_splits)
  have P: "pval m (u @ w) = Some (v, w)" if "nodig w" for w
    using pval_append [OF v] that pval_mono [OF _ len, of "u @ w" "(v, w)"] by simp
  show ?case
  proof (cases "ts = []")
    case True
    have "pval m (u @ '']'') = Some (v, '']'')"
      by (rule P) (simp add: nodig_def is_digit_def byte_in_def)
    with True n vs show ?thesis by simp
  next
    case False
    let ?rest = "join_comma ts @ '']''"
    have "pval m (u @ CHR '','' # ?rest) = Some (v, CHR '','' # ?rest)"
      by (rule P) (simp add: nodig_def is_digit_def byte_in_def)
    moreover have "pelems m ?rest = Some (vs', [])"
      using Cons.prems(3) n False vs by (intro Cons.IH) (simp_all add: join_comma_Cons)
    ultimately show ?thesis using n False vs by (simp add: join_comma_Cons)
  qed
qed simp

lemma text_head:
  assumes "ts \<noteq> []" and "\<forall>u\<in>set ts. \<exists>v. pval (Suc (length u)) u = Some (v, [])"
  shows "\<exists>c cs. join_comma ts @ '']'' = c # cs \<and> c \<noteq> CHR '']''"
proof -
  obtain u ts' where ts: "ts = u # ts'" using assms(1) by (cases ts) auto
  with assms(2) obtain v where v: "pval (Suc (length u)) u = Some (v, [])" by auto
  then obtain c cs where u: "u = c # cs" by (cases u) (auto simp: uncons_def)
  have "pval (Suc (Suc (length cs))) (CHR '']'' # cs) = None"
    by (simp add: plit_def pnum_def pnat_def is_digit_def byte_in_def parse_u64_def from_str_radix_def bindp_def)
  with v u have "c \<noteq> CHR '']''" by auto
  with u ts show ?thesis by (auto simp: join_comma_Cons)
qed

lemma tight_parses: "list_all (tight ref_serde) ts \<Longrightarrow> \<forall>u\<in>set ts. \<exists>v. pval (Suc (length u)) u = Some (v, [])"
  by (simp add: list_all_iff tight_ref)

lemma ref_raw_array_texts:
  assumes "list_all (tight ref_serde) ts"
  shows "\<exists>rs. raw_array ref_serde (array_text ts) = Some rs \<and> map (slice_of (array_text ts)) rs = ts"
proof (cases "ts = []")
  case False
  note a = tight_parses [OF assms]
  from pspans_texts [OF False a, of "Suc (length (array_text ts))" "''[''"] text_head [OF False a]
  show ?thesis by (auto simp: ref_serde_def ref_raw_array_def array_text_def)
qed (simp add: ref_serde_def ref_raw_array_def array_text_def)

lemma ref_array_value:
  assumes "list_all (tight ref_serde) ts" "map (from_slice ref_serde) ts = map Some vs"
  shows "from_slice ref_serde (array_text ts) = Some (JArr vs)"
proof (cases "ts = []")
  case False
  have m: "map ref_from_slice ts = map Some vs" using assms(2) by (simp add: ref_serde_def)
  obtain c cs where h: "join_comma ts @ '']'' = c # cs" "c \<noteq> CHR '']''"
    using text_head [OF False tight_parses [OF assms(1)]] by blast
  have "pelems (length (array_text ts)) (join_comma ts @ '']'') = Some (vs, [])"
    by (rule pelems_texts [OF False m]) (simp add: array_text_def)
  with h show ?thesis by (simp add: ref_serde_def ref_from_slice_def array_text_def)
qed (use assms(2) in \<open>simp add: ref_serde_def ref_from_slice_def array_text_def\<close>)

interpretation ref: serde_laws ref_serde
proof
  fix v b
  assume p: "plain v"
  show "\<exists>b. to_vec ref_serde v = Some b"
    using p by (simp add: ref_serde_def ref_to_vec_def)
  assume "to_vec ref_serde v = Some b"
  with p have b: "b = print_json v" by (simp add: ref_serde_def ref_to_vec_def)
  from ref_print [OF p] b show "from_slice ref_serde b = Some v"
    by (simp add: ref_serde_def ref_from_slice_def)
  from ref_print [OF p] b show "tight ref_serde b" by (auto simp: tight_ref)
next
  fix kvs b
  assume "plain (JObj kvs)" "to_vec ref_serde (JObj kvs) = Some b"
  then show "\<exists>r. b = CHR ''{'' # r" by (auto simp: ref_serde_def ref_to_vec_def)
next
  show "to_vec ref_serde (JArr []) = Some ''[]''"
    by (simp add: ref_serde_def ref_to_vec_def array_text_def)
next
  fix b r
  assume "raw_value ref_serde b = Some r"
  then show "span_in b r"
    by (auto simp: ref_serde_def ref_raw_value_def span_in_def split: option.splits)
next
  fix b rs r
  assume "raw_array ref_serde b = Some rs" "r \<in> set rs"
  then show "span_in b r"
    using pspans_in [of "Suc (length b)" 1 "tl b" rs r "length b"]
    by (cases b) (auto simp: ref_serde_def ref_raw_array_def span_in_def split: if_splits)
next
  fix ts
  assume "list_all (tight ref_serde) ts"
  then show "\<exists>rs. raw_array ref_serde (array_text ts) = Some rs \<and> map (slice_of (array_text ts)) rs = ts"
    by (rule ref_raw_array_texts)
next
  fix ts vs
  assume "list_all (tight ref_serde) ts" "map (from_slice ref_serde) ts = map Some vs"
  then show "from_slice ref_serde (array_text ts) = Some (JArr vs)" by (rule ref_array_value)
qed

end
