(* ===== verification/Chain.thy ===== *)
theory Chain
  imports Neve_Prelude
begin

text \<open>
  Which chain an instance mirrors and what follows from that choice (\<open>chain.rs\<close>): the network
  and chain enumerations with their spellings, the on-disk location, the normalisation of a
  \<open>--chains\<close> selection, and the per-chain ingest configuration. The lemmas show that a
  selection is normalised to one canonical order and that two chains never share a store
  directory.
\<close>

section \<open>Networks and chains\<close>

datatype network = Mainnet | Testnet

fun network_as_str :: "network \<Rightarrow> string" where
  "network_as_str Mainnet = ''mainnet''"
| "network_as_str Testnet = ''testnet''"

fun network_host :: "network \<Rightarrow> string" where
  "network_host Mainnet = ''api.avax.network''"
| "network_host Testnet = ''api.avax-test.network''"

definition default_data_dir :: "network \<Rightarrow> string" where
  "default_data_dir n = ''./blockstore-data-'' @ network_as_str n"

definition default_base_url :: "network \<Rightarrow> string" where
  "default_base_url n = ''https://'' @ network_host n"

datatype chain = Chain_C | Chain_P

fun chain_rank :: "chain \<Rightarrow> nat" where
  "chain_rank Chain_C = 0"
| "chain_rank Chain_P = 1"

text \<open>The derived \<open>Ord\<close> of the enumeration: declaration order.\<close>

instantiation chain :: linorder
begin

definition less_eq_chain :: "chain \<Rightarrow> chain \<Rightarrow> bool" where
  "less_eq_chain a b \<longleftrightarrow> chain_rank a \<le> chain_rank b"

definition less_chain :: "chain \<Rightarrow> chain \<Rightarrow> bool" where
  "less_chain a b \<longleftrightarrow> chain_rank a < chain_rank b"

instance
proof
  fix x y z :: chain
  show "(x < y) = (x \<le> y \<and> \<not> y \<le> x)"
    by (auto simp: less_eq_chain_def less_chain_def)
  show "x \<le> x" by (simp add: less_eq_chain_def)
  show "x \<le> y \<Longrightarrow> y \<le> z \<Longrightarrow> x \<le> z" by (simp add: less_eq_chain_def)
  show "x \<le> y \<Longrightarrow> y \<le> x \<Longrightarrow> x = y" by (cases x; cases y) (auto simp: less_eq_chain_def)
  show "x \<le> y \<or> y \<le> x" by (auto simp: less_eq_chain_def)
qed

end

definition all_chains :: "chain list" where
  "all_chains = [Chain_C, Chain_P]"

fun chain_as_str :: "chain \<Rightarrow> string" where
  "chain_as_str Chain_C = ''c''"
| "chain_as_str Chain_P = ''p''"

fun rpc_path :: "chain \<Rightarrow> string" where
  "rpc_path Chain_C = ''/ext/bc/C/rpc''"
| "rpc_path Chain_P = ''/ext/bc/P''"

fun ws_path :: "chain \<Rightarrow> string option" where
  "ws_path Chain_C = Some ''/ext/bc/C/ws''"
| "ws_path Chain_P = None"

text \<open>\<open>Path::join\<close> of a relative component: one separator, unless the base ends in one.\<close>

definition path_join :: "string \<Rightarrow> string \<Rightarrow> string" where
  "path_join base c =
     (if base = [] \<or> last base = CHR ''/'' then base @ c else base @ CHR ''/'' # c)"

fun chain_data_dir :: "chain \<Rightarrow> string \<Rightarrow> string" where
  "chain_data_dir Chain_C base = base"
| "chain_data_dir Chain_P base = path_join base (chain_as_str Chain_P)"

fun publishes_live_records :: "chain \<Rightarrow> bool" where
  "publishes_live_records Chain_C = False"
| "publishes_live_records Chain_P = True"

fun format_version :: "chain \<Rightarrow> u32" where
  "format_version Chain_C = 1"
| "format_version Chain_P = 1"

section \<open>Normalising a selection\<close>

datatype chain_error = No_chains_selected

fun dedup_chains :: "chain list \<Rightarrow> chain list \<Rightarrow> chain list" where
  "dedup_chains out [] = out"
| "dedup_chains out (c # cs) =
     (if c \<in> set out then dedup_chains out cs else dedup_chains (out @ [c]) cs)"

definition normalize_chains :: "chain list \<Rightarrow> chain_error + chain list" where
  "normalize_chains cs =
     (let out = dedup_chains [] cs
      in if out = [] then Inl No_chains_selected else Inr (sort out))"

section \<open>Ingest configuration\<close>

text \<open>Durations are in nanoseconds.\<close>

type_synonym duration = nat

definition nanos_per_sec :: nat where
  "nanos_per_sec = 1000000000"

definition from_secs :: "nat \<Rightarrow> duration" where
  "from_secs s = s * nanos_per_sec"

definition from_millis :: "nat \<Rightarrow> duration" where
  "from_millis ms = ms * 1000000"

datatype logs_source = Receipts | GetLogs

text \<open>
  The knobs of \<open>IngestCfg\<close> that are values. Its shared handles (the two pacers, the live
  fan-out, the fatal and bootstrap notifications) are state, and are passed as such.
\<close>

record ingest_cfg =
  cfg_chain :: chain
  cfg_max_wait :: duration
  cfg_ws_idle_timeout :: duration
  cfg_ws_url :: string
  cfg_rpc_url :: string
  cfg_poll_interval :: duration
  cfg_subscribe_blocks :: bool
  cfg_backfill_inter_fetch :: duration
  cfg_fetch_concurrency :: nat
  cfg_backfill_floor :: "u64 option"
  cfg_prefetch_delay_cap :: duration
  cfg_progress_period :: duration
  cfg_ingest_logs :: bool
  cfg_logs_source :: logs_source

section \<open>Lemmas\<close>

lemma set_dedup_chains: "set (dedup_chains out cs) = set out \<union> set cs"
  by (induction out cs rule: dedup_chains.induct) auto

lemma distinct_dedup_chains: "distinct out \<Longrightarrow> distinct (dedup_chains out cs)"
  by (induction out cs rule: dedup_chains.induct) auto

lemma dedup_chains_empty: "dedup_chains [] cs = [] \<longleftrightarrow> cs = []"
proof -
  have "set (dedup_chains [] cs) = set cs" by (simp add: set_dedup_chains)
  then show ?thesis by (metis set_empty)
qed

lemma normalize_chains_Inr:
  "normalize_chains cs = Inr out \<longleftrightarrow> cs \<noteq> [] \<and> out = sorted_list_of_set (set cs)"
proof -
  have "sort (dedup_chains [] cs) = sorted_list_of_set (set cs)"
    using distinct_dedup_chains [of "[]" cs] set_dedup_chains [of "[]" cs]
    by (metis distinct.simps(1) distinct_sort set_empty sorted_list_of_set.idem_if_sorted_distinct
        sorted_sort set_sort sup_bot_left)
  then show ?thesis by (auto simp: normalize_chains_def Let_def dedup_chains_empty)
qed

text \<open>
  A \<open>--chains\<close> selection is normalised to one canonical list: it is refused exactly when it
  is empty; otherwise the result is sorted, holds each selected chain once, and depends only
  on which chains were named, not on their order or repetition.
\<close>

lemma normalize_chains_canonical:
  "(\<exists>e. normalize_chains cs = Inl e) = (cs = []) \<and>
   (\<forall>out. normalize_chains cs = Inr out \<longrightarrow> sorted out \<and> distinct out \<and> set out = set cs) \<and>
   (\<forall>ds. set ds = set cs \<longrightarrow> normalize_chains ds = normalize_chains cs)"
proof (intro conjI allI impI)
  show "(\<exists>e. normalize_chains cs = Inl e) = (cs = [])"
    by (auto simp: normalize_chains_def Let_def dedup_chains_empty)
next
  fix ds :: "chain list"
  assume s: "set ds = set cs"
  show "normalize_chains ds = normalize_chains cs"
  proof (cases "cs = []")
    case True
    with s show ?thesis by simp
  next
    case False
    with s have "ds \<noteq> []" by auto
    with False s show ?thesis
      using normalize_chains_Inr [of ds] normalize_chains_Inr [of cs] by metis
  qed
qed (auto simp: normalize_chains_Inr)

lemma chain_as_str_inj: "chain_as_str a = chain_as_str b \<longleftrightarrow> a = b"
  by (cases a; cases b) auto

lemma chain_as_str_ascii: "is_ascii (chain_as_str c)"
  by (cases c) (auto simp: is_ascii_def byte_in_def)

lemma chain_data_dir_inj: "chain_data_dir a base = chain_data_dir b base \<Longrightarrow> a = b"
  by (cases a; cases b) (auto simp: path_join_def split: if_splits)

end
