(* ===== verification/Record_Codec.thy ===== *)
theory Record_Codec
  imports Json_Reference Chain
begin

text \<open>
  The on-disk record codec (\<open>record.rs\<close>): how a block and its derived elements are
  concatenated into one JSON array, how one element is located again without re-serialising,
  and how values written before the combined record (a bare block object) are told apart.

  A slice borrowed from a record is the range it occupies in it; \<open>element\<close> is the content of
  that range. The lemmas, stated over any serialiser with the laws of \<open>serde_laws\<close>, show that
  every element comes back byte for byte, that the encoding loses nothing, and that a bare
  block answers as element 0 and reports every derived element as absent.
\<close>

section \<open>Layout\<close>

definition BLOCK :: usize where
  "BLOCK = 0"

definition C_LOGS :: usize where
  "C_LOGS = 1"

definition P_BYTES :: usize where
  "P_BYTES = 1"

definition EMPTY_ARRAY :: bytes where
  "EMPTY_ARRAY = ''[]''"

fun arity :: "chain \<Rightarrow> usize" where
  "arity Chain_C = 2"
| "arity Chain_P = 3"

datatype record_error =
    Not_an_array
  | Too_few_elements nat
  | Not_a_value

section \<open>Building and splitting\<close>

text \<open>The loop of \<open>encode\<close> over the enumerated elements.\<close>

fun encode_elements :: "nat \<Rightarrow> bytes list \<Rightarrow> bytes" where
  "encode_elements i [] = []"
| "encode_elements i (e # es) = (if i > 0 then '','' else []) @ e @ encode_elements (Suc i) es"

definition encode :: "bytes list \<Rightarrow> bytes" where
  "encode elements = ''['' @ encode_elements 0 elements @ '']''"

definition split_record :: "serde \<Rightarrow> bytes \<Rightarrow> record_error + span list" where
  "split_record S rc =
     (case raw_array S rc of
        None \<Rightarrow> Inl Not_an_array
      | Some parts \<Rightarrow>
          if length parts < 2 then Inl (Too_few_elements (length parts)) else Inr parts)"

definition is_bare_block :: "bytes \<Rightarrow> bool" where
  "is_bare_block rc =
     (case find (\<lambda>b. \<not> is_ascii_whitespace b) rc of
        None \<Rightarrow> False
      | Some b \<Rightarrow> b = CHR ''{'')"

definition is_combined_record :: "bytes \<Rightarrow> bool" where
  "is_combined_record v \<longleftrightarrow> \<not> is_bare_block v"

definition element_span :: "serde \<Rightarrow> bytes \<Rightarrow> usize \<Rightarrow> record_error + span option" where
  "element_span S rc idx =
     (if is_bare_block rc then
        if idx \<noteq> BLOCK then Inr None
        else (case raw_value S rc of None \<Rightarrow> Inl Not_a_value | Some r \<Rightarrow> Inr (Some r))
      else and_then (split_record S rc) (\<lambda>parts. Inr (get_nth parts idx)))"

definition element :: "serde \<Rightarrow> bytes \<Rightarrow> usize \<Rightarrow> record_error + bytes option" where
  "element S rc idx =
     and_then (element_span S rc idx) (\<lambda>part. Inr (map_option (slice_of rc) part))"

section \<open>A view of one element\<close>

record element_view =
  el_record :: bytes
  el_span :: span

definition element_at :: "serde \<Rightarrow> bytes \<Rightarrow> usize \<Rightarrow> record_error + element_view option" where
  "element_at S rc idx =
     and_then (element_span S rc idx)
       (\<lambda>sp. Inr (map_option (\<lambda>r. \<lparr>el_record = rc, el_span = r\<rparr>) sp))"

text \<open>\<open>record.get(range).unwrap_or_default()\<close>.\<close>

definition element_deref :: "element_view \<Rightarrow> bytes" where
  "element_deref v =
     (if span_in (el_record v) (el_span v) then slice_of (el_record v) (el_span v) else [])"

section \<open>Lemmas\<close>

lemma encode_elements_Suc: "encode_elements (Suc i) es = concat (map (\<lambda>e. CHR '','' # e) es)"
  by (induction es arbitrary: i) auto

lemma encode_eq_array_text: "encode es = array_text es"
proof -
  have "encode_elements 0 es = join_comma es"
  proof (cases es)
    case (Cons e es')
    have "concat (map (\<lambda>e. CHR '','' # e) xs) = (if xs = [] then [] else CHR '','' # join_comma xs)"
      for xs by (induction xs) (auto simp: join_comma_Cons)
    with Cons show ?thesis by (simp add: encode_elements_Suc join_comma_Cons)
  qed simp
  then show ?thesis by (simp add: encode_def array_text_def)
qed

lemma not_bare_encode [simp]: "\<not> is_bare_block (encode es)"
  by (simp add: encode_def is_bare_block_def is_ascii_whitespace_def)

lemma is_combined_encode [simp]: "is_combined_record (encode es)"
  by (simp add: is_combined_record_def)

lemma bare_block_brace [simp]: "is_bare_block (CHR ''{'' # r)"
  by (simp add: is_bare_block_def is_ascii_whitespace_def)

context serde_laws
begin

lemma element_span_in:
  assumes "element_span S rc i = Inr (Some r)"
  shows "span_in rc r"
  using assms raw_value_span raw_array_span [OF _ nth_mem]
  by (auto simp: element_span_def split_record_def and_then_Inr_iff get_nth_Some_iff
      split: if_splits option.splits)

lemma element_at_deref:
  "and_then (element_at S rc i) (\<lambda>v. Inr (map_option element_deref v)) = element S rc i"
proof (cases "element_span S rc i")
  case (Inr sp)
  then show ?thesis
    using element_span_in [of rc i]
    by (cases sp) (auto simp: element_at_def element_def element_deref_def)
qed (simp add: element_at_def element_def)

lemma element_encode:
  assumes "list_all (tight S) es" "2 \<le> length es"
  shows "element S (encode es) i = Inr (get_nth es i)"
proof -
  from raw_array_texts [OF assms(1)] obtain rs
    where rs: "raw_array S (encode es) = Some rs" "map (slice_of (encode es)) rs = es"
    by (auto simp: encode_eq_array_text)
  from rs(2) have len: "length rs = length es" by (metis length_map)
  show ?thesis
    using rs len assms(2) get_nth_map [of "slice_of (encode es)" rs i]
    by (simp add: element_def element_span_def split_record_def)
qed

lemma encode_inj:
  assumes "list_all (tight S) es" "list_all (tight S) fs" "encode es = encode fs"
  shows "es = fs"
  using raw_array_texts [OF assms(1)] raw_array_texts [OF assms(2)] assms(3)
  by (auto simp: encode_eq_array_text)

lemma element_bare:
  assumes "tight S b" "is_bare_block b"
  shows "element S b i = Inr (if i = BLOCK then Some b else None)"
  using assms by (simp add: element_def element_span_def tight_def slice_of_def)

lemma printed_object_bare:
  assumes "plain (JObj kvs)" "to_vec S (JObj kvs) = Some b"
  shows "tight S b" "is_bare_block b"
proof -
  show "tight S b" by (rule print_tight [OF assms])
  show "is_bare_block b" using print_object [OF assms] by auto
qed

end

text \<open>
  C8. Record round trip: for elements that are each one serialised JSON value, every element
  of the encoded record is read back byte for byte, an index past the end is absent, the
  copy-free view agrees with the read, the record is recognised as combined, and two element
  lists with the same encoding are equal.
\<close>

theorem record_round_trip:
  assumes "serde_laws S" "list_all (tight S) es" "2 \<le> length es"
  shows "element S (encode es) i = Inr (get_nth es i) \<and>
     and_then (element_at S (encode es) i) (\<lambda>v. Inr (map_option element_deref v)) = Inr (get_nth es i) \<and>
     is_combined_record (encode es) \<and>
     (\<forall>fs. list_all (tight S) fs \<and> encode fs = encode es \<longrightarrow> fs = es)"
  using assms serde_laws.element_encode [OF assms] serde_laws.element_at_deref [OF assms(1)]
    serde_laws.encode_inj [OF assms(1)] by auto

theorem record_round_trip_witness:
  "tight ref_serde ''{}'' \<and> tight ref_serde ''[]'' \<and>
   element ref_serde (encode [''{}'', ''[]'']) 1 = Inr (Some ''[]'') \<and>
   element ref_serde (encode [''{}'', ''[]'']) 2 = Inr None"
proof -
  have t: "tight ref_serde ''{}''" "tight ref_serde ''[]''" by code_simp+
  then show ?thesis
    using record_round_trip [OF ref.serde_laws_axioms, of "[''{}'', ''[]'']" 1]
      record_round_trip [OF ref.serde_laws_axioms, of "[''{}'', ''[]'']" 2]
    by (simp add: get_nth_def)
qed

text \<open>
  A value written before the combined record (a bare block object) is served as element 0
  unchanged, has no derived element (absent, not empty), and is never taken for a record.
\<close>

lemma bare_block_elements:
  assumes "serde_laws S" "plain (JObj kvs)" "to_vec S (JObj kvs) = Some b"
  shows "element S b BLOCK = Inr (Some b) \<and> (i \<noteq> BLOCK \<longrightarrow> element S b i = Inr None) \<and>
     \<not> is_combined_record b"
  using serde_laws.printed_object_bare [OF assms] serde_laws.element_bare [OF assms(1)]
  by (simp add: is_combined_record_def)

end
