(* ===== verification/Stores.thy ===== *)
theory Stores
  imports Neve_Prelude
begin

text \<open>
  The two storage engines the program is built on, neither of which is part of the
  repository: the \<open>blockstore\<close> crate (records by height) and the \<open>fjall\<close> key-value store
  (the three index keyspaces). Their operations are records of functions over an abstract
  state, passed to every definition that uses them.

  What they promise are the locales \<open>blockstore_laws\<close> and \<open>fjall_laws\<close>, stated through an
  abstract view of the state (a map from heights to records, a map from keys to values);
  an operation that reports an error promises only what the crate documents (a failed batch
  commit changes nothing). The locales with prefix \<open>healthy\<close> add that reads do not fail, for
  the results which say that an answer is given. Both families are interpreted on in-memory
  implementations, which the concrete evaluations use.
\<close>

type_synonym io_error = string

section \<open>The blockstore\<close>

record 's blockstore =
  bs_create :: "u64 \<Rightarrow> io_error + 's"
  bs_open :: "'s \<Rightarrow> io_error + 's"
  bs_write :: "u64 \<Rightarrow> bytes \<Rightarrow> 's \<Rightarrow> (io_error + unit) \<times> 's"
  bs_read :: "'s \<Rightarrow> u64 \<Rightarrow> io_error + bytes option"
  bs_min :: "'s \<Rightarrow> u64"
  bs_contig :: "'s \<Rightarrow> u64"
  bs_high :: "'s \<Rightarrow> u64"

text \<open>
  \<open>bs_create m\<close> is \<open>Store::open\<close> with \<open>truncate\<close> and \<open>minimum_height = m\<close>; \<open>bs_open\<close> opens what
  is on disk. \<open>bs_contig\<close> is the highest height up to which every block from the minimum on is
  present, so that it is below the minimum while the block there is still missing. A minimum of 0
  is the exception: no \<open>u64\<close> lies below it, and nothing is said of the block at 0 while it is missing.
\<close>

locale blockstore_laws =
  fixes B :: "'s blockstore"
    and content :: "'s \<Rightarrow> u64 \<rightharpoonup> bytes"
    and wf :: "'s \<Rightarrow> bool"
  assumes create_wf: "bs_create B m = Inr s \<Longrightarrow> wf s \<and> content s = Map.empty \<and> bs_min B s = m"
    and open_same: "wf s \<Longrightarrow> bs_open B s = Inr s' \<Longrightarrow> wf s' \<and> content s' = content s \<and> bs_min B s' = bs_min B s"
    and write_ok: "wf s \<Longrightarrow> bs_min B s \<le> h \<Longrightarrow> bs_write B h b s = (Inr (), s') \<Longrightarrow>
       wf s' \<and> content s' = (content s)(h \<mapsto> b) \<and> bs_min B s' = bs_min B s"
    and write_below: "wf s \<Longrightarrow> h < bs_min B s \<Longrightarrow> bs_write B h b s \<noteq> (Inr (), s')"
    and write_err: "wf s \<Longrightarrow> bs_write B h b s = (Inl e, s') \<Longrightarrow>
       wf s' \<and> content s' = content s \<and> bs_min B s' = bs_min B s"
    and read_ok: "wf s \<Longrightarrow> bs_read B s h = Inr r \<Longrightarrow> r = content s h"
    and content_range: "wf s \<Longrightarrow> content s h = Some b \<Longrightarrow> bs_min B s \<le> h \<and> h \<le> bs_high B s"
    and high_present: "wf s \<Longrightarrow> content s h = Some b \<Longrightarrow> content s (bs_high B s) \<noteq> None"
    and contig_present: "wf s \<Longrightarrow> 0 < h \<or> content s (bs_min B s) \<noteq> None \<Longrightarrow>
       bs_min B s \<le> h \<Longrightarrow> h \<le> bs_contig B s \<Longrightarrow> content s h \<noteq> None"
    and contig_next: "wf s \<Longrightarrow> content s (bs_min B s) \<noteq> None \<Longrightarrow>
       bs_min B s \<le> bs_contig B s \<and> content s (Suc (bs_contig B s)) = None"
begin

lemma contig_le_high:
  assumes "wf s" "content s (bs_min B s) \<noteq> None"
  shows "bs_contig B s \<le> bs_high B s"
proof -
  have "content s (bs_contig B s) \<noteq> None"
    using contig_present [OF assms(1), of "bs_contig B s"] contig_next [OF assms] assms(2) by auto
  then show ?thesis using content_range [OF assms(1)] by blast
qed

text \<open>After a write, the block is there and nothing else has changed.\<close>

lemma write_frame:
  assumes "wf s" "bs_write B h b s = (Inr (), s')"
  shows "content s' h = Some b" "k \<noteq> h \<Longrightarrow> content s' k = content s k" "wf s'"
    "bs_min B s' = bs_min B s"
proof -
  have "bs_min B s \<le> h" using write_below [OF assms(1)] assms(2) by (metis not_le)
  from write_ok [OF assms(1) this assms(2)]
  show "content s' h = Some b" "k \<noteq> h \<Longrightarrow> content s' k = content s k" "wf s'"
    "bs_min B s' = bs_min B s" by auto
qed

end

locale healthy_blockstore = blockstore_laws +
  assumes read_total: "wf s \<Longrightarrow> bs_read B s h = Inr (content s h)"

section \<open>The index database\<close>

datatype keyspace = Hash_to_height | Tx_to_block | Meta

record 'd fjall =
  fj_get :: "'d \<Rightarrow> keyspace \<Rightarrow> bytes \<Rightarrow> io_error + bytes option"
  fj_insert :: "keyspace \<Rightarrow> bytes \<Rightarrow> bytes \<Rightarrow> 'd \<Rightarrow> (io_error + unit) \<times> 'd"
  fj_commit :: "(keyspace \<times> bytes \<times> bytes) list \<Rightarrow> 'd \<Rightarrow> (io_error + unit) \<times> 'd"
  fj_persist :: "'d \<Rightarrow> (io_error + unit) \<times> 'd"

type_synonym kv_view = "keyspace \<Rightarrow> bytes \<rightharpoonup> bytes"

definition kv_put :: "keyspace \<times> bytes \<times> bytes \<Rightarrow> kv_view \<Rightarrow> kv_view" where
  "kv_put e v = v(fst e := (v (fst e))(fst (snd e) \<mapsto> snd (snd e)))"

locale fjall_laws =
  fixes F :: "'d fjall"
    and view :: "'d \<Rightarrow> kv_view"
  assumes get_ok: "fj_get F d k x = Inr r \<Longrightarrow> r = view d k x"
    and insert_ok: "fj_insert F k x v d = (Inr (), d') \<Longrightarrow> view d' = kv_put (k, x, v) (view d)"
    and insert_err: "fj_insert F k x v d = (Inl e, d') \<Longrightarrow> view d' = view d"
    and commit_ok: "fj_commit F es d = (Inr (), d') \<Longrightarrow> view d' = fold kv_put es (view d)"
    and commit_err: "fj_commit F es d = (Inl e, d') \<Longrightarrow> view d' = view d"
    and persist_same: "view (snd (fj_persist F d)) = view d"

locale healthy_fjall = fjall_laws +
  assumes get_total: "fj_get F d k x = Inr (view d k x)"

section \<open>In-memory implementations\<close>

record mem_store =
  ms_min :: u64
  ms_blocks :: "(u64 \<times> bytes) list"

fun mem_contig :: "nat \<Rightarrow> mem_store \<Rightarrow> u64 \<Rightarrow> u64" where
  "mem_contig 0 s h = h"
| "mem_contig (Suc n) s h =
     (if map_of (ms_blocks s) (Suc h) = None then h else mem_contig n s (Suc h))"

definition mem_high :: "mem_store \<Rightarrow> u64" where
  "mem_high s = fold max (map fst (ms_blocks s)) 0"

definition mem_blockstore :: "mem_store blockstore" where
  "mem_blockstore = \<lparr>
     bs_create = (\<lambda>m. Inr \<lparr>ms_min = m, ms_blocks = []\<rparr>),
     bs_open = Inr,
     bs_write = (\<lambda>h b s. if h < ms_min s then (Inl ''height below minimum'', s)
                          else (Inr (), s\<lparr>ms_blocks := (h, b) # ms_blocks s\<rparr>)),
     bs_read = (\<lambda>s h. Inr (map_of (ms_blocks s) h)),
     bs_min = ms_min,
     bs_contig = (\<lambda>s. if map_of (ms_blocks s) (ms_min s) = None then ms_min s - 1
                       else mem_contig (length (ms_blocks s)) s (ms_min s)),
     bs_high = mem_high\<rparr>"

definition mem_content :: "mem_store \<Rightarrow> u64 \<rightharpoonup> bytes" where
  "mem_content s = map_of (ms_blocks s)"

definition mem_wf :: "mem_store \<Rightarrow> bool" where
  "mem_wf s \<longleftrightarrow> list_all (\<lambda>kv. ms_min s \<le> fst kv) (ms_blocks s)"

type_synonym mem_db = "((keyspace \<times> bytes) \<times> bytes) list"

definition mem_insert :: "keyspace \<times> bytes \<times> bytes \<Rightarrow> mem_db \<Rightarrow> mem_db" where
  "mem_insert e d = ((fst e, fst (snd e)), snd (snd e)) # d"

definition mem_fjall :: "mem_db fjall" where
  "mem_fjall = \<lparr>
     fj_get = (\<lambda>d k x. Inr (map_of d (k, x))),
     fj_insert = (\<lambda>k x v d. (Inr (), mem_insert (k, x, v) d)),
     fj_commit = (\<lambda>es d. (Inr (), fold mem_insert es d)),
     fj_persist = (\<lambda>d. (Inr (), d))\<rparr>"

definition mem_view :: "mem_db \<Rightarrow> kv_view" where
  "mem_view d k x = map_of d (k, x)"

section \<open>They satisfy the laws\<close>

lemma mem_high_ge: "h \<in> set hs \<Longrightarrow> h \<le> fold max hs (a :: nat)"
  by (metis List.finite_set Max.set_eq_fold Max_ge list.set_intros(2))

lemma mem_high_mem: "hs \<noteq> [] \<Longrightarrow> fold max hs (0 :: nat) \<in> set hs"
proof -
  assume ne: "hs \<noteq> []"
  have "fold max hs 0 = Max (set (0 # hs))" by (simp only: Max.set_eq_fold)
  also have "\<dots> = Max (set hs)" using ne by simp
  finally show ?thesis using ne Max_in [of "set hs"] by simp
qed

lemma mem_contig_props:
  assumes "map_of (ms_blocks s) h \<noteq> None"
  shows "h \<le> mem_contig n s h \<and> (\<forall>k. h \<le> k \<and> k \<le> mem_contig n s h \<longrightarrow> map_of (ms_blocks s) k \<noteq> None)"
  using assms
proof (induction n s h rule: mem_contig.induct)
  case (2 n s h)
  show ?case
  proof (cases "map_of (ms_blocks s) (Suc h) = None")
    case False
    with 2 have IH: "Suc h \<le> mem_contig n s (Suc h)"
      "\<forall>k. Suc h \<le> k \<and> k \<le> mem_contig n s (Suc h) \<longrightarrow> map_of (ms_blocks s) k \<noteq> None" by auto
    have "map_of (ms_blocks s) k \<noteq> None" if "h \<le> k" "k \<le> mem_contig n s (Suc h)" for k
      using that IH(2) 2(2) by (cases "k = h") auto
    with IH(1) False show ?thesis by auto
  qed (use 2 in auto)
qed auto

lemma mem_contig_stops:
  "map_of (ms_blocks s) (Suc (mem_contig n s h)) = None \<or> mem_contig n s h = h + n"
  by (induction n s h rule: mem_contig.induct) auto

lemma mem_contig_next:
  assumes "map_of (ms_blocks s) h \<noteq> None"
  shows "map_of (ms_blocks s) (Suc (mem_contig (length (ms_blocks s)) s h)) = None"
proof (rule ccontr)
  let ?n = "length (ms_blocks s)"
  assume neg: "\<not> ?thesis"
  then have eq: "mem_contig ?n s h = h + ?n" using mem_contig_stops [of s ?n h] by auto
  have "{h..Suc (h + ?n)} \<subseteq> fst ` set (ms_blocks s)"
  proof
    fix k assume "k \<in> {h..Suc (h + ?n)}"
    then have "map_of (ms_blocks s) k \<noteq> None"
      using mem_contig_props [OF assms, of ?n] neg eq by (cases "k = Suc (h + ?n)") auto
    then show "k \<in> fst ` set (ms_blocks s)" by (simp add: map_of_eq_None_iff)
  qed
  then have "card {h..Suc (h + ?n)} \<le> card (fst ` set (ms_blocks s))" by (rule card_mono [rotated]) simp
  also have "\<dots> \<le> ?n" using card_image_le [of "set (ms_blocks s)" fst] card_length [of "ms_blocks s"] by simp
  finally show False by simp
qed

interpretation mem_bs: healthy_blockstore mem_blockstore mem_content mem_wf
proof (unfold_locales, goal_cases)
  case (1 m s)
  then show ?case by (auto simp: mem_blockstore_def mem_wf_def mem_content_def)
next
  case (2 s s')
  then show ?case by (auto simp: mem_blockstore_def)
next
  case (3 s h b s')
  then show ?case by (auto simp: mem_blockstore_def mem_wf_def mem_content_def split: if_splits)
next
  case (4 s h b s')
  then show ?case by (auto simp: mem_blockstore_def)
next
  case (5 s h b e s')
  then show ?case by (auto simp: mem_blockstore_def mem_wf_def split: if_splits)
next
  case (6 s h r)
  then show ?case by (auto simp: mem_blockstore_def mem_content_def)
next
  case (7 s h b)
  then have "h \<in> set (map fst (ms_blocks s))" by (force simp: mem_content_def dest: map_of_SomeD)
  with 7 mem_high_ge [OF this] show ?case
    by (auto simp: mem_wf_def mem_blockstore_def mem_high_def list_all_iff)
next
  case (8 s h b)
  then have "map fst (ms_blocks s) \<noteq> []" by (auto simp: mem_content_def)
  from mem_high_mem [OF this] show ?case
    by (simp add: mem_content_def mem_blockstore_def mem_high_def map_of_eq_None_iff)
next
  case (9 s h)
  then show ?case
    using mem_contig_props [of s "ms_min s" "length (ms_blocks s)"]
    by (auto simp: mem_content_def mem_blockstore_def split: if_splits)
next
  case (10 s)
  then show ?case
    using mem_contig_props [of s "ms_min s" "length (ms_blocks s)"] mem_contig_next [of s "ms_min s"]
    by (auto simp: mem_content_def mem_blockstore_def)
next
  case (11 s h)
  then show ?case by (simp add: mem_blockstore_def mem_content_def)
qed

lemma mem_view_insert: "mem_view (mem_insert e d) = kv_put e (mem_view d)"
  by (auto simp: mem_view_def mem_insert_def kv_put_def fun_eq_iff)

lemma mem_view_fold: "mem_view (fold mem_insert es d) = fold kv_put es (mem_view d)"
  by (induction es arbitrary: d) (auto simp: mem_view_insert)

interpretation mem_fj: healthy_fjall mem_fjall mem_view
  by unfold_locales
    (auto simp: mem_fjall_def mem_view_insert mem_view_fold, auto simp: mem_view_def)

end
