(* ===== verification/Storage.thy ===== *)
theory Storage
  imports Record_Codec Stores
begin

text \<open>
  The storage layer (\<open>storage.rs\<close>): opening a data directory with the verification and
  stamping of its \<open>meta\<close> keyspace, the readers, and \<open>put\<close>, which writes the record and then
  the index batch.

  \<open>storage\<close> is the handle (\<open>Storage\<close> with its \<open>Inner\<close>): the chain, the lazily opened
  blockstore, the database and the anchor floor. The engines are the arguments of type
  \<open>('s, 'd) engines\<close>. Blocking tasks are plain calls (the store lock makes each one atomic);
  \<open>put\<close> is two such atomic stages, and the step relation \<open>storage_step\<close> interleaves the
  stages of concurrent writers, with failures of either stage.
\<close>

section \<open>State and errors\<close>

record ('s, 'd) engines =
  en_bs :: "'s blockstore"
  en_fj :: "'d fjall"
  en_ser :: serde

record ('s, 'd) storage =
  st_chain :: chain
  st_store :: "'s option"
  st_db :: 'd
  st_anchor_floor :: "u64 option"

datatype storage_error =
    Blockstore_error io_error
  | Index_error io_error
  | Meta_not_utf8 string
  | Wrong_chain string chain
  | Pre_multi_chain_data chain
  | Wrong_network string string
  | Bad_format_version string
  | Wrong_format_version u32 u32
  | No_network_stamp
  | Wrong_element_count nat nat
  | Undecodable_record u64 record_error
  | Bad_height_entry
  | Bad_tx_entry

section \<open>The stamps of the meta keyspace\<close>

definition FORMAT_VERSION_KEY :: string where
  "FORMAT_VERSION_KEY = ''format_version''"

definition IDENTITY_KEY :: string where
  "IDENTITY_KEY = ''chain_id''"

definition CHAIN_KEY :: string where
  "CHAIN_KEY = ''chain''"

definition parse_u32 :: "string \<Rightarrow> u32 option" where
  "parse_u32 s =
     (case parse_u64 s of None \<Rightarrow> None | Some n \<Rightarrow> if n < 4294967296 then Some n else None)"

definition check_chain_stamp :: "bytes option \<Rightarrow> bool \<Rightarrow> chain \<Rightarrow> storage_error + unit" where
  "check_chain_stamp stored_chain populated c =
     (case stored_chain of
        Some stored \<Rightarrow>
          if \<not> utf8_valid stored then Inl (Meta_not_utf8 CHAIN_KEY)
          else if stored \<noteq> chain_as_str c then Inl (Wrong_chain stored c)
          else Inr ()
      | None \<Rightarrow> if populated \<and> c \<noteq> Chain_C then Inl (Pre_multi_chain_data c) else Inr ())"

definition check_identity_stamp :: "bytes option \<Rightarrow> string \<Rightarrow> storage_error + unit" where
  "check_identity_stamp stored_identity identity =
     (case stored_identity of
        Some stored \<Rightarrow>
          if \<not> utf8_valid stored then Inl (Meta_not_utf8 IDENTITY_KEY)
          else if stored \<noteq> identity then Inl (Wrong_network stored identity)
          else Inr ()
      | None \<Rightarrow> Inr ())"

definition check_format_stamp ::
  "bytes option \<Rightarrow> bytes option \<Rightarrow> bool \<Rightarrow> chain \<Rightarrow> storage_error + unit" where
  "check_format_stamp stored_fmt stored_identity has_block_data c =
     (case stored_fmt of
        Some stored \<Rightarrow>
          if \<not> utf8_valid stored then Inl (Meta_not_utf8 FORMAT_VERSION_KEY)
          else (case parse_u32 stored of
              None \<Rightarrow> Inl (Bad_format_version stored)
            | Some v \<Rightarrow>
                if v \<noteq> format_version c then Inl (Wrong_format_version v (format_version c))
                else Inr ())
      | None \<Rightarrow>
          if stored_identity \<noteq> None then Inr ()
          else if has_block_data then Inl No_network_stamp
          else Inr ())"

text \<open>Database calls in the \<open>?\<close> style: an error ends the function with the state reached.\<close>

definition db_get :: "'d fjall \<Rightarrow> keyspace \<Rightarrow> bytes \<Rightarrow> 'd \<Rightarrow> storage_error + bytes option" where
  "db_get F k x d = map_err Index_error (fj_get F d k x)"

definition insert_if :: "'d fjall \<Rightarrow> bool \<Rightarrow> bytes \<Rightarrow> bytes \<Rightarrow> 'd \<Rightarrow> (storage_error + unit) \<times> 'd" where
  "insert_if F missing x v d =
     (if missing then (case fj_insert F Meta x v d of (r, d') \<Rightarrow> (map_err Index_error r, d'))
      else (Inr (), d))"

definition and_step ::
  "('e + unit) \<times> 'd \<Rightarrow> ('d \<Rightarrow> ('e + unit) \<times> 'd) \<Rightarrow> ('e + unit) \<times> 'd" where
  "and_step m f = (case m of (Inl e, d) \<Rightarrow> (Inl e, d) | (Inr u, d) \<Rightarrow> f d)"

definition persist_if :: "'d fjall \<Rightarrow> bool \<Rightarrow> 'd \<Rightarrow> (storage_error + unit) \<times> 'd" where
  "persist_if F missing d =
     (if missing then (case fj_persist F d of (r, d') \<Rightarrow> (map_err Index_error r, d'))
      else (Inr (), d))"

definition read_stamps ::
  "'d fjall \<Rightarrow> 'd \<Rightarrow> storage_error + (bytes option \<times> bytes option \<times> bytes option)" where
  "read_stamps F d =
     and_then (db_get F Meta IDENTITY_KEY d) (\<lambda>stored_identity.
     and_then (db_get F Meta FORMAT_VERSION_KEY d) (\<lambda>stored_fmt.
     and_then (db_get F Meta CHAIN_KEY d) (\<lambda>stored_chain.
     Inr (stored_identity, stored_fmt, stored_chain))))"

definition check_stamps ::
  "chain \<Rightarrow> string \<Rightarrow> bool \<Rightarrow> bytes option \<Rightarrow> bytes option \<Rightarrow> bytes option \<Rightarrow> storage_error + unit" where
  "check_stamps c identity has_block_data stored_identity stored_fmt stored_chain =
     (let populated = has_block_data \<or> stored_identity \<noteq> None \<or> stored_fmt \<noteq> None in
      and_then (check_chain_stamp stored_chain populated c) (\<lambda>_.
      and_then (check_identity_stamp stored_identity identity) (\<lambda>_.
      check_format_stamp stored_fmt stored_identity has_block_data c)))"

definition write_stamps ::
  "'d fjall \<Rightarrow> chain \<Rightarrow> string \<Rightarrow> bool \<Rightarrow> bool \<Rightarrow> bool \<Rightarrow> 'd \<Rightarrow> (storage_error + unit) \<times> 'd" where
  "write_stamps F c identity no_chain no_identity no_fmt d =
     and_step (insert_if F no_chain CHAIN_KEY (chain_as_str c) d)
       (\<lambda>d. and_step (insert_if F no_identity IDENTITY_KEY identity d)
       (\<lambda>d. and_step (insert_if F no_fmt FORMAT_VERSION_KEY (to_dec (format_version c)) d)
       (\<lambda>d. persist_if F (no_chain \<or> no_identity \<or> no_fmt) d)))"

definition verify_and_stamp_meta ::
  "'d fjall \<Rightarrow> chain \<Rightarrow> string \<Rightarrow> bool \<Rightarrow> 'd \<Rightarrow> (storage_error + unit) \<times> 'd" where
  "verify_and_stamp_meta F c identity has_block_data d =
     (case read_stamps F d of
        Inl e \<Rightarrow> (Inl e, d)
      | Inr (stored_identity, stored_fmt, stored_chain) \<Rightarrow>
          (case check_stamps c identity has_block_data stored_identity stored_fmt stored_chain of
             Inl e \<Rightarrow> (Inl e, d)
           | Inr _ \<Rightarrow>
               write_stamps F c identity (stored_chain = None) (stored_identity = None)
                 (stored_fmt = None) d))"

section \<open>Opening\<close>

text \<open>
  What a data directory holds: the database, and the blockstore when \<open>blocks/blockdb.idx\<close>
  exists.
\<close>

definition storage_open ::
  "('s, 'd) engines \<Rightarrow> 's option \<Rightarrow> 'd \<Rightarrow> chain \<Rightarrow> string \<Rightarrow> u64 option \<Rightarrow>
     (storage_error + ('s, 'd) storage) \<times> 'd" where
  "storage_open E disk d c identity anchor_floor =
     (case verify_and_stamp_meta (en_fj E) c identity (disk \<noteq> None) d of
        (Inl e, d') \<Rightarrow> (Inl e, d')
      | (Inr _, d') \<Rightarrow>
          (case disk of
             None \<Rightarrow> (Inr \<lparr>st_chain = c, st_store = None, st_db = d', st_anchor_floor = anchor_floor\<rparr>, d')
           | Some s \<Rightarrow>
               (case bs_open (en_bs E) s of
                  Inl e \<Rightarrow> (Inl (Blockstore_error e), d')
                | Inr s' \<Rightarrow>
                    (Inr \<lparr>st_chain = c, st_store = Some s', st_db = d',
                           st_anchor_floor = anchor_floor\<rparr>, d'))))"

section \<open>Readers\<close>

definition high_water :: "('s, 'd) engines \<Rightarrow> ('s, 'd) storage \<Rightarrow> u64" where
  "high_water E st = (case st_store st of None \<Rightarrow> 0 | Some s \<Rightarrow> bs_high (en_bs E) s)"

definition is_empty :: "('s, 'd) storage \<Rightarrow> bool" where
  "is_empty st \<longleftrightarrow> st_store st = None"

definition min_height :: "('s, 'd) engines \<Rightarrow> ('s, 'd) storage \<Rightarrow> u64" where
  "min_height E st = (case st_store st of None \<Rightarrow> 0 | Some s \<Rightarrow> bs_min (en_bs E) s)"

definition max_contiguous_height :: "('s, 'd) engines \<Rightarrow> ('s, 'd) storage \<Rightarrow> u64" where
  "max_contiguous_height E st =
     (case st_store st of None \<Rightarrow> 0 | Some s \<Rightarrow> bs_contig (en_bs E) s)"

definition get_element ::
  "('s, 'd) engines \<Rightarrow> ('s, 'd) storage \<Rightarrow> u64 \<Rightarrow> usize \<Rightarrow> storage_error + element_view option" where
  "get_element E st height idx =
     (case st_store st of
        None \<Rightarrow> Inr None
      | Some s \<Rightarrow>
          if height < bs_min (en_bs E) s \<or> height > bs_high (en_bs E) s then Inr None
          else and_then (map_err Blockstore_error (bs_read (en_bs E) s height)) (\<lambda>r.
            case r of
              None \<Rightarrow> Inr None
            | Some arc \<Rightarrow> map_err (Undecodable_record height) (element_at (en_ser E) arc idx)))"

definition get_by_height ::
  "('s, 'd) engines \<Rightarrow> ('s, 'd) storage \<Rightarrow> u64 \<Rightarrow> storage_error + element_view option" where
  "get_by_height E st height = get_element E st height BLOCK"

definition height_of_hash ::
  "('s, 'd) engines \<Rightarrow> ('s, 'd) storage \<Rightarrow> hash32 \<Rightarrow> storage_error + u64 option" where
  "height_of_hash E st hash =
     and_then (db_get (en_fj E) Hash_to_height hash (st_db st)) (\<lambda>r.
       case r of
         None \<Rightarrow> Inr None
       | Some slice \<Rightarrow>
           if length slice = 8 then Inr (Some (from_le_bytes slice)) else Inl Bad_height_entry)"

definition get_by_hash ::
  "('s, 'd) engines \<Rightarrow> ('s, 'd) storage \<Rightarrow> hash32 \<Rightarrow> storage_error + element_view option" where
  "get_by_hash E st hash =
     and_then (height_of_hash E st hash) (\<lambda>r.
       case r of Some height \<Rightarrow> get_by_height E st height | None \<Rightarrow> Inr None)"

definition get_record ::
  "('s, 'd) engines \<Rightarrow> ('s, 'd) storage \<Rightarrow> u64 \<Rightarrow> storage_error + bytes option" where
  "get_record E st height =
     (case st_store st of
        None \<Rightarrow> Inr None
      | Some s \<Rightarrow>
          if height < bs_min (en_bs E) s \<or> height > bs_high (en_bs E) s then Inr None
          else and_then (map_err Blockstore_error (bs_read (en_bs E) s height)) (\<lambda>r.
            case r of
              None \<Rightarrow> Inr None
            | Some arc \<Rightarrow> if \<not> is_combined_record arc then Inr None else Inr (Some arc)))"

fun read_elements ::
  "('s, 'd) engines \<Rightarrow> 's \<Rightarrow> usize \<Rightarrow> u64 list \<Rightarrow> bytes list \<Rightarrow> storage_error + bytes list option" where
  "read_elements E s idx [] out = Inr (Some out)"
| "read_elements E s idx (h # hs) out =
     (case bs_read (en_bs E) s h of
        Inl e \<Rightarrow> Inl (Blockstore_error e)
      | Inr None \<Rightarrow> Inr None
      | Inr (Some arc) \<Rightarrow>
          (case element (en_ser E) arc idx of
             Inl e \<Rightarrow> Inl (Undecodable_record h e)
           | Inr None \<Rightarrow> Inr None
           | Inr (Some part) \<Rightarrow> read_elements E s idx hs (out @ [part])))"

definition read_element_range ::
  "('s, 'd) engines \<Rightarrow> ('s, 'd) storage \<Rightarrow> u64 \<Rightarrow> u64 \<Rightarrow> usize \<Rightarrow> storage_error + bytes list option" where
  "read_element_range E st a b idx =
     (case st_store st of
        None \<Rightarrow> Inr None
      | Some s \<Rightarrow> read_elements E s idx (heights a b) [])"

definition get_tx_location ::
  "('s, 'd) engines \<Rightarrow> ('s, 'd) storage \<Rightarrow> hash32 \<Rightarrow> storage_error + (u64 \<times> u32) option" where
  "get_tx_location E st tx_hash =
     and_then (db_get (en_fj E) Tx_to_block tx_hash (st_db st)) (\<lambda>r.
       case r of
         None \<Rightarrow> Inr None
       | Some slice \<Rightarrow>
           if length slice = 12
           then Inr (Some (from_le_bytes (slice_of slice (0, 8)), from_le_bytes (slice_of slice (8, 12))))
           else Inl Bad_tx_entry)"

section \<open>Writing\<close>

text \<open>Stage 1 of \<open>put\<close>: open the store lazily at its floor and write the record.\<close>

definition put_floor :: "u64 option \<Rightarrow> u64 \<Rightarrow> u64" where
  "put_floor anchor_floor height =
     (case anchor_floor of None \<Rightarrow> height | Some f \<Rightarrow> if f \<le> height then f else height)"

definition put_record ::
  "('s, 'd) engines \<Rightarrow> u64 \<Rightarrow> bytes \<Rightarrow> ('s, 'd) storage \<Rightarrow> (storage_error + unit) \<times> ('s, 'd) storage" where
  "put_record E height combined st =
     (case (case st_store st of
              Some s \<Rightarrow> Inr s
            | None \<Rightarrow> bs_create (en_bs E) (put_floor (st_anchor_floor st) height)) of
        Inl e \<Rightarrow> (Inl (Blockstore_error e), st)
      | Inr s \<Rightarrow>
          (case bs_write (en_bs E) height combined s of
             (r, s') \<Rightarrow> (map_err Blockstore_error r, st\<lparr>st_store := Some s'\<rparr>)))"

text \<open>Stage 2: one atomic batch for both indexes.\<close>

definition tx_entry :: "u64 \<Rightarrow> nat \<Rightarrow> bytes" where
  "tx_entry height idx = to_le_bytes 8 height @ to_le_bytes 4 (as_u32 idx)"

definition index_batch :: "u64 \<Rightarrow> hash32 \<Rightarrow> hash32 list \<Rightarrow> (keyspace \<times> bytes \<times> bytes) list" where
  "index_batch height hash tx_hashes =
     (Hash_to_height, hash, to_le_bytes 8 height) #
     map (\<lambda>(idx, tx_hash). (Tx_to_block, tx_hash, tx_entry height idx)) (enumerate 0 tx_hashes)"

definition put_index ::
  "('s, 'd) engines \<Rightarrow> u64 \<Rightarrow> hash32 \<Rightarrow> hash32 list \<Rightarrow> ('s, 'd) storage \<Rightarrow>
     (storage_error + unit) \<times> ('s, 'd) storage" where
  "put_index E height hash tx_hashes st =
     (case fj_commit (en_fj E) (index_batch height hash tx_hashes) (st_db st) of
        (r, d') \<Rightarrow> (map_err Index_error r, st\<lparr>st_db := d'\<rparr>))"

definition put ::
  "('s, 'd) engines \<Rightarrow> u64 \<Rightarrow> hash32 \<Rightarrow> hash32 list \<Rightarrow> bytes list \<Rightarrow> ('s, 'd) storage \<Rightarrow>
     (storage_error + unit) \<times> ('s, 'd) storage" where
  "put E height hash tx_hashes elements st =
     (if length elements \<noteq> arity (st_chain st)
      then (Inl (Wrong_element_count (arity (st_chain st)) (length elements)), st)
      else and_step (put_record E height (encode elements) st) (put_index E height hash tx_hashes))"

definition persist ::
  "('s, 'd) engines \<Rightarrow> ('s, 'd) storage \<Rightarrow> (storage_error + unit) \<times> ('s, 'd) storage" where
  "persist E st =
     (case fj_persist (en_fj E) (st_db st) of (r, d') \<Rightarrow> (map_err Index_error r, st\<lparr>st_db := d'\<rparr>))"

section \<open>The abstract store\<close>

text \<open>
  The contract: a store is a map from heights to records and a view of the keyspaces. The
  functions below read it off a handle, given the views of the engines.
\<close>

definition stored :: "('s \<Rightarrow> u64 \<rightharpoonup> bytes) \<Rightarrow> ('s, 'd) storage \<Rightarrow> u64 \<rightharpoonup> bytes" where
  "stored content st = (case st_store st of None \<Rightarrow> Map.empty | Some s \<Rightarrow> content s)"

definition storage_wf :: "('s \<Rightarrow> bool) \<Rightarrow> ('s, 'd) storage \<Rightarrow> bool" where
  "storage_wf ok st = (case st_store st of None \<Rightarrow> True | Some s \<Rightarrow> ok s)"

definition spec_element :: "serde \<Rightarrow> (u64 \<rightharpoonup> bytes) \<Rightarrow> u64 \<Rightarrow> usize \<Rightarrow> record_error + bytes option" where
  "spec_element S m h i = (case m h of None \<Rightarrow> Inr None | Some b \<Rightarrow> element S b i)"

definition spec_record :: "(u64 \<rightharpoonup> bytes) \<Rightarrow> u64 \<rightharpoonup> bytes" where
  "spec_record m h =
     (case m h of None \<Rightarrow> None | Some b \<Rightarrow> if is_combined_record b then Some b else None)"

text \<open>The bytes a reader sees through an element view.\<close>

definition deref_view :: "'e + element_view option \<Rightarrow> 'e + bytes option" where
  "deref_view r = and_then r (\<lambda>v. Inr (map_option element_deref v))"

locale storage_engine =
  blockstore_laws "en_bs E" content wf + fjall_laws "en_fj E" view + serde_laws "en_ser E"
  for E :: "('s, 'd) engines" and content :: "'s \<Rightarrow> u64 \<rightharpoonup> bytes" and wf :: "'s \<Rightarrow> bool"
    and view :: "'d \<Rightarrow> kv_view"
begin

lemma put_record_ok:
  assumes "storage_wf wf st" "put_record E h b st = (Inr (), st')"
  shows "storage_wf wf st'" "stored content st' = (stored content st)(h \<mapsto> b)"
    "st_db st' = st_db st" "st_chain st' = st_chain st" "st_store st' \<noteq> None"
proof -
  obtain s where s: "(case st_store st of Some s \<Rightarrow> Inr s
      | None \<Rightarrow> bs_create (en_bs E) (put_floor (st_anchor_floor st) h)) = Inr s"
    using assms(2) by (auto simp: put_record_def split: sum.splits option.splits)
  have swf: "wf s" and sc: "content s = stored content st"
    using s assms(1) create_wf by (auto simp: storage_wf_def stored_def split: option.splits)
  obtain s' where w: "bs_write (en_bs E) h b s = (Inr (), s')" and st': "st' = st\<lparr>st_store := Some s'\<rparr>"
    using assms(2) s by (auto simp: put_record_def split: prod.splits)
  note f = write_frame [OF swf w]
  have "content s' = (content s)(h \<mapsto> b)" using f by (auto simp: fun_eq_iff)
  with f sc st' show "storage_wf wf st'" "stored content st' = (stored content st)(h \<mapsto> b)"
    "st_db st' = st_db st" "st_chain st' = st_chain st" "st_store st' \<noteq> None"
    by (auto simp: storage_wf_def stored_def)
qed

lemma put_record_err:
  assumes "storage_wf wf st" "put_record E h b st = (Inl e, st')"
  shows "storage_wf wf st'" "stored content st' = stored content st" "st_db st' = st_db st"
    "st_chain st' = st_chain st"
proof -
  have "storage_wf wf st' \<and> stored content st' = stored content st \<and> st_db st' = st_db st \<and>
      st_chain st' = st_chain st"
  proof (cases "(case st_store st of Some s \<Rightarrow> Inr s
      | None \<Rightarrow> bs_create (en_bs E) (put_floor (st_anchor_floor st) h))")
    case (Inl e')
    with assms show ?thesis by (simp add: put_record_def)
  next
    case s: (Inr s)
    have swf: "wf s" and sc: "content s = stored content st"
      using s assms(1) create_wf by (auto simp: storage_wf_def stored_def split: option.splits)
    obtain s' e' where w: "bs_write (en_bs E) h b s = (Inl e', s')"
      and st': "st' = st\<lparr>st_store := Some s'\<rparr>"
      using assms(2) s by (cases "bs_write (en_bs E) h b s"; cases "fst (bs_write (en_bs E) h b s)")
        (auto simp: put_record_def)
    from write_err [OF swf w] sc st' show ?thesis by (auto simp: storage_wf_def stored_def)
  qed
  then show "storage_wf wf st'" "stored content st' = stored content st" "st_db st' = st_db st"
    "st_chain st' = st_chain st" by auto
qed

lemma put_index_frame:
  assumes "put_index E h hash txs st = (r, st')"
  shows "st_store st' = st_store st" "st_chain st' = st_chain st"
    "r = Inr () \<Longrightarrow> view (st_db st') = fold kv_put (index_batch h hash txs) (view (st_db st))"
    "r = Inl e \<Longrightarrow> view (st_db st') = view (st_db st)"
proof -
  obtain q d' where c: "fj_commit (en_fj E) (index_batch h hash txs) (st_db st) = (q, d')"
    by (cases "fj_commit (en_fj E) (index_batch h hash txs) (st_db st)")
  show "st_store st' = st_store st" "st_chain st' = st_chain st"
    "r = Inr () \<Longrightarrow> view (st_db st') = fold kv_put (index_batch h hash txs) (view (st_db st))"
    "r = Inl e \<Longrightarrow> view (st_db st') = view (st_db st)"
    using assms c commit_ok [of "index_batch h hash txs" "st_db st" d']
      commit_err [of "index_batch h hash txs" "st_db st" _ d']
    by (cases q; auto simp: put_index_def)+
qed

lemma put_ok_stages:
  assumes "put E h hash txs es st = (Inr (), st')"
  obtains st1 where "length es = arity (st_chain st)" "put_record E h (encode es) st = (Inr (), st1)"
    "put_index E h hash txs st1 = (Inr (), st')"
  using assms by (auto simp: put_def and_step_def split: if_splits prod.splits sum.splits)

lemma put_ok:
  assumes "storage_wf wf st" "put E h hash txs es st = (Inr (), st')"
  shows "storage_wf wf st'" "stored content st' = (stored content st)(h \<mapsto> encode es)"
    "view (st_db st') = fold kv_put (index_batch h hash txs) (view (st_db st))"
    "st_chain st' = st_chain st" "st_store st' \<noteq> None" "length es = arity (st_chain st)"
proof -
  from put_ok_stages [OF assms(2)] obtain st1 where a: "length es = arity (st_chain st)"
    and r: "put_record E h (encode es) st = (Inr (), st1)"
    and i: "put_index E h hash txs st1 = (Inr (), st')" .
  note R = put_record_ok [OF assms(1) r] and I = put_index_frame [OF i]
  show "storage_wf wf st'" "stored content st' = (stored content st)(h \<mapsto> encode es)"
    "view (st_db st') = fold kv_put (index_batch h hash txs) (view (st_db st))"
    "st_chain st' = st_chain st" "st_store st' \<noteq> None" "length es = arity (st_chain st)"
    using a R I by (auto simp: storage_wf_def stored_def)
qed

lemma put_first_floor:
  assumes "is_empty st" "put E h hash txs es st = (Inr (), st')"
  shows "min_height E st' = put_floor (st_anchor_floor st) h"
proof -
  from put_ok_stages [OF assms(2)] obtain st1 where r: "put_record E h (encode es) st = (Inr (), st1)"
    and i: "put_index E h hash txs st1 = (Inr (), st')" .
  from r assms(1) obtain s s' where c: "bs_create (en_bs E) (put_floor (st_anchor_floor st) h) = Inr s"
    and w: "bs_write (en_bs E) h (encode es) s = (Inr (), s')" and s1: "st_store st1 = Some s'"
    by (auto simp: put_record_def is_empty_def split: sum.splits prod.splits)
  have "bs_min (en_bs E) s' = put_floor (st_anchor_floor st) h"
    using create_wf [OF c] write_frame(4) [OF _ w] by simp
  then show ?thesis using put_index_frame(1) [OF i] s1 by (simp add: min_height_def)
qed

text \<open>Whatever the outcome of \<open>put\<close>, what it leaves behind.\<close>

lemma put_outcome:
  assumes "storage_wf wf st" "put E h hash txs es st = (r, st')"
  shows "storage_wf wf st' \<and> st_chain st' = st_chain st \<and>
    (case r of
       Inr _ \<Rightarrow> stored content st' = (stored content st)(h \<mapsto> encode es) \<and>
         view (st_db st') = fold kv_put (index_batch h hash txs) (view (st_db st))
     | Inl (Wrong_element_count n m) \<Rightarrow> st' = st \<and> n = arity (st_chain st) \<and> m = length es \<and> m \<noteq> n
     | Inl (Index_error _) \<Rightarrow> stored content st' = (stored content st)(h \<mapsto> encode es) \<and>
         view (st_db st') = view (st_db st)
     | Inl _ \<Rightarrow> stored content st' = stored content st \<and> view (st_db st') = view (st_db st))"
proof (cases r)
  case (Inr u)
  with assms show ?thesis using put_ok [of st h hash txs es st'] by auto
next
  case (Inl e)
  show ?thesis
  proof (cases "length es = arity (st_chain st)")
    case False
    with assms Inl show ?thesis by (auto simp: put_def)
  next
    case True
    obtain q st1 where r1: "put_record E h (encode es) st = (q, st1)"
      by (cases "put_record E h (encode es) st")
    show ?thesis
    proof (cases q)
      case q: (Inl e')
      have "e = e'" "st' = st1" using assms(2) True r1 q Inl by (auto simp: put_def and_step_def)
      moreover have "\<exists>m. e' = Blockstore_error m"
        using r1 q by (auto simp: put_record_def split: sum.splits option.splits prod.splits elim: map_err.elims)
      ultimately show ?thesis
        using put_record_err [OF assms(1) r1 [unfolded q]] Inl by auto
    next
      case (Inr u)
      then have i: "put_index E h hash txs st1 = (Inl e, st')"
        using assms(2) True r1 Inl by (auto simp: put_def and_step_def)
      then obtain m where "e = Index_error m"
        by (auto simp: put_index_def split: prod.splits elim: map_err.elims)
      moreover note put_record_ok [OF assms(1) r1 [unfolded Inr, simplified]] put_index_frame [OF i]
      ultimately show ?thesis using Inl by (auto simp: storage_wf_def stored_def)
    qed
  qed
qed

subsection \<open>Readers refine the contract\<close>

lemma stored_range:
  assumes "storage_wf wf st" "stored content st h = Some b"
  shows "min_height E st \<le> h" "h \<le> high_water E st"
  using assms content_range
  by (auto simp: storage_wf_def stored_def min_height_def high_water_def split: option.splits)

lemma get_element_refines:
  assumes "storage_wf wf st" "get_element E st h i = Inr v"
  shows "spec_element (en_ser E) (stored content st) h i = Inr (map_option element_deref v)"
proof (cases "st_store st")
  case None
  with assms(2) show ?thesis by (auto simp: get_element_def spec_element_def stored_def)
next
  case (Some s)
  with assms(1) have w: "wf s" by (simp add: storage_wf_def)
  show ?thesis
  proof (cases "h < bs_min (en_bs E) s \<or> h > bs_high (en_bs E) s")
    case True
    then have "content s h = None" using content_range [OF w, of h] by (cases "content s h") auto
    with True Some assms(2) show ?thesis by (auto simp: get_element_def spec_element_def stored_def)
  next
    case False
    then obtain r where r: "bs_read (en_bs E) s h = Inr r"
      using assms(2) Some by (auto simp: get_element_def and_then_Inr_iff)
    with read_ok [OF w r, symmetric] False Some assms(2) show ?thesis
      by (cases r) (auto simp: get_element_def spec_element_def stored_def
          element_at_deref [symmetric])
  qed
qed

lemma get_record_refines:
  assumes "storage_wf wf st" "get_record E st h = Inr v"
  shows "v = spec_record (stored content st) h"
proof (cases "st_store st")
  case None
  with assms(2) show ?thesis by (auto simp: get_record_def spec_record_def stored_def)
next
  case (Some s)
  with assms(1) have w: "wf s" by (simp add: storage_wf_def)
  show ?thesis
  proof (cases "h < bs_min (en_bs E) s \<or> h > bs_high (en_bs E) s")
    case True
    then have "content s h = None" using content_range [OF w, of h] by (cases "content s h") auto
    with True Some assms(2) show ?thesis by (auto simp: get_record_def spec_record_def stored_def)
  next
    case False
    then obtain r where r: "bs_read (en_bs E) s h = Inr r"
      using assms(2) Some by (auto simp: get_record_def and_then_Inr_iff)
    with read_ok [OF w r, symmetric] False Some assms(2) show ?thesis
      by (cases r) (auto simp: get_record_def spec_record_def stored_def split: if_splits)
  qed
qed

lemma read_elements_refines:
  assumes "wf s" "read_elements E s i hs out = Inr (Some xs)"
  shows "\<exists>ys. xs = out @ ys \<and>
     list_all2 (\<lambda>h y. spec_element (en_ser E) (content s) h i = Inr (Some y)) hs ys"
  using assms(2)
proof (induction hs arbitrary: out)
  case (Cons h hs)
  then obtain arc part where r: "bs_read (en_bs E) s h = Inr (Some arc)"
    "element (en_ser E) arc i = Inr (Some part)" "read_elements E s i hs (out @ [part]) = Inr (Some xs)"
    by (auto split: sum.splits option.splits)
  from Cons.IH [OF r(3)] obtain ys where ys: "xs = (out @ [part]) @ ys"
    "list_all2 (\<lambda>h y. spec_element (en_ser E) (content s) h i = Inr (Some y)) hs ys" by blast
  have "content s h = Some arc" using read_ok [OF assms(1) r(1)] by simp
  with r ys show ?case by (auto simp: spec_element_def intro!: exI [of _ "part # ys"])
qed simp

end

section \<open>The index batch\<close>

definition tx_batch :: "u64 \<Rightarrow> nat \<Rightarrow> hash32 list \<Rightarrow> (keyspace \<times> bytes \<times> bytes) list" where
  "tx_batch h n txs = map (\<lambda>(idx, tx_hash). (Tx_to_block, tx_hash, tx_entry h idx)) (enumerate n txs)"

lemma tx_batch_Cons: "tx_batch h n (t # txs) = (Tx_to_block, t, tx_entry h n) # tx_batch h (Suc n) txs"
  by (simp add: tx_batch_def)

lemma tx_batch_Nil [simp]: "tx_batch h n [] = []"
  by (simp add: tx_batch_def)

lemma kv_put_apply [simp]:
  "kv_put (k, x, v) w k' x' = (if k' = k \<and> x' = x then Some v else w k' x')"
  by (simp add: kv_put_def)

lemma fold_tx_batch_other:
  "k \<noteq> Tx_to_block \<or> x \<notin> set txs \<Longrightarrow> fold kv_put (tx_batch h n txs) v k x = v k x"
  by (induction txs arbitrary: n v) (auto simp: tx_batch_Cons)

lemma fold_tx_batch_nth:
  assumes "distinct txs" "i < length txs"
  shows "fold kv_put (tx_batch h n txs) v Tx_to_block (txs ! i) = Some (tx_entry h (n + i))"
  using assms
proof (induction txs arbitrary: n v i)
  case (Cons t txs)
  then show ?case
    by (cases i) (auto simp: tx_batch_Cons fold_tx_batch_other)
qed simp

lemma index_batch_view:
  "fold kv_put (index_batch h hash txs) v Hash_to_height x =
     (if x = hash then Some (to_le_bytes 8 h) else v Hash_to_height x)"
  "fold kv_put (index_batch h hash txs) v Meta x = v Meta x"
  "x \<notin> set txs \<Longrightarrow> fold kv_put (index_batch h hash txs) v Tx_to_block x = v Tx_to_block x"
  "distinct txs \<Longrightarrow> i < length txs \<Longrightarrow>
     fold kv_put (index_batch h hash txs) v Tx_to_block (txs ! i) = Some (tx_entry h i)"
  using fold_tx_batch_other [of _ _ txs h 0] fold_tx_batch_nth [of txs i h 0]
  by (simp_all add: index_batch_def tx_batch_def [symmetric])

lemma tx_entry_decode:
  assumes "h \<le> u64_max" "i < 4294967296"
  shows "length (tx_entry h i) = 12" "from_le_bytes (slice_of (tx_entry h i) (0, 8)) = h"
    "from_le_bytes (slice_of (tx_entry h i) (8, 12)) = i"
  using from_le_to_le_u64 [OF assms(1)] from_le_to_le_u32 [OF assms(2)]
  by (simp_all add: tx_entry_def slice_of_def as_u32_small [OF assms(2)])

section \<open>What every write keeps\<close>

text \<open>
  The interface of the tasks that only write through \<open>put\<close>: a fact about the store that a single
  \<open>put\<close> keeps is kept by everything they do, however they fail. The clients prove their lemmas once,
  for every such fact.
\<close>

locale put_guard =
  fixes E :: "('s, 'd) engines" and G :: "('s, 'd) storage \<Rightarrow> bool"
  assumes put_keeps: "G st \<Longrightarrow> put E h hash txs es st = (r, st') \<Longrightarrow> G st'"

text \<open>A store that starts, or will be created, at a minimum height.\<close>

definition anchored :: "('s, 'd) engines \<Rightarrow> u64 \<Rightarrow> ('s, 'd) storage \<Rightarrow> bool" where
  "anchored E m st \<longleftrightarrow>
     (case st_store st of None \<Rightarrow> st_anchor_floor st = Some m | Some s \<Rightarrow> bs_min (en_bs E) s = m)"

text \<open>What every writer keeps of an instance's store.\<close>

definition kept :: "('s, 'd) engines \<Rightarrow> ('s \<Rightarrow> bool) \<Rightarrow> u64 \<Rightarrow> chain \<Rightarrow> ('s, 'd) storage \<Rightarrow> bool" where
  "kept E ok m c st \<longleftrightarrow> storage_wf ok st \<and> anchored E m st \<and> st_chain st = c"

context storage_engine
begin

lemma put_grows:
  assumes "storage_wf wf st" "put E h hash txs es st = (r, st')"
  shows "storage_wf wf st' \<and> dom (stored content st) \<subseteq> dom (stored content st')"
  using put_outcome [OF assms] by (cases r) (auto split: storage_error.splits)

lemma put_record_anchored:
  assumes "storage_wf wf st" "anchored E m st" "m \<le> h \<or> st_store st \<noteq> None" "put_record E h b st = (r, st')"
  shows "anchored E m st'"
proof (cases "(case st_store st of Some s \<Rightarrow> Inr s
    | None \<Rightarrow> bs_create (en_bs E) (put_floor (st_anchor_floor st) h))")
  case (Inl e)
  with assms show ?thesis by (simp add: put_record_def)
next
  case (Inr s)
  have s: "wf s" "bs_min (en_bs E) s = m"
    using Inr assms(1-3) create_wf
    by (auto simp: storage_wf_def anchored_def put_floor_def split: option.splits)
  obtain q s' where w: "bs_write (en_bs E) h b s = (q, s')" by (cases "bs_write (en_bs E) h b s")
  then have "bs_min (en_bs E) s' = m"
    using s write_frame(4) [OF s(1)] write_err [OF s(1)] by (cases q) auto
  with assms(4) Inr w show ?thesis by (auto simp: put_record_def anchored_def)
qed

lemma put_kept:
  assumes "kept E wf m c st" "m \<le> h \<or> st_store st \<noteq> None" "put E h hash txs es st = (r, st')"
  shows "kept E wf m c st'" "dom (stored content st) \<subseteq> dom (stored content st')"
proof -
  have wf: "storage_wf wf st" and an: "anchored E m st" and c: "st_chain st = c"
    using assms(1) by (simp_all add: kept_def)
  have "anchored E m st'"
  proof (cases "length es = arity (st_chain st)")
    case True
    obtain q st1 where r: "put_record E h (encode es) st = (q, st1)" by (cases "put_record E h (encode es) st")
    have a1: "anchored E m st1" using put_record_anchored [OF wf an assms(2) r] .
    show ?thesis
    proof (cases q)
      case (Inl e)
      with True assms(3) r a1 show ?thesis by (simp add: put_def and_step_def)
    next
      case (Inr u)
      with True assms(3) r have "put_index E h hash txs st1 = (r, st')" by (simp add: put_def and_step_def)
      then show ?thesis using a1 by (auto simp: put_index_def anchored_def split: prod.splits option.splits)
    qed
  qed (use assms(3) an in \<open>simp add: put_def\<close>)
  with put_outcome [OF wf assms(3)] c
  show "kept E wf m c st'" "dom (stored content st) \<subseteq> dom (stored content st')"
    by (auto simp: kept_def split: sum.splits storage_error.splits)
qed

lemma put_rooted:
  assumes "kept E wf m c st \<and> st_store st \<noteq> None \<and> K \<subseteq> dom (stored content st)" "put E h hash txs es st = (r, st')"
  shows "kept E wf m c st' \<and> st_store st' \<noteq> None \<and> K \<subseteq> dom (stored content st')"
proof -
  have "st_store st' \<noteq> None"
    using assms
    by (auto simp: put_def and_step_def put_record_def put_index_def split: if_splits sum.splits prod.splits option.splits)
  with put_kept [OF _ _ assms(2)] assms(1) show ?thesis by blast
qed

lemma put_bound:
  assumes "storage_wf wf st \<and> st_chain st = c \<and> view (st_db st) Meta = M" "put E h hash txs es st = (r, st')"
  shows "storage_wf wf st' \<and> st_chain st' = c \<and> view (st_db st') Meta = M"
  using put_outcome [OF _ assms(2)] assms(1)
  by (cases r) (auto simp: index_batch_view fun_eq_iff split: storage_error.splits)

end

text \<open>
  Three such facts: the store stays well formed and loses none of the heights \<open>K\<close>; once it has
  been created, its lowest height stays where it is as well; and the stamps of its chain and network
  stay as they are.
\<close>

sublocale storage_engine \<subseteq> growing: put_guard E "\<lambda>st. storage_wf wf st \<and> K \<subseteq> dom (stored content st)" for K
  by unfold_locales (use put_grows in blast)

sublocale storage_engine \<subseteq> rooted: put_guard E
  "\<lambda>st. kept E wf m c st \<and> st_store st \<noteq> None \<and> K \<subseteq> dom (stored content st)" for m c K
  by unfold_locales (rule put_rooted)

sublocale storage_engine \<subseteq> bound: put_guard E
  "\<lambda>st. storage_wf wf st \<and> st_chain st = c \<and> view (st_db st) Meta = M" for c M
  by unfold_locales (rule put_bound)

section \<open>Engines whose reads do not fail\<close>

locale healthy_engine =
  storage_engine E content wf view + healthy_blockstore "en_bs E" content wf +
  healthy_fjall "en_fj E" view
  for E :: "('s, 'd) engines" and content :: "'s \<Rightarrow> u64 \<rightharpoonup> bytes" and wf :: "'s \<Rightarrow> bool"
    and view :: "'d \<Rightarrow> kv_view"
begin

lemma get_element_total:
  assumes "storage_wf wf st"
  shows "deref_view (get_element E st h i) =
     map_err (Undecodable_record h) (spec_element (en_ser E) (stored content st) h i)"
proof (cases "get_element E st h i")
  case (Inr v)
  with get_element_refines [OF assms Inr] show ?thesis by (simp add: deref_view_def)
next
  case (Inl e)
  then obtain s where s: "st_store st = Some s" by (auto simp: get_element_def split: option.splits)
  with assms have w: "wf s" by (simp add: storage_wf_def)
  from Inl s read_total [OF w] obtain arc e'
    where "content s h = Some arc" "element_at (en_ser E) arc i = Inl e'" "e = Undecodable_record h e'"
    by (auto simp: get_element_def split: if_splits option.splits elim!: map_err.elims)
  then show ?thesis
    using Inl s element_at_deref [of arc i, symmetric]
    by (simp add: deref_view_def spec_element_def stored_def)
qed

lemma get_record_total:
  assumes "storage_wf wf st"
  shows "get_record E st h = Inr (spec_record (stored content st) h)"
proof -
  have "\<exists>v. get_record E st h = Inr v"
    using assms read_total
    by (auto simp: get_record_def storage_wf_def split: option.splits)
  then show ?thesis using get_record_refines [OF assms] by blast
qed

lemma read_elements_total:
  assumes "wf s" "\<forall>h\<in>set hs. \<exists>y. spec_element (en_ser E) (content s) h i = Inr (Some y)"
  shows "\<exists>xs. read_elements E s i hs out = Inr (Some xs)"
  using assms(2)
proof (induction hs arbitrary: out)
  case (Cons h hs)
  then obtain y where "spec_element (en_ser E) (content s) h i = Inr (Some y)" by auto
  then obtain arc where "content s h = Some arc" "element (en_ser E) arc i = Inr (Some y)"
    by (auto simp: spec_element_def split: option.splits)
  with Cons read_total [OF assms(1)] show ?case by auto
qed simp

lemma read_element_range_iff:
  assumes "storage_wf wf st"
  shows "read_element_range E st a b i = Inr (Some xs) \<longleftrightarrow>
     st_store st \<noteq> None \<and>
     list_all2 (\<lambda>h x. spec_element (en_ser E) (stored content st) h i = Inr (Some x)) (heights a b) xs"
    (is "_ \<longleftrightarrow> _ \<and> list_all2 ?P _ _")
proof (cases "st_store st")
  case None
  then show ?thesis by (simp add: read_element_range_def)
next
  case (Some s)
  then have w: "wf s" and c: "stored content st = content s"
    using assms by (simp_all add: storage_wf_def stored_def)
  show ?thesis
  proof
    assume "read_element_range E st a b i = Inr (Some xs)"
    then show "st_store st \<noteq> None \<and> list_all2 ?P (heights a b) xs"
      using read_elements_refines [OF w, of i "heights a b" "[]"] Some c
      by (auto simp: read_element_range_def)
  next
    assume A: "st_store st \<noteq> None \<and> list_all2 ?P (heights a b) xs"
    then have "\<forall>h\<in>set (heights a b). \<exists>y. ?P h y"
      unfolding list_all2_conv_all_nth by (metis in_set_conv_nth)
    then obtain ys where ys: "read_elements E s i (heights a b) [] = Inr (Some ys)"
      using read_elements_total [OF w] c by metis
    then have "list_all2 ?P (heights a b) ys"
      using read_elements_refines [OF w ys] c by auto
    with A have "ys = xs"
      by (auto simp: list_all2_conv_all_nth intro!: nth_equalityI [of ys xs])
    with ys Some show "read_element_range E st a b i = Inr (Some xs)"
      by (simp add: read_element_range_def)
  qed
qed

lemma height_of_hash_put:
  assumes "storage_wf wf st" "put E h hash txs es st = (Inr (), st')" "h \<le> u64_max"
  shows "height_of_hash E st' x = (if x = hash then Inr (Some h) else height_of_hash E st x)"
  using put_ok [OF assms(1,2)] from_le_to_le_u64 [OF assms(3)]
  by (simp add: height_of_hash_def db_get_def get_total index_batch_view)

lemma get_tx_location_put:
  assumes "storage_wf wf st" "put E h hash txs es st = (Inr (), st')" "h \<le> u64_max"
    "distinct txs" "length txs < 4294967296"
  shows "i < length txs \<Longrightarrow> get_tx_location E st' (txs ! i) = Inr (Some (h, i))"
    and "x \<notin> set txs \<Longrightarrow> get_tx_location E st' x = get_tx_location E st x"
  using put_ok [OF assms(1,2)] tx_entry_decode [OF assms(3), of i] assms(4,5)
  by (simp_all add: get_tx_location_def db_get_def get_total index_batch_view)

lemma get_element_put:
  assumes "storage_wf wf st" "put E h hash txs es st = (Inr (), st')"
    "list_all (tight (en_ser E)) es"
  shows "deref_view (get_element E st' k i) =
    (if k = h then Inr (get_nth es i) else deref_view (get_element E st k i))"
proof -
  note P = put_ok [OF assms(1,2)]
  have "2 \<le> length es" using P(6) by (cases "st_chain st") auto
  then show ?thesis
    using P get_element_total [OF P(1)] get_element_total [OF assms(1)] element_encode [OF assms(3)]
    by (simp add: spec_element_def)
qed

end

section \<open>What opening guarantees\<close>

lemma meta_keys_distinct [simp]:
  "CHAIN_KEY \<noteq> IDENTITY_KEY" "CHAIN_KEY \<noteq> FORMAT_VERSION_KEY" "IDENTITY_KEY \<noteq> FORMAT_VERSION_KEY"
  "IDENTITY_KEY \<noteq> CHAIN_KEY" "FORMAT_VERSION_KEY \<noteq> CHAIN_KEY" "FORMAT_VERSION_KEY \<noteq> IDENTITY_KEY"
  by (simp_all add: CHAIN_KEY_def IDENTITY_KEY_def FORMAT_VERSION_KEY_def)

lemma format_version_text:
  "parse_u32 (to_dec (format_version c)) = Some (format_version c)"
  "utf8_valid (to_dec (format_version c))"
proof -
  have "to_dec 1 = ''1''"
    unfolding to_dec_def by (subst format_radix.simps) (simp add: from_digit_def char_of_def bit_Suc_0_iff)
  then show "utf8_valid (to_dec (format_version c))"
    by (cases c) (simp_all add: utf8_valid_ascii is_ascii_def byte_in_def)
  show "parse_u32 (to_dec (format_version c)) = Some (format_version c)"
    by (cases c) (simp_all add: parse_u32_def parse_u64_to_dec u64_max_def)
qed

lemma check_stamps_ok_iff:
  "check_stamps c identity hb si sf sc = Inr () \<longleftrightarrow>
     (case sc of
        Some x \<Rightarrow> utf8_valid x \<and> x = chain_as_str c
      | None \<Rightarrow> c = Chain_C \<or> \<not> hb \<and> si = None \<and> sf = None) \<and>
     (case si of Some x \<Rightarrow> utf8_valid x \<and> x = identity | None \<Rightarrow> True) \<and>
     (case sf of
        Some x \<Rightarrow> utf8_valid x \<and> parse_u32 x = Some (format_version c)
      | None \<Rightarrow> si \<noteq> None \<or> \<not> hb)"
  by (auto simp: check_stamps_def check_chain_stamp_def check_identity_stamp_def
      check_format_stamp_def Let_def and_then_Inr_iff split: option.splits if_splits)

definition stamped :: "kv_view \<Rightarrow> chain \<Rightarrow> string \<Rightarrow> bool" where
  "stamped v c identity \<longleftrightarrow>
     v Meta CHAIN_KEY = Some (chain_as_str c) \<and> v Meta IDENTITY_KEY = Some identity \<and>
     (\<exists>f. v Meta FORMAT_VERSION_KEY = Some f \<and> utf8_valid f \<and> parse_u32 f = Some (format_version c))"

context fjall_laws
begin

lemma insert_if_ok:
  "insert_if F m x v d = (Inr (), d') \<Longrightarrow> view d' = (if m then kv_put (Meta, x, v) (view d) else view d)"
  using insert_ok by (auto simp: insert_if_def split: if_splits prod.splits)

lemma persist_if_view: "view (snd (persist_if F m d)) = view d"
  using persist_same [of d] by (auto simp: persist_if_def split: prod.splits)

lemma write_stamps_ok:
  assumes "write_stamps F c i nc ni nf d = (Inr (), d')"
  shows "view d' =
    (let v1 = (if nc then kv_put (Meta, CHAIN_KEY, chain_as_str c) (view d) else view d);
         v2 = (if ni then kv_put (Meta, IDENTITY_KEY, i) v1 else v1)
     in if nf then kv_put (Meta, FORMAT_VERSION_KEY, to_dec (format_version c)) v2 else v2)"
proof -
  from assms obtain d1 d2 d3 where
    "insert_if F nc CHAIN_KEY (chain_as_str c) d = (Inr (), d1)"
    "insert_if F ni IDENTITY_KEY i d1 = (Inr (), d2)"
    "insert_if F nf FORMAT_VERSION_KEY (to_dec (format_version c)) d2 = (Inr (), d3)"
    "d' = snd (persist_if F (nc \<or> ni \<or> nf) d3)"
    by (auto simp: write_stamps_def and_step_def split: prod.splits sum.splits)
  then show ?thesis using insert_if_ok persist_if_view by (simp add: Let_def)
qed

lemma read_stamps_ok:
  assumes "read_stamps F d = Inr (si, sf, sc)"
  shows "si = view d Meta IDENTITY_KEY" "sf = view d Meta FORMAT_VERSION_KEY" "sc = view d Meta CHAIN_KEY"
  using assms get_ok by (auto simp: read_stamps_def and_then_Inr_iff db_get_def)

lemma verify_ok:
  assumes "verify_and_stamp_meta F c i hb d = (Inr (), d')"
  shows "stamped (view d') c i"
    and "view d k x = Some v \<Longrightarrow> view d' k x = Some v"
    and "k \<noteq> Meta \<Longrightarrow> view d' k = view d k"
    and "check_stamps c i hb (view d Meta IDENTITY_KEY) (view d Meta FORMAT_VERSION_KEY)
      (view d Meta CHAIN_KEY) = Inr ()"
proof -
  obtain si sf sc where r: "read_stamps F d = Inr (si, sf, sc)" and ck: "check_stamps c i hb si sf sc = Inr ()"
    and w: "write_stamps F c i (sc = None) (si = None) (sf = None) d = (Inr (), d')"
    using assms by (auto simp: verify_and_stamp_meta_def split: sum.splits)
  note st = read_stamps_ok [OF r]
  show "check_stamps c i hb (view d Meta IDENTITY_KEY) (view d Meta FORMAT_VERSION_KEY)
      (view d Meta CHAIN_KEY) = Inr ()" using ck st by simp
  note V = write_stamps_ok [OF w]
  show "view d k x = Some v \<Longrightarrow> view d' k x = Some v" using V st by (auto simp: Let_def)
  show "k \<noteq> Meta \<Longrightarrow> view d' k = view d k" using V by (auto simp: Let_def fun_eq_iff)
  show "stamped (view d') c i"
    using V st ck format_version_text
    by (auto simp: stamped_def check_stamps_ok_iff Let_def split: option.splits)
qed

lemma verify_err_before_write:
  assumes "read_stamps F d = Inr (si, sf, sc)" "check_stamps c i hb si sf sc = Inl e"
  shows "verify_and_stamp_meta F c i hb d = (Inl e, d)"
  using assms by (simp add: verify_and_stamp_meta_def)

end

context healthy_fjall
begin

lemma read_stamps_total:
  "read_stamps F d = Inr (view d Meta IDENTITY_KEY, view d Meta FORMAT_VERSION_KEY, view d Meta CHAIN_KEY)"
  by (simp add: read_stamps_def db_get_def get_total)

lemma verify_stamped_same:
  assumes "stamped (view d) c i" "utf8_valid i"
  shows "verify_and_stamp_meta F c i hb d = (Inr (), d)"
proof -
  have "check_stamps c i hb (view d Meta IDENTITY_KEY) (view d Meta FORMAT_VERSION_KEY)
      (view d Meta CHAIN_KEY) = Inr ()"
    using assms utf8_valid_ascii [OF chain_as_str_ascii] by (auto simp: stamped_def check_stamps_ok_iff)
  then show ?thesis
    using assms(1)
    by (auto simp: verify_and_stamp_meta_def read_stamps_total write_stamps_def insert_if_def
        persist_if_def and_step_def stamped_def)
qed

lemma verify_stamped_other:
  assumes "stamped (view d) c i" "(c', i') \<noteq> (c, i)"
  shows "\<exists>e. verify_and_stamp_meta F c' i' hb d = (Inl e, d)"
proof -
  have "check_stamps c' i' hb (view d Meta IDENTITY_KEY) (view d Meta FORMAT_VERSION_KEY)
      (view d Meta CHAIN_KEY) \<noteq> Inr ()"
    using assms by (auto simp: stamped_def check_stamps_ok_iff chain_as_str_inj)
  then obtain e where "check_stamps c' i' hb (view d Meta IDENTITY_KEY)
      (view d Meta FORMAT_VERSION_KEY) (view d Meta CHAIN_KEY) = Inl e"
    by (metis obj_sumE old.unit.exhaust)
  from verify_err_before_write [OF read_stamps_total this] show ?thesis by blast
qed

end

section \<open>Concurrent writers\<close>

text \<open>
  A request in flight is one whose record is written and whose index batch is not: the write
  lock is released between the two stages, so any other stage may run in between, and
  either stage may fail.
\<close>

type_synonym put_request = "u64 \<times> hash32 \<times> hash32 list"

inductive storage_step ::
  "('s, 'd) engines \<Rightarrow> ('s, 'd) storage \<times> put_request list \<Rightarrow>
     ('s, 'd) storage \<times> put_request list \<Rightarrow> bool" for E where
  record_written: "h \<le> u64_max \<Longrightarrow> length es = arity (st_chain st) \<Longrightarrow>
     put_record E h (encode es) st = (Inr (), st') \<Longrightarrow>
     storage_step E (st, ps) (st', (h, hash, txs) # ps)"
| write_failed: "put_record E h (encode es) st = (Inl e, st') \<Longrightarrow> storage_step E (st, ps) (st', ps)"
| index: "(h, hash, txs) \<in> set ps \<Longrightarrow> put_index E h hash txs st = (r, st') \<Longrightarrow>
     storage_step E (st, ps) (st', remove1 (h, hash, txs) ps)"

definition index_sound :: "(u64 \<rightharpoonup> bytes) \<Rightarrow> kv_view \<Rightarrow> bool" where
  "index_sound m v \<longleftrightarrow>
     (\<forall>x b. v Hash_to_height x = Some b \<longrightarrow> (\<exists>h\<in>dom m. h \<le> u64_max \<and> b = to_le_bytes 8 h)) \<and>
     (\<forall>x b. v Tx_to_block x = Some b \<longrightarrow> (\<exists>h\<in>dom m. \<exists>i. h \<le> u64_max \<and> b = tx_entry h i))"

lemma index_sound_mono: "index_sound m v \<Longrightarrow> dom m \<subseteq> dom m' \<Longrightarrow> index_sound m' v"
  unfolding index_sound_def by blast

lemma index_sound_put:
  assumes "index_sound m v" "h \<in> dom m" "h \<le> u64_max"
  shows "index_sound m (fold kv_put (index_batch h hash txs) v)"
proof -
  have "index_sound m (kv_put (Hash_to_height, hash, to_le_bytes 8 h) v)"
    using assms by (auto simp: index_sound_def split: if_splits)
  moreover have "index_sound m (fold kv_put (tx_batch h n txs) w)" if "index_sound m w" for n w
    using that
  proof (induction txs arbitrary: n w)
    case (Cons t txs)
    have "index_sound m (kv_put (Tx_to_block, t, tx_entry h n) w)"
      using Cons.prems assms(2,3) by (auto simp: index_sound_def split: if_splits)
    from Cons.IH [OF this] show ?case by (simp add: tx_batch_Cons del: kv_put_apply)
  qed simp
  ultimately show ?thesis by (simp add: index_batch_def tx_batch_def [symmetric] del: kv_put_apply)
qed

lemma height_of_hash_SomeD:
  "height_of_hash E st x = Inr (Some h) \<Longrightarrow>
     \<exists>b. fj_get (en_fj E) (st_db st) Hash_to_height x = Inr (Some b) \<and> h = from_le_bytes b"
  by (auto simp: height_of_hash_def db_get_def and_then_Inr_iff split: option.splits if_splits)

lemma get_tx_location_SomeD:
  "get_tx_location E st x = Inr (Some (h, i)) \<Longrightarrow>
     \<exists>b. fj_get (en_fj E) (st_db st) Tx_to_block x = Inr (Some b) \<and>
         h = from_le_bytes (slice_of b (0, 8))"
  by (auto simp: get_tx_location_def db_get_def and_then_Inr_iff split: option.splits if_splits)

context storage_engine
begin

lemma step_invariant:
  assumes "storage_step E c c'" "storage_wf wf (fst c)"
    "index_sound (stored content (fst c)) (view (st_db (fst c)))"
    "\<forall>(h, hash, txs) \<in> set (snd c). h \<in> dom (stored content (fst c)) \<and> h \<le> u64_max"
  shows "storage_wf wf (fst c') \<and> index_sound (stored content (fst c')) (view (st_db (fst c'))) \<and>
    (\<forall>(h, hash, txs) \<in> set (snd c'). h \<in> dom (stored content (fst c')) \<and> h \<le> u64_max)"
  using assms
proof (induction rule: storage_step.induct)
  case (record_written h es st st' ps hash txs)
  then have w: "storage_wf wf st" and i: "index_sound (stored content st) (view (st_db st))"
    and p: "\<forall>(h, hash, txs) \<in> set ps. h \<in> dom (stored content st) \<and> h \<le> u64_max" by simp_all
  note P = put_record_ok [OF w record_written(3)]
  have "index_sound (stored content st') (view (st_db st'))"
    unfolding P(3) by (rule index_sound_mono [OF i]) (auto simp: P(2))
  moreover have "dom (stored content st') = insert h (dom (stored content st))" by (simp add: P(2))
  ultimately show ?case using P(1) p record_written(1) by auto
next
  case (write_failed h es st e st' ps)
  then have w: "storage_wf wf st" by simp
  from put_record_err [OF w write_failed(1)] write_failed show ?case by auto
next
  case (index h hash txs ps st r st')
  then have i: "index_sound (stored content st) (view (st_db st))"
    and h: "h \<in> dom (stored content st)" "h \<le> u64_max"
    and p: "\<forall>(h, hash, txs) \<in> set ps. h \<in> dom (stored content st) \<and> h \<le> u64_max" by auto
  note F = put_index_frame [OF index(2)]
  have "index_sound (stored content st) (view (st_db st'))"
    using F(3,4) i index_sound_put [OF i h] by (cases r) auto
  moreover have "set (remove1 (h, hash, txs) ps) \<subseteq> set ps" by (rule set_remove1_subset)
  ultimately show ?case
    using F(1) p index(3) by (fastforce simp: stored_def storage_wf_def)
qed

lemma steps_invariant:
  assumes "(storage_step E)\<^sup>*\<^sup>* (st0, []) (st, ps)" "storage_wf wf st0"
    "index_sound (stored content st0) (view (st_db st0))"
  shows "storage_wf wf st \<and> index_sound (stored content st) (view (st_db st))"
proof -
  have "storage_wf wf (fst c) \<and> index_sound (stored content (fst c)) (view (st_db (fst c))) \<and>
      (\<forall>(h, hash, txs) \<in> set (snd c). h \<in> dom (stored content (fst c)) \<and> h \<le> u64_max)"
    if "(storage_step E)\<^sup>*\<^sup>* (st0, []) c" for c
    using that
  proof (induction rule: rtranclp_induct)
    case base
    with assms(2,3) show ?case by simp
  next
    case (step c c')
    then show ?case using step_invariant [OF step(2)] by blast
  qed
  from this [OF assms(1)] show ?thesis by simp
qed

lemma indexed_hash_stored:
  assumes "index_sound (stored content st) (view (st_db st))" "height_of_hash E st x = Inr (Some h)"
  shows "h \<in> dom (stored content st)"
proof -
  obtain b where b: "view (st_db st) Hash_to_height x = Some b" "h = from_le_bytes b"
    using height_of_hash_SomeD [OF assms(2)] get_ok by metis
  then obtain k where "k \<in> dom (stored content st)" "k \<le> u64_max" "b = to_le_bytes 8 k"
    using assms(1) unfolding index_sound_def by blast
  with b from_le_to_le_u64 show ?thesis by simp
qed

lemma indexed_tx_stored:
  assumes "index_sound (stored content st) (view (st_db st))" "get_tx_location E st x = Inr (Some (h, i))"
  shows "h \<in> dom (stored content st)"
proof -
  obtain b where b: "view (st_db st) Tx_to_block x = Some b" "h = from_le_bytes (slice_of b (0, 8))"
    using get_tx_location_SomeD [OF assms(2)] get_ok by metis
  then obtain k j where k: "k \<in> dom (stored content st)" "k \<le> u64_max" "b = tx_entry k j"
    using assms(1) unfolding index_sound_def by blast
  have "from_le_bytes (slice_of (tx_entry k j) (0, 8)) = k"
    using from_le_to_le_u64 [OF k(2)] by (simp add: tx_entry_def slice_of_def)
  with b k show ?thesis by simp
qed

end

end
