(* ===== verification/Storage_Guarantees.thy ===== *)
theory Storage_Guarantees
  imports Storage
begin

text \<open>
  The guarantees of the storage layer over any engines with the documented behaviour, and
  their evaluation on the in-memory engines: what is read after a write, what each failure
  of a write leaves behind, to which chain and network a store is bound once opened, that
  a range read is complete or nothing, and that concurrent writers never leave an index
  entry without its block.
\<close>

section \<open>In-memory engines\<close>

definition mem_engines :: "(mem_store, mem_db) engines" where
  "mem_engines = \<lparr>en_bs = mem_blockstore, en_fj = mem_fjall, en_ser = ref_serde\<rparr>"

interpretation mem: healthy_engine mem_engines mem_content mem_wf mem_view
  by (simp add: mem_engines_def healthy_engine_def storage_engine_def mem_bs.blockstore_laws_axioms
      mem_fj.fjall_laws_axioms ref.serde_laws_axioms mem_bs.healthy_blockstore_axioms
      mem_fj.healthy_fjall_axioms)

definition mem_fresh :: "chain \<Rightarrow> (mem_store, mem_db) storage" where
  "mem_fresh c = \<lparr>st_chain = c, st_store = None, st_db = [], st_anchor_floor = None\<rparr>"

lemma mem_fresh_wf [simp]: "storage_wf mem_wf (mem_fresh c)"
  by (simp add: mem_fresh_def storage_wf_def)

definition mem_put ::
  "u64 \<Rightarrow> hash32 \<Rightarrow> hash32 list \<Rightarrow> bytes list \<Rightarrow> (mem_store, mem_db) storage \<Rightarrow> (mem_store, mem_db) storage" where
  "mem_put h hash txs es st = snd (put mem_engines h hash txs es st)"

lemma mem_put_first:
  "length es = arity c \<Longrightarrow> put mem_engines h hash txs es (mem_fresh c) = (Inr (), mem_put h hash txs es (mem_fresh c))"
  by (simp add: mem_put_def put_def put_record_def put_index_def and_step_def mem_engines_def
      mem_blockstore_def mem_fjall_def mem_fresh_def put_floor_def)

lemma tight_texts: "tight ref_serde ''{}''" "tight ref_serde ''[]''"
  by code_simp+

section \<open>Reading back what was written\<close>

text \<open>
  C1. A successful \<open>put\<close> is read back exactly: every element of the record at its height, the
  block through its hash, and each transaction at its height and index; every other height,
  hash and transaction answers as before, and the first write of a store anchors its floor
  at the configured one or at the block itself.
\<close>

theorem put_then_read:
  assumes "healthy_engine E content ok view" "storage_wf ok st"
    and "put E h hash txs es st = (Inr (), st')"
    and "list_all (tight (en_ser E)) es" "h \<le> u64_max" "distinct txs" "length txs < 4294967296"
  shows "(\<forall>i. deref_view (get_element E st' h i) = Inr (get_nth es i)) \<and>
     deref_view (get_by_hash E st' hash) = Inr (Some (es ! BLOCK)) \<and>
     (\<forall>i < length txs. get_tx_location E st' (txs ! i) = Inr (Some (h, i))) \<and>
     (\<forall>k i. k \<noteq> h \<longrightarrow> deref_view (get_element E st' k i) = deref_view (get_element E st k i)) \<and>
     (\<forall>x. x \<noteq> hash \<longrightarrow> height_of_hash E st' x = height_of_hash E st x) \<and>
     (\<forall>x. x \<notin> set txs \<longrightarrow> get_tx_location E st' x = get_tx_location E st x) \<and>
     (is_empty st \<longrightarrow> min_height E st' = put_floor (st_anchor_floor st) h)"
proof -
  note read = healthy_engine.get_element_put [OF assms(1-4)]
    and hash = healthy_engine.height_of_hash_put [OF assms(1-3,5)]
    and tx = healthy_engine.get_tx_location_put [OF assms(1-3,5-7)]
  have eng: "storage_engine E content ok view" using assms(1) by (simp add: healthy_engine_def)
  have "length es = arity (st_chain st)" using storage_engine.put_ok(6) [OF eng assms(2,3)] .
  then have "0 < length es" by (cases "st_chain st") auto
  then have "deref_view (get_by_hash E st' hash) = Inr (Some (es ! BLOCK))"
    using read [of h BLOCK] hash [of hash] by (simp add: get_by_hash_def get_by_height_def get_nth_def BLOCK_def)
  then show ?thesis
    using read hash tx storage_engine.put_first_floor [OF eng _ assms(3)] by simp
qed

theorem put_then_read_witness:
  "let st = mem_put 7 ''hash'' [''t0'', ''t1''] [''{}'', ''[]''] (mem_fresh Chain_C)
   in deref_view (get_element mem_engines st 7 C_LOGS) = Inr (Some ''[]'') \<and>
      deref_view (get_by_hash mem_engines st ''hash'') = Inr (Some ''{}'') \<and>
      get_tx_location mem_engines st ''t1'' = Inr (Some (7, 1)) \<and>
      min_height mem_engines st = 7"
proof -
  let ?es = "[''{}'', ''[]'']" and ?txs = "[''t0'', ''t1'']"
  have t: "list_all (tight (en_ser mem_engines)) ?es"
    using tight_texts by (simp add: mem_engines_def)
  have e: "is_empty (mem_fresh Chain_C)" "st_anchor_floor (mem_fresh Chain_C) = None"
    by (simp_all add: is_empty_def mem_fresh_def)
  have pre: "length ?es = arity Chain_C" "7 \<le> u64_max" "distinct ?txs" "length ?txs < 4294967296"
    by (simp_all add: u64_max_def)
  note P = put_then_read [OF mem.healthy_engine_axioms mem_fresh_wf mem_put_first [OF pre(1)] t pre(2-4),
      of "''hash''"]
  from P have "\<forall>i < length ?txs. get_tx_location mem_engines
      (mem_put 7 ''hash'' ?txs ?es (mem_fresh Chain_C)) (?txs ! i) = Inr (Some (7, i))"
    by (elim conjE)
  from this [rule_format, of 1] P e show ?thesis
    by (simp add: Let_def C_LOGS_def get_nth_def BLOCK_def put_floor_def)
qed

section \<open>What a failed write leaves behind\<close>

text \<open>
  C5. Every outcome of \<open>put\<close>: a wrong element count changes nothing; a failure of the
  blockstore leaves both the stored records and the indexes as they were; a failure of the
  index batch leaves the new record readable by height and every index entry as it was, so
  no transaction is ever half indexed; and success changes exactly the one record and the
  entries of the batch.
\<close>

theorem put_outcomes:
  assumes "storage_engine E content ok view" "storage_wf ok st"
  shows "case put E h hash txs es st of (r, st') \<Rightarrow>
    storage_wf ok st' \<and> st_chain st' = st_chain st \<and>
    (case r of
       Inr _ \<Rightarrow> stored content st' = (stored content st)(h \<mapsto> encode es) \<and>
         view (st_db st') = fold kv_put (index_batch h hash txs) (view (st_db st))
     | Inl (Wrong_element_count n m) \<Rightarrow> st' = st \<and> n = arity (st_chain st) \<and> m = length es \<and> m \<noteq> n
     | Inl (Index_error _) \<Rightarrow> stored content st' = (stored content st)(h \<mapsto> encode es) \<and>
         view (st_db st') = view (st_db st)
     | Inl _ \<Rightarrow> stored content st' = stored content st \<and> view (st_db st') = view (st_db st))"
  using storage_engine.put_outcome [OF assms] by (auto split: prod.split)

theorem put_outcomes_witness:
  "fst (put mem_engines 7 ''hash'' [] [''{}''] (mem_fresh Chain_P)) = Inl (Wrong_element_count 3 1) \<and>
   snd (put mem_engines 7 ''hash'' [] [''{}''] (mem_fresh Chain_P)) = mem_fresh Chain_P"
proof -
  have r: "fst (put mem_engines 7 ''hash'' [] [''{}''] (mem_fresh Chain_P)) = Inl (Wrong_element_count 3 1)"
    by (simp add: put_def mem_fresh_def)
  then show ?thesis
    using put_outcomes [OF mem.storage_engine_axioms mem_fresh_wf [of Chain_P],
        where h = 7 and hash = "''hash''" and txs = "[]" and es = "[''{}'']"]
    by (auto split: prod.splits)
qed

section \<open>A store belongs to one chain and one network\<close>

text \<open>
  C6. Opening binds a store. When \<open>open\<close> succeeds for a chain and a network identity, the
  database carries both stamps and the chain's format version, and no value that was there
  has changed. From then on, as long as the meta keyspace is untouched (\<open>put\<close> never writes
  it), opening for any other chain or network is refused without changing the database, and
  verification for the same pair succeeds and changes nothing.
\<close>

theorem open_binds_store:
  assumes "healthy_engine E content ok view" "utf8_valid ident"
    and "storage_open E disk d c ident floor = (Inr st, d')"
  shows "st_chain st = c \<and> st_db st = d' \<and> stamped (view d') c ident \<and>
     (\<forall>k x v. view d k x = Some v \<longrightarrow> view d' k x = Some v) \<and>
     (\<forall>d2. view d2 Meta = view d' Meta \<longrightarrow>
        (\<forall>disk2 floor2. (c2, ident2) \<noteq> (c, ident) \<longrightarrow>
           (\<exists>e. storage_open E disk2 d2 c2 ident2 floor2 = (Inl e, d2))) \<and>
        (\<forall>hb. verify_and_stamp_meta (en_fj E) c ident hb d2 = (Inr (), d2)))"
proof -
  have fj: "healthy_fjall (en_fj E) view" using assms(1) by (simp add: healthy_engine_def)
  then have fl: "fjall_laws (en_fj E) view" by (simp add: healthy_fjall_def)
  from assms(3) have v: "verify_and_stamp_meta (en_fj E) c ident (disk \<noteq> None) d = (Inr (), d')"
    and st: "st_chain st = c" "st_db st = d'"
    by (auto simp: storage_open_def split: prod.splits sum.splits option.splits)
  note ok = fjall_laws.verify_ok [OF fl v]
  have later: "stamped (view d2) c ident" if "view d2 Meta = view d' Meta" for d2
    using ok(1) that by (simp add: stamped_def)
  have "\<exists>e. storage_open E disk2 d2 c2 ident2 floor2 = (Inl e, d2)"
    if "view d2 Meta = view d' Meta" "(c2, ident2) \<noteq> (c, ident)" for d2 disk2 floor2
    using healthy_fjall.verify_stamped_other [OF fj later [OF that(1)] that(2), of "disk2 \<noteq> None"]
    by (auto simp: storage_open_def)
  then show ?thesis
    using ok(1,2) st healthy_fjall.verify_stamped_same [OF fj later assms(2)] by blast
qed

theorem open_binds_store_witness:
  "\<exists>st d'. storage_open mem_engines None [] Chain_P ''5'' None = (Inr st, d') \<and>
     stamped (mem_view d') Chain_P ''5'' \<and>
     (\<exists>e. storage_open mem_engines None d' Chain_C ''5'' None = (Inl e, d'))"
proof -
  have "fst (storage_open mem_engines None [] Chain_P ''5'' None) \<noteq> Inl e" for e
    by (simp add: storage_open_def verify_and_stamp_meta_def read_stamps_def db_get_def mem_engines_def
        mem_fjall_def check_stamps_def check_chain_stamp_def check_identity_stamp_def
        check_format_stamp_def write_stamps_def insert_if_def persist_if_def and_step_def Let_def)
  then obtain st d' where o: "storage_open mem_engines None [] Chain_P ''5'' None = (Inr st, d')"
    by (metis eq_fst_iff obj_sumE)
  have u: "utf8_valid ''5''" by (simp add: utf8_valid_ascii is_ascii_def byte_in_def)
  show ?thesis
    using open_binds_store [OF mem.healthy_engine_axioms u o, of Chain_C "''5''"] o by fastforce
qed

section \<open>Concurrent writers\<close>

text \<open>
  C7. No dangling index entry. In every state that concurrent writers can reach from a store
  whose indexes are sound, with their stages interleaved in any order and failing anywhere,
  a hash or transaction that the indexes resolve resolves to a height whose block is stored.
\<close>

theorem index_never_dangles:
  assumes "storage_engine E content ok view" "storage_wf ok st0"
    and "index_sound (stored content st0) (view (st_db st0))"
    and "(storage_step E)\<^sup>*\<^sup>* (st0, []) (st, ps)"
  shows "(height_of_hash E st x = Inr (Some h) \<longrightarrow> h \<in> dom (stored content st)) \<and>
     (get_tx_location E st x = Inr (Some (h, i)) \<longrightarrow> h \<in> dom (stored content st))"
proof -
  have "index_sound (stored content st) (view (st_db st))"
    using storage_engine.steps_invariant [OF assms(1,4,2,3)] by blast
  then show ?thesis
    using storage_engine.indexed_hash_stored [OF assms(1)] storage_engine.indexed_tx_stored [OF assms(1)]
    by blast
qed

theorem index_never_dangles_witness:
  "let st1 = snd (put_record mem_engines 7 (encode [''{}'', ''[]'']) (mem_fresh Chain_C));
       st2 = snd (put_index mem_engines 7 ''hash'' [] st1)
   in (storage_step mem_engines)\<^sup>*\<^sup>* (mem_fresh Chain_C, []) (st2, []) \<and>
      7 \<in> dom (stored mem_content st2)"
proof -
  define st1 where "st1 = snd (put_record mem_engines 7 (encode [''{}'', ''[]'']) (mem_fresh Chain_C))"
  define st2 where "st2 = snd (put_index mem_engines 7 ''hash'' [] st1)"
  have p1: "put_record mem_engines 7 (encode [''{}'', ''[]'']) (mem_fresh Chain_C) = (Inr (), st1)"
    by (simp add: st1_def put_record_def mem_engines_def mem_blockstore_def mem_fresh_def put_floor_def)
  have p2: "put_index mem_engines 7 ''hash'' [] st1 = (Inr (), st2)"
    by (simp add: st2_def put_index_def mem_engines_def mem_fjall_def)
  have "storage_step mem_engines (mem_fresh Chain_C, []) (st1, [(7, ''hash'', [])])"
    by (rule storage_step.record_written [OF _ _ p1]) (simp_all add: u64_max_def mem_fresh_def)
  moreover have "storage_step mem_engines (st1, [(7, ''hash'', [])]) (st2, [])"
    using storage_step.index [OF _ p2, of "[(7, ''hash'', [])]"] by simp
  ultimately have steps: "(storage_step mem_engines)\<^sup>*\<^sup>* (mem_fresh Chain_C, []) (st2, [])" by auto
  have s0: "index_sound (stored mem_content (mem_fresh Chain_C)) (mem_view (st_db (mem_fresh Chain_C)))"
    by (simp add: index_sound_def mem_view_def mem_fresh_def)
  have "height_of_hash mem_engines st2 ''hash'' = Inr (Some 7)"
    using mem.put_index_frame(3) [OF p2] from_le_to_le_u64 [of 7]
    by (simp add: height_of_hash_def db_get_def mem.get_total index_batch_view u64_max_def)
  with index_never_dangles [OF mem.storage_engine_axioms mem_fresh_wf s0 steps, of "''hash''" 7] steps
  show ?thesis by (simp add: st1_def st2_def Let_def)
qed

end
