(* ===== verification/Upstream.thy ===== *)
theory Upstream
  imports Chain
begin

text \<open>
  Upstream-HTTP behaviour shared by every chain (\<open>upstream.rs\<close>): the pacer that spaces requests,
  the pair of pacers a request waits on (\<open>IngestCfg::pace\<close> in \<open>chain.rs\<close>), the handling of
  a throttled response, the parsing of \<open>Retry-After\<close>, the redaction of logged URLs, and the
  reconnect backoff of the two session loops.

  A pacer is shared by all tasks of a chain and the host pacer by all chains; each claim of a
  slot happens under a lock, so a concurrent execution is one sequence of claims, and a
  theorem about every sequence of arrival times covers every interleaving.
\<close>

section \<open>The pacer\<close>

type_synonym instant = nat

text \<open>\<open>Instant\<close> is a 64-bit count of seconds and a count of nanoseconds.\<close>

definition instant_max :: instant where
  "instant_max = 9223372036854775807 * nanos_per_sec + 999999999"

definition instant_checked_add :: "instant \<Rightarrow> duration \<Rightarrow> instant option" where
  "instant_checked_add t d = (if t + d \<le> instant_max then Some (t + d) else None)"

record pacer =
  pc_interval :: duration
  pc_next_slot :: instant

definition pacer_new :: "duration \<Rightarrow> instant \<Rightarrow> pacer" where
  "pacer_new i now = \<lparr>pc_interval = i, pc_next_slot = now\<rparr>"

text \<open>One \<open>wait\<close> that starts at \<open>now\<close>: the instant at which it returns, and the new pacer.\<close>

definition pacer_wait :: "instant \<Rightarrow> pacer \<Rightarrow> instant \<times> pacer" where
  "pacer_wait now p =
     (if pc_interval p = 0 then (now, p)
      else let slot = max (pc_next_slot p) now;
               nxt = (case instant_checked_add slot (pc_interval p) of None \<Rightarrow> slot | Some t \<Rightarrow> t)
           in (slot, p\<lparr>pc_next_slot := nxt\<rparr>))"

text \<open>\<open>IngestCfg::pace\<close>: the host budget first, then the chain's own interval.\<close>

definition pace :: "instant \<Rightarrow> pacer option \<Rightarrow> pacer \<Rightarrow> instant \<times> pacer option \<times> pacer" where
  "pace now host own =
     (let (t, host') = (case host of
            None \<Rightarrow> (now, None)
          | Some h \<Rightarrow> (let (s, h') = pacer_wait now h in (s, Some h')));
          (u, own') = pacer_wait t own
      in (u, host', own'))"

text \<open>The slots one pacer hands to a sequence of claims.\<close>

fun pacer_slots :: "pacer \<Rightarrow> instant list \<Rightarrow> instant list" where
  "pacer_slots p [] = []"
| "pacer_slots p (now # nows) = (let (s, p') = pacer_wait now p in s # pacer_slots p' nows)"

text \<open>
  A run of requests of several chains that share a host pacer: for each request the chain and
  the instant at which it reaches \<open>pace\<close>, and as result the host slot it was given and the
  instant at which it may start.
\<close>

fun pace_run ::
  "pacer \<Rightarrow> (chain \<Rightarrow> pacer) \<Rightarrow> (chain \<times> instant) list \<Rightarrow> (instant \<times> instant) list" where
  "pace_run host own [] = []"
| "pace_run host own ((c, now) # es) =
     (let (s, _) = pacer_wait now host;
          (u, host', own') = pace now (Some host) (own c)
      in (s, u) # pace_run (case host' of None \<Rightarrow> host | Some h \<Rightarrow> h) (own(c := own')) es)"

section \<open>Throttling\<close>

datatype throttle = Slept duration | Fatal

text \<open>
  \<open>handle_throttle\<close>: within \<open>max_wait\<close> it sleeps and returns, beyond it the process is told to
  shut down and the call never returns.
\<close>

definition handle_throttle :: "ingest_cfg \<Rightarrow> u64 \<Rightarrow> throttle" where
  "handle_throttle cfg retry_after =
     (let wait = from_secs retry_after
      in if wait > cfg_max_wait cfg then Fatal else Slept wait)"

text \<open>\<open>HeaderValue::to_str\<close> accepts visible ASCII, space and tab.\<close>

definition header_visible :: "char \<Rightarrow> bool" where
  "header_visible c \<longleftrightarrow> byte_in 32 126 c \<or> c = CHR 0x09"

definition retry_after_from_headers :: "bytes option \<Rightarrow> u64 option" where
  "retry_after_from_headers h =
     (case h of
        None \<Rightarrow> None
      | Some b \<Rightarrow> if list_all header_visible b then parse_u64 b else None)"

section \<open>Reconnecting and logging\<close>

text \<open>The sleep before reconnect number \<open>attempt\<close>, in milliseconds.\<close>

definition reconnect_backoff_ms :: "u32 \<Rightarrow> u64" where
  "reconnect_backoff_ms attempt = min (sat_mul 500 (2 ^ min attempt 6)) 30000"

definition redact_url :: "string \<Rightarrow> string" where
  "redact_url url =
     (case split_once (CHR ''?'') url of
        Some (base, _) \<Rightarrow> base @ ''?<redacted>''
      | None \<Rightarrow> url)"

section \<open>Spacing of requests\<close>

definition pacer_ok :: "pacer \<Rightarrow> instant list \<Rightarrow> bool" where
  "pacer_ok p slots \<longleftrightarrow> (\<forall>s\<in>set slots. s + pc_interval p \<le> instant_max)"

lemma pacer_wait_interval [simp]: "pc_interval (snd (pacer_wait now p)) = pc_interval p"
  by (simp add: pacer_wait_def Let_def)

lemma pacer_wait_ge: "now \<le> fst (pacer_wait now p)"
  by (simp add: pacer_wait_def Let_def)

lemma pacer_wait_slot:
  assumes "0 < pc_interval p" "fst (pacer_wait now p) + pc_interval p \<le> instant_max"
  shows "pc_next_slot p \<le> fst (pacer_wait now p) \<and>
     pc_next_slot (snd (pacer_wait now p)) = fst (pacer_wait now p) + pc_interval p"
  using assms by (auto simp: pacer_wait_def Let_def instant_checked_add_def)

lemma length_pacer_slots [simp]: "length (pacer_slots p nows) = length nows"
  by (induction p nows rule: pacer_slots.induct) (auto split: prod.splits)

lemma pacer_slots_Cons:
  "pacer_slots p (now # nows) = fst (pacer_wait now p) # pacer_slots (snd (pacer_wait now p)) nows"
  by (simp add: case_prod_beta Let_def)

lemma pacer_slots_from_next:
  assumes "0 < pc_interval p" "pacer_ok p (pacer_slots p nows)" "i < length nows"
  shows "pc_next_slot p + i * pc_interval p \<le> pacer_slots p nows ! i"
  using assms
proof (induction nows arbitrary: p i)
  case (Cons now nows)
  let ?q = "snd (pacer_wait now p)"
  have ok: "fst (pacer_wait now p) + pc_interval p \<le> instant_max"
    "pacer_ok ?q (pacer_slots ?q nows)"
    using Cons.prems(2) by (auto simp: pacer_ok_def pacer_slots_Cons simp del: pacer_slots.simps)
  show ?case
  proof (cases i)
    case 0
    with pacer_wait_slot [OF Cons.prems(1) ok(1)] show ?thesis
      by (simp add: pacer_slots_Cons del: pacer_slots.simps)
  next
    case (Suc j)
    with Cons.IH [of ?q j] Cons.prems ok pacer_wait_slot [OF Cons.prems(1) ok(1)] show ?thesis
      by (simp add: pacer_slots_Cons del: pacer_slots.simps)
  qed
qed simp

lemma pacer_slots_spaced:
  assumes "0 < pc_interval p" "pacer_ok p (pacer_slots p nows)" "i \<le> j" "j < length nows"
  shows "pacer_slots p nows ! i + (j - i) * pc_interval p \<le> pacer_slots p nows ! j"
  using assms
proof (induction nows arbitrary: p i j)
  case (Cons now nows)
  let ?q = "snd (pacer_wait now p)"
  have ok: "fst (pacer_wait now p) + pc_interval p \<le> instant_max"
    "pacer_ok ?q (pacer_slots ?q nows)"
    using Cons.prems(2) by (auto simp: pacer_ok_def pacer_slots_Cons simp del: pacer_slots.simps)
  show ?case
  proof (cases j)
    case 0
    with Cons.prems show ?thesis by simp
  next
    case j: (Suc j')
    show ?thesis
    proof (cases i)
      case 0
      with j Cons.prems ok pacer_slots_from_next [of ?q nows j'] pacer_wait_slot [OF Cons.prems(1) ok(1)]
      show ?thesis by (simp add: pacer_slots_Cons del: pacer_slots.simps)
    next
      case (Suc i')
      with j Cons.IH [of ?q i' j'] Cons.prems ok show ?thesis
        by (simp add: pacer_slots_Cons del: pacer_slots.simps)
    qed
  qed
qed simp

lemma pacer_slots_after_arrival:
  "i < length nows \<Longrightarrow> nows ! i \<le> pacer_slots p nows ! i"
proof (induction nows arbitrary: p i)
  case (Cons now nows)
  then show ?case
    using pacer_wait_ge [of now p]
    by (cases i) (auto simp: pacer_slots_Cons simp del: pacer_slots.simps)
qed simp

lemma pace_host: "fst (snd (pace now (Some h) own)) = Some (snd (pacer_wait now h))"
  by (simp add: pace_def case_prod_beta Let_def)

lemma pace_ge_host: "fst (pacer_wait now h) \<le> fst (pace now (Some h) own)"
  using pacer_wait_ge by (simp add: pace_def case_prod_beta Let_def)

lemma pace_run_Cons:
  "pace_run host own ((c, now) # es) =
     (fst (pacer_wait now host), fst (pace now (Some host) (own c))) #
     pace_run (snd (pacer_wait now host))
       (own(c := snd (snd (pace now (Some host) (own c))))) es"
  by (simp add: case_prod_beta Let_def pace_host)

lemma pace_run_host:
  "map fst (pace_run host own es) = pacer_slots host (map snd es)"
proof (induction es arbitrary: host own)
  case (Cons e es)
  then show ?case
    by (cases e) (simp add: pace_run_Cons pacer_slots_Cons del: pace_run.simps pacer_slots.simps)
qed simp

lemma pace_run_ge: "(s, u) \<in> set (pace_run host own es) \<Longrightarrow> s \<le> u"
proof (induction es arbitrary: host own)
  case (Cons e es)
  then show ?case
    using pace_ge_host
    by (cases e) (auto simp: pace_run_Cons simp del: pace_run.simps)
qed simp

lemma spread_card:
  fixes xs :: "nat list"
  assumes "0 < d" and sp: "\<And>i j. i \<le> j \<Longrightarrow> j < length xs \<Longrightarrow> xs ! i + (j - i) * d \<le> xs ! j"
  shows "card {i. i < length xs \<and> t \<le> xs ! i \<and> xs ! i < t + k * d} \<le> k"
proof -
  let ?W = "{i. i < length xs \<and> t \<le> xs ! i \<and> xs ! i < t + k * d}"
  have fin: "finite ?W" by simp
  show ?thesis
  proof (cases "?W = {}")
    case True
    show ?thesis by (simp only: True card.empty)
  next
    case False
    define a b where "a = Min ?W" and "b = Max ?W"
    have a: "a \<in> ?W" and b: "b \<in> ?W"
      unfolding a_def b_def by (rule Min_in [OF fin False], rule Max_in [OF fin False])
    have ab: "a \<le> b" unfolding a_def b_def by (rule Min_le [OF fin Max_in [OF fin False]])
    have "xs ! a + (b - a) * d \<le> xs ! b" using sp ab b by blast
    moreover have "t \<le> xs ! a" "xs ! b < t + k * d" using a b by simp_all
    ultimately have "(b - a) * d < k * d" by linarith
    then have "b - a < k" using assms(1) by simp
    moreover have "?W \<subseteq> {a..b}"
      unfolding a_def b_def by (rule subsetI) (simp only: atLeastAtMost_iff Min_le [OF fin] Max_ge [OF fin])
    then have "card ?W \<le> Suc b - a" using card_mono [of "{a..b}" ?W] by simp
    ultimately show ?thesis using ab by linarith
  qed
qed

text \<open>The starts of one chain's requests are the slots of its own pacer, asked for at the host slots.\<close>

definition run_of :: "chain \<Rightarrow> (chain \<times> instant) list \<Rightarrow> (instant \<times> instant) list \<Rightarrow> (instant \<times> instant) list" where
  "run_of c es run = map snd (filter (\<lambda>(e, _). fst e = c) (zip es run))"

lemma length_pace_run [simp]: "length (pace_run host own es) = length es"
  using arg_cong [OF pace_run_host, of length host own es] by simp

lemma pace_run_own:
  "map snd (run_of c es (pace_run host own es)) = pacer_slots (own c) (map fst (run_of c es (pace_run host own es)))"
proof (induction es arbitrary: host own)
  case (Cons e es)
  obtain c' now where e: "e = (c', now)" by (cases e)
  define s where "s = fst (pacer_wait now host)"
  define own' where "own' = own(c' := snd (pacer_wait s (own c')))"
  have r: "pace_run host own (e # es) = (s, fst (pacer_wait s (own c'))) # pace_run (snd (pacer_wait now host)) own' es"
    by (simp add: e pace_run_Cons pace_def case_prod_beta Let_def s_def own'_def del: pace_run.simps)
  have "own' c' = snd (pacer_wait s (own c'))" "c \<noteq> c' \<Longrightarrow> own' c = own c" by (simp_all add: own'_def)
  with Cons.IH [of "snd (pacer_wait now host)" own'] show ?case
    unfolding r by (cases "c = c'") (simp_all add: e run_of_def pacer_slots_Cons del: pacer_slots.simps)
qed (simp add: run_of_def)

text \<open>A chain whose own interval is no longer than the host's never waits beyond its host slot.\<close>

lemma fast_chain_starts_at_slot:
  assumes "0 < pc_interval host" "pacer_ok host (pacer_slots host (map snd es))"
    and "\<forall>(c, t) \<in> set es. pc_interval (own c) \<le> pc_interval host \<longrightarrow> pc_next_slot (own c) \<le> max (pc_next_slot host) t"
  shows "\<forall>(e, s, u) \<in> set (zip es (pace_run host own es)). pc_interval (own (fst e)) \<le> pc_interval host \<longrightarrow> u = s"
  using assms
proof (induction es arbitrary: host own)
  case (Cons e es)
  obtain c now where e: "e = (c, now)" by (cases e)
  define h where "h = snd (pacer_wait now host)"
  define s where "s = fst (pacer_wait now host)"
  define o' where "o' = snd (pacer_wait s (own c))"
  have ok: "s + pc_interval host \<le> instant_max" "pacer_ok h (pacer_slots h (map snd es))"
    using Cons.prems(2) by (auto simp: e h_def s_def pacer_ok_def pacer_slots_Cons simp del: pacer_slots.simps)
  note W = pacer_wait_slot [OF Cons.prems(1) ok(1) [unfolded s_def], folded s_def h_def]
  have p: "pace now (Some host) (own c) = (fst (pacer_wait s (own c)), Some h, o')"
    by (simp add: pace_def case_prod_beta Let_def h_def s_def o'_def)
  have iv: "pc_interval o' = pc_interval (own c)" "pc_interval h = pc_interval host"
    by (simp_all add: o'_def h_def pacer_wait_def Let_def)
  have sm: "s = max (pc_next_slot host) now" "pc_next_slot h = s + pc_interval host"
    using Cons.prems(1) ok(1) by (auto simp: s_def h_def pacer_wait_def instant_checked_add_def Let_def)
  have first: "fst (pacer_wait s (own c)) = s" "pc_next_slot o' \<le> pc_next_slot h"
    if "pc_interval (own c) \<le> pc_interval host"
  proof -
    have n: "pc_next_slot (own c) \<le> s" using Cons.prems(3) that by (simp add: e sm(1))
    then show "fst (pacer_wait s (own c)) = s" by (simp add: pacer_wait_def Let_def)
    from n that sm(2) show "pc_next_slot o' \<le> pc_next_slot h"
      by (auto simp: o'_def pacer_wait_def instant_checked_add_def Let_def)
  qed
  have nxt: "\<forall>(c', t) \<in> set es. pc_interval ((own(c := o')) c') \<le> pc_interval h \<longrightarrow>
      pc_next_slot ((own(c := o')) c') \<le> max (pc_next_slot h) t"
    using Cons.prems(3) first(2) sm iv by (fastforce simp: e)
  have "\<forall>(e, s, u) \<in> set (zip es (pace_run h (own(c := o')) es)). pc_interval (own (fst e)) \<le> pc_interval host \<longrightarrow> u = s"
    using Cons.IH [OF _ ok(2) nxt] Cons.prems(1) iv by (auto simp: fun_upd_def split: if_splits)
  with first(1) show ?case by (auto simp: e pace_run_Cons p h_def [symmetric] s_def [symmetric] simp del: pace_run.simps)
qed simp

lemma pace_run_after_arrival:
  assumes "run = pace_run host own es"
  shows "\<forall>i < length es. snd (es ! i) \<le> snd (run ! i)"
proof (intro allI impI)
  fix i
  assume i: "i < length es"
  then have "fst (run ! i) = pacer_slots host (map snd es) ! i"
    using arg_cong [OF pace_run_host [of host own es], of "\<lambda>xs. xs ! i"] by (simp add: assms)
  then have "snd (es ! i) \<le> fst (run ! i)" using i pacer_slots_after_arrival [of i "map snd es" host] by simp
  moreover have "fst (run ! i) \<le> snd (run ! i)"
    using pace_run_ge [of "fst (run ! i)" "snd (run ! i)" host own es] nth_mem [of i run] i by (simp add: assms)
  ultimately show "snd (es ! i) \<le> snd (run ! i)" by (rule order_trans)
qed

text \<open>The number of values of a spread list in a window, and below a bound.\<close>

lemma spread_length:
  fixes xs :: "nat list"
  assumes "0 < d" "\<And>i j. i \<le> j \<Longrightarrow> j < length xs \<Longrightarrow> xs ! i + (j - i) * d \<le> xs ! j"
  shows "length (filter (\<lambda>u. t \<le> u \<and> u < t + k * d) xs) \<le> k"
  using spread_card [OF assms] by (simp add: length_filter_conv_card)

lemma starts_by:
  assumes "0 < pc_interval host" "run = pace_run host own es" "d = pc_interval host" "pacer_ok host (map fst run)"
  shows "length (filter (\<lambda>u. u < pc_next_slot host + k * d) (map snd run)) \<le> k"
proof -
  have "i < k" if "i < length es" "snd (run ! i) < pc_next_slot host + k * d" for i
  proof -
    have "pc_next_slot host + i * d \<le> pacer_slots host (map snd es) ! i"
      using pacer_slots_from_next [of host "map snd es" i] assms that(1) by (simp add: pace_run_host)
    also have "\<dots> = fst (run ! i)"
      using arg_cong [OF pace_run_host [of host own es], of "\<lambda>xs. xs ! i"] that(1) by (simp add: assms)
    also have "\<dots> \<le> snd (run ! i)"
      using pace_run_ge [of "fst (run ! i)" "snd (run ! i)" host own es] nth_mem [of i run] that(1) by (simp add: assms)
    finally have "i * d < k * d" using that(2) by linarith
    then show ?thesis by simp
  qed
  then have "{i. i < length (map snd run) \<and> map snd run ! i < pc_next_slot host + k * d} \<subseteq> {..<k}"
    by (auto simp: assms)
  from card_mono [OF _ this] show ?thesis by (simp add: length_filter_conv_card)
qed

lemma length_filter_mono: "(\<And>x. x \<in> set xs \<Longrightarrow> P x \<Longrightarrow> Q x) \<Longrightarrow> length (filter P xs) \<le> length (filter Q xs)"
  by (induction xs) (auto intro: le_SucI)

lemma length_filter_le_by_chain:
  "length (filter (\<lambda>(c, u). P u) xs) \<le> length (filter (\<lambda>(c, u). \<not> slow c \<and> P u) xs) +
     (\<Sum>c\<leftarrow>filter slow all_chains. length (filter (\<lambda>(c', u). c' = c \<and> P u) xs))"
proof (induction xs)
  case (Cons x xs)
  obtain c u where "x = (c, u)" by (cases x)
  with Cons show ?case by (cases c) (auto simp: all_chains_def)
qed simp

lemma starts_in_window:
  assumes "0 < pc_interval host" "run = pace_run host own es" "d = pc_interval host"
    and "pacer_ok host (map fst run)" "\<forall>c. pacer_ok (own c) (map snd (run_of c es run))"
    and "\<forall>(c, t) \<in> set es. pc_next_slot (own c) \<le> t"
  shows "length (filter (\<lambda>u. t \<le> u \<and> u < t + k * d) (map snd run)) \<le>
    k + (\<Sum>c\<leftarrow>filter (\<lambda>c. d < pc_interval (own c)) all_chains. (k * d + pc_interval (own c) - 1) div pc_interval (own c))"
proof -
  define win where "win = (\<lambda>u. t \<le> u \<and> u < t + k * d)"
  define slow where "slow = (\<lambda>c. d < pc_interval (own c))"
  define xs where "xs = zip (map fst es) (map snd run)"
  have len: "length run = length es" by (simp add: assms(2))
  have ok: "pacer_ok host (pacer_slots host (map snd es))" using assms(2,4) by (simp add: pace_run_host)
  have all: "length (filter win (map snd run)) = length (filter (\<lambda>(c, u). win u) xs)"
  proof -
    have "map snd xs = map snd run" using len by (simp add: xs_def)
    then have "length (filter win (map snd run)) = length (filter win (map snd xs))" by simp
    then show ?thesis by (simp add: filter_map o_def case_prod_unfold)
  qed
  have fast: "length (filter (\<lambda>(c, u). \<not> slow c \<and> win u) xs) \<le> k"
  proof -
    have eq: "\<forall>(e, s, u) \<in> set (zip es run). \<not> slow (fst e) \<longrightarrow> u = s"
      using fast_chain_starts_at_slot [OF assms(1) ok, of own] assms(2,3,6) by (fastforce simp: slow_def)
    have "length (filter (\<lambda>(c, u). \<not> slow c \<and> win u) xs) = length (filter (\<lambda>(e, s, u). \<not> slow (fst e) \<and> win u) (zip es run))"
      unfolding xs_def zip_map_map by (simp add: filter_map o_def case_prod_unfold)
    also have "\<dots> \<le> length (filter (\<lambda>(e, s, u). win s) (zip es run))"
      using eq by (intro length_filter_mono) auto
    also have "\<dots> = length (filter win (map fst run))"
    proof -
      have "map fst run = map fst (map snd (zip es run))" using len by simp
      then show ?thesis by (simp add: filter_map o_def case_prod_unfold)
    qed
    also have "\<dots> \<le> k"
      unfolding win_def assms(2) pace_run_host assms(3)
      by (rule spread_length [OF assms(1) pacer_slots_spaced [OF assms(1) ok]]) simp_all
    finally show ?thesis .
  qed
  have "length (filter (\<lambda>(c', u). c' = c \<and> win u) xs) \<le> (k * d + pc_interval (own c) - 1) div pc_interval (own c)"
    if "slow c" for c
  proof -
    let ?D = "pc_interval (own c)"
    define n where "n = (k * d + ?D - 1) div ?D"
    have D: "0 < ?D" using that by (simp add: slow_def)
    have n: "k * d \<le> n * ?D"
    proof -
      have "k * d + ?D - 1 = n * ?D + (k * d + ?D - 1) mod ?D" by (simp add: n_def)
      moreover have "(k * d + ?D - 1) mod ?D < ?D" using D by simp
      ultimately show ?thesis using D by linarith
    qed
    let ?us = "map snd (run_of c es run)"
    have us: "?us = pacer_slots (own c) (map fst (run_of c es run))" unfolding assms(2) by (rule pace_run_own)
    have "length (filter (\<lambda>(c', u). c' = c \<and> win u) xs) = length (filter win ?us)"
      unfolding xs_def zip_map_map run_of_def by (simp add: filter_map o_def case_prod_unfold conj_commute)
    also have "\<dots> \<le> length (filter (\<lambda>u. t \<le> u \<and> u < t + n * ?D) ?us)"
      using n by (intro length_filter_mono) (auto simp: win_def)
    also have "\<dots> \<le> n"
      by (rule spread_length [OF D])
        (use pacer_slots_spaced [OF D] assms(5) us in \<open>metis length_map length_pacer_slots\<close>)
    finally show ?thesis by (simp add: n_def)
  qed
  then have "(\<Sum>c\<leftarrow>filter slow all_chains. length (filter (\<lambda>(c', u). c' = c \<and> win u) xs)) \<le>
      (\<Sum>c\<leftarrow>filter slow all_chains. (k * d + pc_interval (own c) - 1) div pc_interval (own c))"
    by (intro sum_list_mono) auto
  with length_filter_le_by_chain [where P = win and slow = slow and xs = xs] fast all show ?thesis
    unfolding win_def slow_def by linarith
qed

text \<open>
  C32. The host budget bounds the requests of all chains together, whatever their interleaving. By any
  instant, no more requests have started than the budget had slots by then, so on average the rate is
  kept. In a window of \<open>k\<close> host intervals at most \<open>k\<close> requests start, and, for every chain whose own interval is
  longer than the host's, at most as many more as that interval allows: such a chain waits for its own
  turn after it got its host slot, and may then start beside the holder of a later one. No request
  starts before it arrived. The clock must not overflow and the pacers exist before the requests.
\<close>

theorem host_pacer_bounds_all_chains:
  assumes "0 < pc_interval host" "run = pace_run host own es" "d = pc_interval host"
    and "pacer_ok host (map fst run)" "\<forall>c. pacer_ok (own c) (map snd (run_of c es run))"
    and "\<forall>(c, t) \<in> set es. pc_next_slot (own c) \<le> t"
  shows "length (filter (\<lambda>u. u < pc_next_slot host + k * d) (map snd run)) \<le> k \<and>
    length (filter (\<lambda>u. t \<le> u \<and> u < t + k * d) (map snd run)) \<le>
      k + (\<Sum>c\<leftarrow>filter (\<lambda>c. d < pc_interval (own c)) all_chains. (k * d + pc_interval (own c) - 1) div pc_interval (own c)) \<and>
    (\<forall>i < length es. snd (es ! i) \<le> snd (run ! i))"
proof (intro conjI)
  show "\<forall>i < length es. snd (es ! i) \<le> snd (run ! i)" by (rule pace_run_after_arrival [OF assms(2)])
  show "length (filter (\<lambda>u. u < pc_next_slot host + k * d) (map snd run)) \<le> k"
    by (rule starts_by [OF assms(1-4)])
  show "length (filter (\<lambda>u. t \<le> u \<and> u < t + k * d) (map snd run)) \<le>
      k + (\<Sum>c\<leftarrow>filter (\<lambda>c. d < pc_interval (own c)) all_chains. (k * d + pc_interval (own c) - 1) div pc_interval (own c))"
    by (rule starts_in_window [OF assms])
qed

theorem host_pacer_bounds_all_chains_witness:
  "let host = pacer_new 40 100; own = (\<lambda>c. pacer_new (if c = Chain_C then 40 else 200) 100);
       es = [(Chain_P, 100), (Chain_P, 101), (Chain_C, 300)]
   in map snd (pace_run host own es) = [100, 300, 300] \<and>
      length (filter (\<lambda>u. 280 \<le> u \<and> u < 280 + 1 * 40) (map snd (pace_run host own es))) \<le> 2"
proof -
  let ?own = "\<lambda>c. pacer_new (if c = Chain_C then 40 else 200) 100"
  let ?es = "[(Chain_P, 100), (Chain_P, 101), (Chain_C, 300)]"
  have run: "pace_run (pacer_new 40 100) ?own ?es = [(100, 100), (140, 300), (300, 300)]"
    by (simp add: pace_def pacer_wait_def pacer_new_def instant_checked_add_def instant_max_def
        nanos_per_sec_def Let_def)
  have ok: "pacer_ok (pacer_new 40 100) (map fst [(100, 100), (140, 300), (300, 300)])"
    "\<forall>c. pacer_ok (?own c) (map snd (run_of c ?es [(100, 100), (140, 300), (300, 300)]))"
    by (auto simp: pacer_ok_def pacer_new_def run_of_def instant_max_def nanos_per_sec_def)
  note B = host_pacer_bounds_all_chains [of "pacer_new 40 100" _ ?own ?es 40 1 280, OF _ run [symmetric] _ ok]
  have "length (filter (\<lambda>u. 280 \<le> u \<and> u < 280 + 1 * 40) (map snd (pace_run (pacer_new 40 100) ?own ?es))) \<le>
      1 + (\<Sum>c\<leftarrow>filter (\<lambda>c. 40 < pc_interval (?own c)) all_chains. (1 * 40 + pc_interval (?own c) - 1) div pc_interval (?own c))"
    unfolding run by (rule B [THEN conjunct2, THEN conjunct1]) (auto simp: pacer_new_def)
  also have "\<dots> = 2" by (simp add: pacer_new_def all_chains_def)
  finally show ?thesis unfolding Let_def by (simp only: run list.map prod.sel simp_thms)
qed

section \<open>Throttling, backoff, redaction\<close>

text \<open>
  Logging a URL never shows its query: two URLs that differ only after the first question
  mark are logged alike, the part before it is kept, and nothing that follows the marker in
  the logged form comes from the query.
\<close>

lemma redact_url_hides_query:
  assumes "CHR ''?'' \<notin> set base"
  shows "redact_url (base @ CHR ''?'' # query) = base @ ''?<redacted>'' \<and>
     redact_url base = base"
  using assms by (simp_all add: redact_url_def split_once_append split_once_None_iff [THEN iffD2])

lemma handle_throttle_Slept_iff:
  "handle_throttle cfg r = Slept w \<longleftrightarrow> w = from_secs r \<and> w \<le> cfg_max_wait cfg"
  by (auto simp: handle_throttle_def Let_def)

lemma reconnect_backoff_eq: "reconnect_backoff_ms a = min (500 * 2 ^ min a 6) 30000"
proof -
  have "(2::nat) ^ min a 6 \<le> 2 ^ 6" by (rule power_increasing) auto
  then show ?thesis by (simp add: reconnect_backoff_ms_def sat_mul_def u64_max_def)
qed

lemma reconnect_backoff_bounds: "500 \<le> reconnect_backoff_ms a \<and> reconnect_backoff_ms a \<le> 30000"
  by (simp add: reconnect_backoff_eq)

lemma reconnect_backoff_mono: "a \<le> b \<Longrightarrow> reconnect_backoff_ms a \<le> reconnect_backoff_ms b"
proof -
  assume "a \<le> b"
  then have "(2::nat) ^ min a 6 \<le> 2 ^ min b 6" by (intro power_increasing) auto
  then have "500 * 2 ^ min a 6 \<le> (500 * 2 ^ min b 6 :: nat)" by (rule mult_le_mono2)
  then show ?thesis unfolding reconnect_backoff_eq by (rule min.mono) simp
qed

end
