(* ===== verification/Join.thy ===== *)
theory Join
  imports Storage_Guarantees Upstream
begin

text \<open>
  The join buffer (\<open>join.rs\<close>): block and logs of a height arrive separately and are written
  as one record when both are there. \<open>on_block\<close> and \<open>on_logs\<close> first decide under the lock what
  to do (a pure function of the pending halves) and then carry the decision out, which is
  where the store is written. The operations take the two together; \<open>decide_apply_commute\<close> shows that
  this loses no order of two arrivals, \<open>completing_block_in_neither\<close> what a reader sees in between.

  The \<open>HashMap\<close> of pending halves is an association list with distinct keys. The lemmas show
  that the buffer stays within its cap, that a pair completes whichever half comes first and
  whatever arrives for other heights in between unless the cap forces a flush, that what is
  written is exactly a pair that was fed, and that a flush never wedges the buffer.
\<close>

section \<open>State\<close>

datatype half = Half_Block | Half_Log

fun half_as_str :: "half \<Rightarrow> string" where
  "half_as_str Half_Block = ''block''"
| "half_as_str Half_Log = ''log''"

datatype join_outcome = Completed | Buffered | Deferred

record pending_block =
  pb_hash :: hash32
  pb_tx_hashes :: "hash32 list"
  pb_bytes :: bytes
  pb_since :: instant

record pending_logs =
  pl_bytes :: bytes
  pl_since :: instant

datatype pending = Pending_Block pending_block | Pending_Logs pending_logs

datatype write_act =
    Act_Write hash32 "hash32 list" bytes bytes half instant
  | Act_Buffered
  | Act_Deferred

type_synonym pending_map = "(u64 \<times> pending) list"

record ('s, 'd) join_buffer =
  jb_storage :: "('s, 'd) storage"
  jb_max_entries :: usize
  jb_pending :: pending_map

definition join_new :: "('s, 'd) storage \<Rightarrow> usize \<Rightarrow> ('s, 'd) join_buffer" where
  "join_new st m = \<lparr>jb_storage = st, jb_max_entries = m, jb_pending = []\<rparr>"

definition pending_remove :: "u64 \<Rightarrow> pending_map \<Rightarrow> pending_map" where
  "pending_remove h ps = filter (\<lambda>kv. fst kv \<noteq> h) ps"

section \<open>Decisions under the lock\<close>

definition decide_block ::
  "usize \<Rightarrow> u64 \<Rightarrow> hash32 \<Rightarrow> hash32 list \<Rightarrow> bytes \<Rightarrow> instant \<Rightarrow> pending_map \<Rightarrow> write_act \<times> pending_map" where
  "decide_block max_entries h hash txs block_bytes now ps =
     (let rest = pending_remove h ps;
          entry = (\<lambda>since. (h, Pending_Block \<lparr>pb_hash = hash, pb_tx_hashes = txs,
                     pb_bytes = block_bytes, pb_since = since\<rparr>))
      in case map_of ps h of
           Some (Pending_Logs l) \<Rightarrow>
             (Act_Write hash txs block_bytes (pl_bytes l) Half_Log (pl_since l), rest)
         | Some (Pending_Block prev) \<Rightarrow> (Act_Buffered, entry (pb_since prev) # rest)
         | None \<Rightarrow>
             if length rest \<ge> max_entries then (Act_Deferred, [])
             else (Act_Buffered, entry now # rest))"

definition decide_logs ::
  "usize \<Rightarrow> u64 \<Rightarrow> bytes \<Rightarrow> instant \<Rightarrow> pending_map \<Rightarrow> write_act \<times> pending_map" where
  "decide_logs max_entries h logs_bytes now ps =
     (let rest = pending_remove h ps;
          entry = (\<lambda>since. (h, Pending_Logs \<lparr>pl_bytes = logs_bytes, pl_since = since\<rparr>))
      in case map_of ps h of
           Some (Pending_Block b) \<Rightarrow>
             (Act_Write (pb_hash b) (pb_tx_hashes b) (pb_bytes b) logs_bytes Half_Block (pb_since b), rest)
         | Some (Pending_Logs prev) \<Rightarrow> (Act_Buffered, entry (pl_since prev) # rest)
         | None \<Rightarrow>
             if length rest \<ge> max_entries then (Act_Deferred, [])
             else (Act_Buffered, entry now # rest))"

section \<open>Carrying them out\<close>

fun join_apply ::
  "('s, 'd) engines \<Rightarrow> u64 \<Rightarrow> write_act \<Rightarrow> ('s, 'd) join_buffer \<Rightarrow>
     (storage_error + join_outcome) \<times> ('s, 'd) join_buffer" where
  "join_apply E h (Act_Write hash txs block_bytes logs first since) jb =
     (case put E h hash txs [block_bytes, logs] (jb_storage jb) of
        (Inl e, st) \<Rightarrow> (Inl e, jb\<lparr>jb_storage := st\<rparr>)
      | (Inr _, st) \<Rightarrow> (Inr Completed, jb\<lparr>jb_storage := st\<rparr>))"
| "join_apply E h Act_Buffered jb = (Inr Buffered, jb)"
| "join_apply E h Act_Deferred jb = (Inr Deferred, jb)"

definition on_block ::
  "('s, 'd) engines \<Rightarrow> u64 \<Rightarrow> hash32 \<Rightarrow> hash32 list \<Rightarrow> bytes \<Rightarrow> instant \<Rightarrow> ('s, 'd) join_buffer \<Rightarrow>
     (storage_error + join_outcome) \<times> ('s, 'd) join_buffer" where
  "on_block E h hash txs block_bytes now jb =
     (let (act, ps) = decide_block (jb_max_entries jb) h hash txs block_bytes now (jb_pending jb)
      in join_apply E h act (jb\<lparr>jb_pending := ps\<rparr>))"

definition on_logs ::
  "('s, 'd) engines \<Rightarrow> u64 \<Rightarrow> bytes \<Rightarrow> instant \<Rightarrow> ('s, 'd) join_buffer \<Rightarrow>
     (storage_error + join_outcome) \<times> ('s, 'd) join_buffer" where
  "on_logs E h logs_bytes now jb =
     (let (act, ps) = decide_logs (jb_max_entries jb) h logs_bytes now (jb_pending jb)
      in join_apply E h act (jb\<lparr>jb_pending := ps\<rparr>))"

definition buffered_block :: "('s, 'd) join_buffer \<Rightarrow> u64 \<Rightarrow> bytes option" where
  "buffered_block jb h =
     (case map_of (jb_pending jb) h of
        Some (Pending_Block b) \<Rightarrow> Some (pb_bytes b)
      | _ \<Rightarrow> None)"

section \<open>Gauges\<close>

record join_gauges =
  jg_block_count :: nat
  jg_log_count :: nat
  jg_block_bytes :: nat
  jg_log_bytes :: nat
  jg_block_oldest :: nat
  jg_log_oldest :: nat
  jg_capacity :: nat

definition pending_blocks :: "pending_map \<Rightarrow> pending_block list" where
  "pending_blocks ps =
     List.map_filter (\<lambda>kv. case snd kv of Pending_Block b \<Rightarrow> Some b | Pending_Logs _ \<Rightarrow> None) ps"

definition pending_logs_of :: "pending_map \<Rightarrow> pending_logs list" where
  "pending_logs_of ps =
     List.map_filter (\<lambda>kv. case snd kv of Pending_Logs l \<Rightarrow> Some l | Pending_Block _ \<Rightarrow> None) ps"

definition oldest_age :: "instant \<Rightarrow> instant list \<Rightarrow> nat" where
  "oldest_age now ts = (case ts of [] \<Rightarrow> 0 | t # ts' \<Rightarrow> now - fold min ts' t)"

definition join_sample :: "instant \<Rightarrow> ('s, 'd) join_buffer \<Rightarrow> join_gauges" where
  "join_sample now jb =
     (let bs = pending_blocks (jb_pending jb); ls = pending_logs_of (jb_pending jb)
      in \<lparr>jg_block_count = length bs, jg_log_count = length ls,
          jg_block_bytes = sum_list (map (length \<circ> pb_bytes) bs),
          jg_log_bytes = sum_list (map (length \<circ> pl_bytes) ls),
          jg_block_oldest = oldest_age now (map pb_since bs),
          jg_log_oldest = oldest_age now (map pl_since ls),
          jg_capacity = jb_max_entries jb\<rparr>)"

section \<open>Sequences of arrivals\<close>

datatype arrival = Arr_Block u64 hash32 "hash32 list" bytes instant | Arr_Logs u64 bytes instant

fun arr_height :: "arrival \<Rightarrow> u64" where
  "arr_height (Arr_Block h _ _ _ _) = h"
| "arr_height (Arr_Logs h _ _) = h"

fun join_feed ::
  "('s, 'd) engines \<Rightarrow> arrival \<Rightarrow> ('s, 'd) join_buffer \<Rightarrow>
     (storage_error + join_outcome) \<times> ('s, 'd) join_buffer" where
  "join_feed E (Arr_Block h hash txs b now) jb = on_block E h hash txs b now jb"
| "join_feed E (Arr_Logs h l now) jb = on_logs E h l now jb"

fun join_run ::
  "('s, 'd) engines \<Rightarrow> arrival list \<Rightarrow> ('s, 'd) join_buffer \<Rightarrow>
     (storage_error + join_outcome) list \<times> ('s, 'd) join_buffer" where
  "join_run E [] jb = ([], jb)"
| "join_run E (a # as) jb =
     (let (r, jb') = join_feed E a jb; (rs, jb'') = join_run E as jb' in (r # rs, jb''))"

section \<open>The pending halves\<close>

definition join_inv :: "('s, 'd) join_buffer \<Rightarrow> bool" where
  "join_inv jb \<longleftrightarrow> distinct (map fst (jb_pending jb)) \<and> length (jb_pending jb) \<le> jb_max_entries jb"

lemma map_of_pending_remove [simp]:
  "map_of (pending_remove h ps) k = (if k = h then None else map_of ps k)"
  by (induction ps) (auto simp: pending_remove_def)

lemma distinct_pending_remove [simp]:
  "distinct (map fst ps) \<Longrightarrow> distinct (map fst (pending_remove h ps))"
  by (simp add: pending_remove_def distinct_map_filter)

lemma notin_pending_remove [simp]: "h \<notin> fst ` set (pending_remove h ps)"
  by (auto simp: pending_remove_def)

lemma length_pending_remove: "length (pending_remove h ps) \<le> length ps"
  by (simp add: pending_remove_def)

lemma length_pending_remove_less: "map_of ps h = Some p \<Longrightarrow> length (pending_remove h ps) < length ps"
  unfolding pending_remove_def by (rule length_filter_less [of "(h, p)"]) (auto dest: map_of_SomeD)

lemma pending_remove_absent: "map_of ps h = None \<Longrightarrow> pending_remove h ps = ps"
  by (auto simp: pending_remove_def filter_id_conv map_of_eq_None_iff)

lemma join_apply_pending [simp]:
  "jb_pending (snd (join_apply E h act jb)) = jb_pending jb"
  "jb_max_entries (snd (join_apply E h act jb)) = jb_max_entries jb"
  by (cases act; auto split: prod.splits sum.splits)+

lemma feed_max [simp]: "jb_max_entries (snd (join_feed E a jb)) = jb_max_entries jb"
  by (cases a) (auto simp: on_block_def on_logs_def case_prod_beta Let_def)

text \<open>The decision taken for an arrival, independently of the store.\<close>

fun decide :: "usize \<Rightarrow> arrival \<Rightarrow> pending_map \<Rightarrow> write_act \<times> pending_map" where
  "decide m (Arr_Block h hash txs b now) ps = decide_block m h hash txs b now ps"
| "decide m (Arr_Logs h l now) ps = decide_logs m h l now ps"

lemma join_feed_decide:
  "join_feed E a jb = (let (act, ps) = decide (jb_max_entries jb) a (jb_pending jb)
     in join_apply E (arr_height a) act (jb\<lparr>jb_pending := ps\<rparr>))"
  by (cases a) (simp_all add: on_block_def on_logs_def)

lemma feed_pending:
  "jb_pending (snd (join_feed E a jb)) = snd (decide (jb_max_entries jb) a (jb_pending jb))"
  by (simp add: join_feed_decide case_prod_beta Let_def)

text \<open>
  The lock is released between the two: a decision looks at the pending halves alone, carrying it out
  touches the store alone. So when another arrival is decided in between, the outcome is that of taking the
  two one after the other.
\<close>

lemma decide_apply_commute:
  assumes "join_apply E h act jb = (r, jb1)"
  shows "decide (jb_max_entries jb1) a (jb_pending jb1) = decide (jb_max_entries jb) a (jb_pending jb)"
    "join_apply E h act (jb\<lparr>jb_pending := ps\<rparr>) = (r, jb1\<lparr>jb_pending := ps\<rparr>)"
  using assms by (cases act; auto split: prod.splits sum.splits)+

text \<open>
  A reader in between finds a block that the arrival of its logs completes neither in the buffer nor, when the height
  is new, in the store.
\<close>

lemma completing_block_in_neither:
  assumes "buffered_block jb h = Some b" "decide (jb_max_entries jb) (Arr_Logs h l now) (jb_pending jb) = (act, ps)"
  shows "buffered_block (jb\<lparr>jb_pending := ps\<rparr>) h = None \<and> jb_storage (jb\<lparr>jb_pending := ps\<rparr>) = jb_storage jb"
  using assms by (auto simp: buffered_block_def decide_logs_def Let_def split: option.splits pending.splits)

lemmas decide_defs = decide_block_def decide_logs_def Let_def

text \<open>A first half is buffered, or the cap is hit and the buffer is flushed.\<close>

lemma decide_first:
  assumes "map_of ps (arr_height a) = None"
  shows "decide m a ps =
    (if m \<le> length ps then (Act_Deferred, [])
     else (Act_Buffered, (arr_height a, case a of
         Arr_Block h hash txs b now \<Rightarrow>
           Pending_Block \<lparr>pb_hash = hash, pb_tx_hashes = txs, pb_bytes = b, pb_since = now\<rparr>
       | Arr_Logs h l now \<Rightarrow> Pending_Logs \<lparr>pl_bytes = l, pl_since = now\<rparr>) # ps))"
  using assms by (cases a) (auto simp: decide_defs pending_remove_absent)

lemma decide_keeps_inv:
  assumes "distinct (map fst ps)" "length ps \<le> m" "decide m a ps = (act, ps')"
  shows "distinct (map fst ps') \<and> length ps' \<le> m"
proof (cases "map_of ps (arr_height a)")
  case None
  then have "arr_height a \<notin> fst ` set ps" by (simp add: map_of_eq_None_iff)
  with decide_first [OF None, of m] assms show ?thesis by (auto split: if_splits)
next
  case (Some p)
  from length_pending_remove_less [OF Some] have l: "length (pending_remove (arr_height a) ps) < length ps" .
  have "distinct (map fst (pending_remove (arr_height a) ps))" using assms(1) by simp
  with l Some assms(2,3) show ?thesis by (cases a; cases p) (auto simp: decide_defs)
qed

lemma join_feed_inv: "join_inv jb \<Longrightarrow> join_inv (snd (join_feed E a jb))"
  using decide_keeps_inv [of "jb_pending jb" "jb_max_entries jb" a]
  by (auto simp: join_inv_def feed_pending prod_eq_iff)

lemma join_run_inv: "join_inv jb \<Longrightarrow> join_inv (snd (join_run E as jb))"
proof (induction as arbitrary: jb)
  case (Cons a as)
  from Cons.IH [OF join_feed_inv [OF Cons.prems, of E a]] show ?case
    by (simp add: case_prod_beta Let_def)
qed simp

lemma deferred_iff: "fst (join_feed E a jb) = Inr Deferred \<longleftrightarrow> fst (decide (jb_max_entries jb) a (jb_pending jb)) = Act_Deferred"
  by (cases "fst (decide (jb_max_entries jb) a (jb_pending jb))")
    (auto simp: join_feed_decide case_prod_beta Let_def split: prod.splits sum.splits)

text \<open>Arrivals for other heights that do not overflow leave a pending half alone.\<close>

lemma decide_other:
  assumes "arr_height a \<noteq> h" "fst (decide m a ps) \<noteq> Act_Deferred"
  shows "map_of (snd (decide m a ps)) h = map_of ps h"
  using assms by (cases a) (auto simp: decide_defs split: option.splits pending.splits if_splits)

lemma feed_other:
  assumes "arr_height a \<noteq> h" "fst (join_feed E a jb) \<noteq> Inr Deferred"
  shows "map_of (jb_pending (snd (join_feed E a jb))) h = map_of (jb_pending jb) h"
  using decide_other [OF assms(1)] assms(2) by (simp add: feed_pending deferred_iff)

lemma run_other:
  assumes "\<forall>a\<in>set as. arr_height a \<noteq> h" "Inr Deferred \<notin> set (fst (join_run E as jb))"
  shows "map_of (jb_pending (snd (join_run E as jb))) h = map_of (jb_pending jb) h"
  using assms
proof (induction as arbitrary: jb)
  case (Cons a as)
  then show ?case using feed_other [of a h E jb] Cons.IH [of "snd (join_feed E a jb)"]
    by (simp add: case_prod_beta Let_def) metis
qed simp

lemma deferred_flushes:
  assumes "fst (join_feed E a jb) = Inr Deferred"
  shows "jb_pending (snd (join_feed E a jb)) = []" "length (jb_pending jb) \<ge> jb_max_entries jb"
    "jb_storage (snd (join_feed E a jb)) = jb_storage jb" "map_of (jb_pending jb) (arr_height a) = None"
proof -
  have d: "fst (decide (jb_max_entries jb) a (jb_pending jb)) = Act_Deferred"
    using assms by (simp add: deferred_iff)
  show n: "map_of (jb_pending jb) (arr_height a) = None"
  proof (rule ccontr)
    assume "map_of (jb_pending jb) (arr_height a) \<noteq> None"
    then obtain p where "map_of (jb_pending jb) (arr_height a) = Some p" by blast
    with d show False by (cases a; cases p) (auto simp: decide_defs)
  qed
  show "jb_pending (snd (join_feed E a jb)) = []" "length (jb_pending jb) \<ge> jb_max_entries jb"
    using d decide_first [OF n] by (auto simp: feed_pending split: if_splits)
  show "jb_storage (snd (join_feed E a jb)) = jb_storage jb"
    using d by (simp add: join_feed_decide case_prod_beta Let_def)
qed

text \<open>The buffer writes only through \<open>put\<close>.\<close>

context put_guard
begin

lemma join_feed_keeps:
  assumes "G (jb_storage jb)"
  shows "G (jb_storage (snd (join_feed E a jb)))"
proof (cases "fst (decide (jb_max_entries jb) a (jb_pending jb))")
  case (Act_Write hash txs b l hf since)
  obtain r st' where p: "put E (arr_height a) hash txs [b, l] (jb_storage jb) = (r, st')"
    by (cases "put E (arr_height a) hash txs [b, l] (jb_storage jb)")
  with Act_Write put_keeps [OF assms p] show ?thesis
    by (cases r) (simp_all add: join_feed_decide case_prod_beta Let_def)
qed (use assms in \<open>simp_all add: join_feed_decide case_prod_beta Let_def\<close>)

end

section \<open>Provenance of what is written\<close>

text \<open>Every pending half was fed, and so was every pair that is written.\<close>

fun half_fed :: "arrival set \<Rightarrow> u64 \<times> pending \<Rightarrow> bool" where
  "half_fed A (h, Pending_Block b) = (\<exists>t. Arr_Block h (pb_hash b) (pb_tx_hashes b) (pb_bytes b) t \<in> A)"
| "half_fed A (h, Pending_Logs l) = (\<exists>t. Arr_Logs h (pl_bytes l) t \<in> A)"

definition pair_fed :: "arrival set \<Rightarrow> u64 \<Rightarrow> hash32 \<Rightarrow> hash32 list \<Rightarrow> bytes \<Rightarrow> bytes \<Rightarrow> bool" where
  "pair_fed A h hash txs b l \<longleftrightarrow> (\<exists>t. Arr_Block h hash txs b t \<in> A) \<and> (\<exists>t. Arr_Logs h l t \<in> A)"

lemma half_fed_mono: "half_fed A hp \<Longrightarrow> A \<subseteq> B \<Longrightarrow> half_fed B hp"
  by (cases "(A, hp)" rule: half_fed.cases) auto

lemma pair_fed_mono: "pair_fed A h hash txs b l \<Longrightarrow> A \<subseteq> B \<Longrightarrow> pair_fed B h hash txs b l"
  by (auto simp: pair_fed_def)

lemma fed_pending_remove: "\<forall>hp\<in>set ps. half_fed A hp \<Longrightarrow> \<forall>hp\<in>set (pending_remove h ps). half_fed A hp"
  by (auto simp: pending_remove_def)

lemma decide_fed:
  assumes "\<forall>hp\<in>set ps. half_fed A hp" "a \<in> A" "decide m a ps = (act, ps')"
  shows "(\<forall>hp\<in>set ps'. half_fed A hp) \<and>
    (\<forall>hash txs b l f t. act = Act_Write hash txs b l f t \<longrightarrow> pair_fed A (arr_height a) hash txs b l)"
proof (cases "map_of ps (arr_height a)")
  case None
  from decide_first [OF None, of m] assms show ?thesis
    by (cases a) (auto split: if_splits, blast+)
next
  case (Some p)
  then have "half_fed A (arr_height a, p)" using assms(1) by (auto dest: map_of_SomeD)
  with fed_pending_remove [OF assms(1), of "arr_height a"] Some assms(2,3) show ?thesis
    by (cases a; cases p) (auto simp: decide_defs pair_fed_def, blast+)
qed

context storage_engine
begin

lemma join_feed_store:
  assumes "storage_wf wf (jb_storage jb)" "\<forall>hp\<in>set (jb_pending jb). half_fed A hp" "a \<in> A"
    and "join_feed E a jb = (r, jb')"
  shows "storage_wf wf (jb_storage jb')" "\<forall>hp\<in>set (jb_pending jb'). half_fed A hp"
    "stored content (jb_storage jb') = stored content (jb_storage jb) \<or>
     (\<exists>hash txs b l. pair_fed A (arr_height a) hash txs b l \<and>
       stored content (jb_storage jb') = (stored content (jb_storage jb))(arr_height a \<mapsto> encode [b, l]))"
proof -
  obtain act ps where d: "decide (jb_max_entries jb) a (jb_pending jb) = (act, ps)"
    by (cases "decide (jb_max_entries jb) a (jb_pending jb)")
  note fed = decide_fed [OF assms(2,3) d]
  have f: "join_apply E (arr_height a) act (jb\<lparr>jb_pending := ps\<rparr>) = (r, jb')"
    using assms(4) d by (simp add: join_feed_decide)
  have "jb_pending jb' = ps" using f join_apply_pending(1) by (metis join_buffer.select_convs(3)
        join_buffer.surjective join_buffer.update_convs(3) snd_conv)
  then show "\<forall>hp\<in>set (jb_pending jb'). half_fed A hp" using fed by simp
  have "storage_wf wf (jb_storage jb') \<and>
    (stored content (jb_storage jb') = stored content (jb_storage jb) \<or>
     (\<exists>hash txs b l. pair_fed A (arr_height a) hash txs b l \<and>
       stored content (jb_storage jb') = (stored content (jb_storage jb))(arr_height a \<mapsto> encode [b, l])))"
  proof (cases act)
    case (Act_Write hash txs b l fst_half t)
    obtain q st where p: "put E (arr_height a) hash txs [b, l] (jb_storage jb) = (q, st)"
      by (cases "put E (arr_height a) hash txs [b, l] (jb_storage jb)")
    have st: "jb_storage jb' = st"
      using f p Act_Write by (cases q) auto
    have pf: "pair_fed A (arr_height a) hash txs b l" using fed Act_Write by simp
    note o = put_outcome [OF assms(1) p]
    have "stored content st = stored content (jb_storage jb) \<or>
      stored content st = (stored content (jb_storage jb))(arr_height a \<mapsto> encode [b, l])"
      using o by (auto split: sum.splits storage_error.splits)
    with pf st o show ?thesis by auto
  qed (use f assms(1) in auto)
  then show "storage_wf wf (jb_storage jb')"
    "stored content (jb_storage jb') = stored content (jb_storage jb) \<or>
     (\<exists>hash txs b l. pair_fed A (arr_height a) hash txs b l \<and>
       stored content (jb_storage jb') = (stored content (jb_storage jb))(arr_height a \<mapsto> encode [b, l]))"
    by blast+
qed

lemma join_run_store:
  assumes "storage_wf wf (jb_storage jb)" "\<forall>hp\<in>set (jb_pending jb). half_fed A hp" "set as \<subseteq> A"
    and "stored content (jb_storage (snd (join_run E as jb))) h = Some rec"
  shows "stored content (jb_storage jb) h = Some rec \<or>
    (\<exists>hash txs b l. pair_fed A h hash txs b l \<and> rec = encode [b, l])"
  using assms
proof (induction as arbitrary: jb)
  case (Cons a as)
  obtain r jb' where f: "join_feed E a jb = (r, jb')" by (cases "join_feed E a jb")
  have "a \<in> A" "set as \<subseteq> A" using Cons.prems(3) by auto
  note F = join_feed_store [OF Cons.prems(1,2) this(1) f]
  have "stored content (jb_storage (snd (join_run E as jb'))) h = Some rec"
    using Cons.prems(4) f by (simp add: case_prod_beta Let_def)
  from Cons.IH [OF F(1,2) \<open>set as \<subseteq> A\<close> this] F(3) show ?case
    by (elim disjE exE conjE) (auto split: if_splits)
qed simp

end

section \<open>Guarantees of the buffer\<close>

lemma run_append:
  "join_run E (as @ bs) jb =
     (let (rs, jb') = join_run E as jb; (ss, jb'') = join_run E bs jb' in (rs @ ss, jb''))"
  by (induction as arbitrary: jb) (auto simp: Let_def case_prod_beta)

text \<open>
  C3. A pair completes whichever half arrives first. If nothing is pending for a height, one
  half arrives, then any arrivals for other heights, none of them overflowing the buffer,
  and then the other half, the first is buffered and the second writes exactly the
  pair of both, under the block's hash and transactions, and leaves nothing pending for the
  height.
\<close>

theorem join_completes_pair:
  assumes "map_of (jb_pending jb) h = None"
    and "(ax, ay) = (Arr_Block h hash txs b t1, Arr_Logs h l t2) \<or>
         (ax, ay) = (Arr_Logs h l t1, Arr_Block h hash txs b t2)"
    and "\<forall>a\<in>set as. arr_height a \<noteq> h"
    and "Inr Deferred \<notin> set (fst (join_run E (ax # as) jb))"
    and "jb2 = snd (join_run E (ax # as) jb)"
  shows "fst (join_feed E ax jb) = Inr Buffered \<and>
    join_feed E ay jb2 =
      (case put E h hash txs [b, l] (jb_storage jb2) of
         (r, st) \<Rightarrow> (and_then r (\<lambda>_. Inr Completed),
           jb2\<lparr>jb_storage := st, jb_pending := pending_remove h (jb_pending jb2)\<rparr>))"
proof -
  let ?jbx = "snd (join_feed E ax jb)"
  have h: "arr_height ax = h" using assms(2) by auto
  have nd: "fst (join_feed E ax jb) \<noteq> Inr Deferred" "Inr Deferred \<notin> set (fst (join_run E as ?jbx))"
    using assms(4) by (auto simp: case_prod_beta Let_def)
  have d: "decide (jb_max_entries jb) ax (jb_pending jb) = (Act_Buffered, (h, case ax of
         Arr_Block h hash txs b now \<Rightarrow>
           Pending_Block \<lparr>pb_hash = hash, pb_tx_hashes = txs, pb_bytes = b, pb_since = now\<rparr>
       | Arr_Logs h l now \<Rightarrow> Pending_Logs \<lparr>pl_bytes = l, pl_since = now\<rparr>) # jb_pending jb)"
    using nd(1) decide_first [of "jb_pending jb" ax "jb_max_entries jb"] h assms(1)
    by (simp add: deferred_iff split: if_splits)
  have b1: "fst (join_feed E ax jb) = Inr Buffered"
    by (simp add: join_feed_decide d)
  have "map_of (jb_pending jb2) h = map_of (jb_pending ?jbx) h"
    using run_other [OF assms(3) nd(2)] assms(5) by (simp add: case_prod_beta Let_def)
  also have "\<dots> = Some (case ax of
         Arr_Block h hash txs b now \<Rightarrow>
           Pending_Block \<lparr>pb_hash = hash, pb_tx_hashes = txs, pb_bytes = b, pb_since = now\<rparr>
       | Arr_Logs h l now \<Rightarrow> Pending_Logs \<lparr>pl_bytes = l, pl_since = now\<rparr>)"
    by (simp add: feed_pending d)
  finally have p: "map_of (jb_pending jb2) h = \<dots>" .
  obtain q st where put: "put E h hash txs [b, l] (jb_storage jb2) = (q, st)"
    by (cases "put E h hash txs [b, l] (jb_storage jb2)")
  show ?thesis
    using b1 assms(2) p put by (cases q) (auto simp: on_block_def on_logs_def decide_defs)
qed

theorem join_completes_pair_witness:
  "let jb = join_new (mem_fresh Chain_C) 4;
       jb2 = snd (join_run mem_engines [Arr_Logs 7 ''[]'' 1, Arr_Logs 8 ''[]'' 2] jb)
   in fst (join_feed mem_engines (Arr_Block 7 ''hash'' [] ''{}'' 3) jb2) =
        and_then (fst (put mem_engines 7 ''hash'' [] [''{}'', ''[]''] (jb_storage jb2))) (\<lambda>_. Inr Completed)"
proof -
  let ?jb = "join_new (mem_fresh Chain_C) 4"
  have "Inr Deferred \<notin> set (fst (join_run mem_engines [Arr_Logs 7 ''[]'' 1, Arr_Logs 8 ''[]'' 2] ?jb))"
    by (simp add: on_logs_def decide_defs join_new_def pending_remove_def)
  with join_completes_pair [where jb = ?jb and h = 7 and as = "[Arr_Logs 8 ''[]'' 2]"
      and ax = "Arr_Logs 7 ''[]'' 1" and ay = "Arr_Block 7 ''hash'' [] ''{}'' 3" and E = mem_engines
      and hash = "''hash''" and txs = "[]" and b = "''{}''" and l = "''[]''"]
  show ?thesis by (simp add: join_new_def Let_def case_prod_beta del: join_feed.simps)
qed

text \<open>
  C21. The store only ever receives complete pairs. After any sequence of arrivals fed to a
  fresh buffer, with any storage failures, a record of the store is either one that was
  there before or the encoding of a block half and a logs half that were both fed for that
  very height.
\<close>

theorem join_writes_only_fed_pairs:
  assumes "storage_engine E content ok view" "storage_wf ok st"
    and "stored content (jb_storage (snd (join_run E as (join_new st m)))) h = Some rec"
  shows "stored content st h = Some rec \<or>
    (\<exists>hash txs b l. rec = encode [b, l] \<and>
       (\<exists>t. Arr_Block h hash txs b t \<in> set as) \<and> (\<exists>t. Arr_Logs h l t \<in> set as))"
proof -
  have "stored content st h = Some rec \<or> (\<exists>hash txs b l. pair_fed (set as) h hash txs b l \<and> rec = encode [b, l])"
    using storage_engine.join_run_store [OF assms(1), of "join_new st m" "set as" as h rec] assms(2,3)
    by (simp add: join_new_def)
  then show ?thesis unfolding pair_fed_def by blast
qed

theorem join_writes_only_fed_pairs_witness:
  "\<exists>rec. stored mem_content (jb_storage (snd (join_run mem_engines
       [Arr_Logs 7 ''[]'' 1, Arr_Block 7 ''hash'' [] ''{}'' 3] (join_new (mem_fresh Chain_C) 4)))) 7 = Some rec \<and>
     (\<exists>b l. rec = encode [b, l])"
proof -
  let ?as = "[Arr_Logs 7 ''[]'' 1, Arr_Block 7 ''hash'' [] ''{}'' 3]"
  obtain rec where r: "stored mem_content (jb_storage (snd (join_run mem_engines ?as (join_new (mem_fresh Chain_C) 4)))) 7 = Some rec"
    by (simp add: on_logs_def on_block_def decide_defs join_new_def pending_remove_def put_def
        put_record_def put_index_def and_step_def mem_engines_def mem_blockstore_def mem_fjall_def
        mem_fresh_def put_floor_def stored_def mem_content_def)
  with join_writes_only_fed_pairs [OF mem.storage_engine_axioms mem_fresh_wf r]
  show ?thesis by (auto simp: mem_fresh_def stored_def)
qed

text \<open>
  C22. Memory is bounded and the buffer cannot wedge. After any sequence of arrivals a fresh
  buffer holds at most one half per height and at most \<open>max_entries\<close> halves; when an arrival
  is deferred the whole buffer is empty afterwards and the store is untouched, so with a
  positive cap the next arrival is not deferred.
\<close>

theorem join_bounded_never_wedged:
  assumes "jb = snd (join_run E as (join_new st m))"
  shows "distinct (map fst (jb_pending jb)) \<and> length (jb_pending jb) \<le> m \<and>
    (fst (join_feed E a jb) = Inr Deferred \<longrightarrow>
       jb_pending (snd (join_feed E a jb)) = [] \<and>
       jb_storage (snd (join_feed E a jb)) = jb_storage jb \<and>
       (0 < m \<longrightarrow> fst (join_feed E a' (snd (join_feed E a jb))) \<noteq> Inr Deferred))"
proof -
  have "join_inv (join_new st m)" by (simp add: join_inv_def join_new_def)
  from join_run_inv [OF this, of E as] have i: "join_inv jb" using assms by simp
  have "jb_max_entries (snd (join_run E as jb0)) = jb_max_entries jb0" for jb0
    by (induction as arbitrary: jb0) (simp_all add: case_prod_beta Let_def)
  then have m: "jb_max_entries jb = m" using assms by (simp add: join_new_def)
  show ?thesis
    using i m deferred_flushes [of E a jb] deferred_flushes(2) [of E a' "snd (join_feed E a jb)"]
    by (auto simp: join_inv_def)
qed

theorem join_bounded_never_wedged_witness:
  "let jb = snd (join_run mem_engines [Arr_Logs 7 ''[]'' 1] (join_new (mem_fresh Chain_C) 1))
   in fst (join_feed mem_engines (Arr_Logs 8 ''[]'' 2) jb) = Inr Deferred \<and>
      jb_pending (snd (join_feed mem_engines (Arr_Logs 8 ''[]'' 2) jb)) = []"
proof -
  let ?jb = "snd (join_run mem_engines [Arr_Logs 7 ''[]'' 1] (join_new (mem_fresh Chain_C) 1))"
  have "fst (join_feed mem_engines (Arr_Logs 8 ''[]'' 2) ?jb) = Inr Deferred"
    by (simp add: on_logs_def decide_defs join_new_def pending_remove_def)
  with join_bounded_never_wedged [OF refl, of mem_engines "[Arr_Logs 7 ''[]'' 1]" "mem_fresh Chain_C" 1
      "Arr_Logs 8 ''[]'' 2"]
  show ?thesis by (simp add: Let_def del: join_feed.simps join_run.simps)
qed

lemma join_sample_counts:
  "jg_block_count (join_sample now jb) + jg_log_count (join_sample now jb) = length (jb_pending jb)"
proof -
  have "length (pending_blocks ps) + length (pending_logs_of ps) = length ps" for ps
    by (induction ps) (auto simp: pending_blocks_def pending_logs_of_def List.map_filter_simps split: pending.splits)
  then show ?thesis by (simp add: join_sample_def Let_def)
qed

end
