(* ===== verification/Subscribe.thy ===== *)
theory Subscribe
  imports Storage_Guarantees
begin

text \<open>
  Subscriptions (\<open>subscribe.rs\<close>): the kinds and their spellings, the admission checks of
  \<open>serve\<close> and \<open>serve_range\<close>, the projection of a live update, the live forwarding loop, and
  the replay of a stored range.

  A replay reads the store once per pass while ingestion goes on, so the loop takes the
  sequence of stores it sees, and which sends succeed; it is given fuel, and the guarantee
  says which fuel is enough. The main result is that an admitted range is sent completely,
  in order and without a gap.
\<close>

section \<open>Kinds\<close>

record live_update =
  lu_block :: json
  lu_record :: "json option"

datatype sub_kind = NewHeads | NewBlocks | NewRecords | OldBlocks | OldRecords

definition from_wire :: "string \<Rightarrow> sub_kind option" where
  "from_wire s =
     (if s = ''newHeads'' then Some NewHeads
      else if s = ''newBlocks'' then Some NewBlocks
      else if s = ''newRecords'' then Some NewRecords
      else if s = ''oldBlocks'' then Some OldBlocks
      else if s = ''oldRecords'' then Some OldRecords
      else None)"

fun kind_as_str :: "sub_kind \<Rightarrow> string" where
  "kind_as_str NewHeads = ''newHeads''"
| "kind_as_str NewBlocks = ''newBlocks''"
| "kind_as_str NewRecords = ''newRecords''"
| "kind_as_str OldBlocks = ''oldBlocks''"
| "kind_as_str OldRecords = ''oldRecords''"

definition is_live :: "sub_kind \<Rightarrow> bool" where
  "is_live k \<longleftrightarrow> k \<in> {NewHeads, NewBlocks, NewRecords}"

definition wants_record :: "sub_kind \<Rightarrow> bool" where
  "wants_record k \<longleftrightarrow> k \<in> {NewRecords, OldRecords}"

definition strips_transactions :: "sub_kind \<Rightarrow> bool" where
  "strips_transactions k \<longleftrightarrow> k = NewHeads"

record sub_request =
  sr_kind :: sub_kind
  sr_from :: "u64 option"
  sr_to :: "u64 option"

section \<open>Live forwarding\<close>

fun remove_member :: "string \<Rightarrow> json \<Rightarrow> json" where
  "remove_member k (JObj kvs) = JObj (obj_remove k kvs)"
| "remove_member k v = v"

definition project :: "live_update \<Rightarrow> sub_kind \<Rightarrow> json option" where
  "project u k =
     (if wants_record k then lu_record u
      else Some (if strips_transactions k then remove_member ''transactions'' (lu_block u) else lu_block u))"

datatype live_recv = Recv_update live_update | Recv_lagged nat | Recv_closed | Client_closed

datatype live_end = Live_closed | Live_serialize_error | Live_send_failed | Live_open

text \<open>
  The select loop over what arrives, with the result of each send in turn: the messages
  delivered, and how the loop ended (\<open>Live_open\<close> when it is still waiting).
\<close>

fun live_loop :: "serde \<Rightarrow> sub_kind \<Rightarrow> (nat \<Rightarrow> bool) \<Rightarrow> nat \<Rightarrow> live_recv list \<Rightarrow> bytes list \<times> live_end" where
  "live_loop S k send_ok n [] = ([], Live_open)"
| "live_loop S k send_ok n (Client_closed # rs) = ([], Live_closed)"
| "live_loop S k send_ok n (Recv_closed # rs) = ([], Live_closed)"
| "live_loop S k send_ok n (Recv_lagged m # rs) = live_loop S k send_ok n rs"
| "live_loop S k send_ok n (Recv_update u # rs) =
     (case project u k of
        None \<Rightarrow> live_loop S k send_ok n rs
      | Some payload \<Rightarrow>
          (case to_vec S payload of
             None \<Rightarrow> ([], Live_serialize_error)
           | Some msg \<Rightarrow>
               if \<not> send_ok n then ([], Live_send_failed)
               else let (ms, e) = live_loop S k send_ok (Suc n) rs in (msg # ms, e)))"

section \<open>Admission\<close>

datatype sub_reply =
    Rej_kind sub_kind chain
  | Rej_no_live_records chain
  | Rej_no_from sub_kind
  | Rej_empty
  | Rej_before_earliest u64 u64
  | Rej_end_before_start u64 u64
  | Rej_beyond_tip u64 u64
  | Serve_live sub_kind
  | Serve_range sub_kind u64 "u64 option"

definition admit_range ::
  "('s, 'd) engines \<Rightarrow> ('s, 'd) storage \<Rightarrow> sub_kind \<Rightarrow> u64 option \<Rightarrow> u64 option \<Rightarrow> sub_reply" where
  "admit_range E st k from to =
     (case from of
        None \<Rightarrow> Rej_no_from k
      | Some start \<Rightarrow>
          let mn = min_height E st; contig = max_contiguous_height E st in
          if is_empty st then Rej_empty
          else if start < mn then Rej_before_earliest start mn
          else (case to of
              None \<Rightarrow> Serve_range k start None
            | Some e \<Rightarrow>
                if e < start then Rej_end_before_start e start
                else if e > contig then Rej_beyond_tip e contig
                else Serve_range k start (Some e)))"

definition serve_sub ::
  "('s, 'd) engines \<Rightarrow> chain \<Rightarrow> ('s, 'd) storage \<Rightarrow> sub_request \<Rightarrow> sub_kind list \<Rightarrow> sub_reply" where
  "serve_sub E c st req allowed =
     (let k = sr_kind req in
      if k \<notin> set allowed then Rej_kind k c
      else if k = NewRecords \<and> \<not> publishes_live_records c then Rej_no_live_records c
      else if is_live k then Serve_live k
      else admit_range E st k (sr_from req) (sr_to req))"

section \<open>Replay\<close>

datatype range_end = Caught_up | Hole u64 | Read_failed u64 | Bad_bytes u64 | Send_failed u64

definition range_stored ::
  "('s, 'd) engines \<Rightarrow> ('s, 'd) storage \<Rightarrow> bool \<Rightarrow> u64 \<Rightarrow> storage_error + bytes option" where
  "range_stored E st whole_record h =
     (if whole_record then get_record E st h else deref_view (get_by_height E st h))"

text \<open>\<open>String::from_utf8\<close> and \<open>RawValue::from_string\<close>.\<close>

definition range_message :: "serde \<Rightarrow> bytes \<Rightarrow> bytes option" where
  "range_message S b = (if utf8_valid b then map_option (slice_of b) (raw_value S b) else None)"

fun range_loop ::
  "nat \<Rightarrow> ('s, 'd) engines \<Rightarrow> sub_kind \<Rightarrow> u64 option \<Rightarrow> (nat \<Rightarrow> ('s, 'd) storage) \<Rightarrow> (nat \<Rightarrow> bool) \<Rightarrow>
     nat \<Rightarrow> u64 \<Rightarrow> (bytes list \<times> range_end) option" where
  "range_loop 0 E k to sts send_ok n h = None"
| "range_loop (Suc fuel) E k to sts send_ok n h =
     (let st = sts n;
          target = (case to of Some e \<Rightarrow> e | None \<Rightarrow> max_contiguous_height E st)
      in if h > target then Some ([], Caught_up)
         else case range_stored E st (wants_record k) h of
           Inl e \<Rightarrow> Some ([], Read_failed h)
         | Inr None \<Rightarrow> Some ([], Hole h)
         | Inr (Some b) \<Rightarrow>
             (case range_message (en_ser E) b of
                None \<Rightarrow> Some ([], Bad_bytes h)
              | Some msg \<Rightarrow>
                  if \<not> send_ok n then Some ([], Send_failed h)
                  else map_option (\<lambda>(ms, e). (msg # ms, e))
                         (range_loop fuel E k to sts send_ok (Suc n) (sat_add h 1))))"

section \<open>Lemmas\<close>

lemma from_wire_as_str: "from_wire (kind_as_str k) = Some k"
  by (cases k) (simp_all add: from_wire_def)

lemma from_wire_Some: "from_wire s = Some k \<Longrightarrow> kind_as_str k = s"
  by (auto simp: from_wire_def split: if_splits)

lemma project_newHeads:
  "project u NewHeads = Some b \<Longrightarrow> jget b k = (if k = ''transactions'' then None else jget (lu_block u) k)"
  by (cases "lu_block u") (auto simp: project_def wants_record_def strips_transactions_def map_of_obj_remove)

text \<open>What a height must hold for a replay of a kind to deliver it.\<close>

definition replay_item :: "serde \<Rightarrow> sub_kind \<Rightarrow> (u64 \<rightharpoonup> bytes) \<Rightarrow> u64 \<Rightarrow> bytes option" where
  "replay_item S k m h =
     (if wants_record k then spec_record m h
      else case spec_element S m h BLOCK of Inr (Some b) \<Rightarrow> Some b | _ \<Rightarrow> None)"

definition sendable :: "serde \<Rightarrow> bytes \<Rightarrow> bool" where
  "sendable S b \<longleftrightarrow> utf8_valid b \<and> tight S b"

lemma range_message_sendable: "sendable S b \<Longrightarrow> range_message S b = Some b"
  by (simp add: sendable_def tight_def range_message_def slice_of_def)

context healthy_engine
begin

lemma range_stored_item:
  assumes "storage_wf wf st" "replay_item (en_ser E) k (stored content st) h = Some b"
  shows "range_stored E st (wants_record k) h = Inr (Some b)"
  using assms get_record_total [OF assms(1), of h] get_element_total [OF assms(1), of h BLOCK]
  by (auto simp: range_stored_def replay_item_def get_by_height_def split: if_splits sum.splits option.splits)

lemma range_loop_fixed:
  assumes "\<And>n. storage_wf wf (sts n)" "\<And>n. send_ok n"
    and "\<And>n h. start \<le> h \<Longrightarrow> h \<le> e \<Longrightarrow>
       replay_item (en_ser E) k (stored content (sts n)) h = Some (item h) \<and> sendable (en_ser E) (item h)"
    and "e < u64_max" "start \<le> Suc e" "Suc e - start < fuel"
  shows "range_loop fuel E k (Some e) sts send_ok n start = Some (map item (heights start e), Caught_up)"
  using assms
proof (induction fuel arbitrary: start n)
  case (Suc fuel)
  show ?case
  proof (cases "start \<le> e")
    case False
    then show ?thesis by (simp add: heights_empty)
  next
    case True
    have r: "range_stored E (sts n) (wants_record k) start = Inr (Some (item start))"
      by (rule range_stored_item) (use Suc.prems(1,3) True in auto)
    have m: "range_message (en_ser E) (item start) = Some (item start)"
      using Suc.prems(3) [of start] True by (auto intro: range_message_sendable)
    have s: "sat_add start 1 = Suc start" using True Suc.prems(4) by (simp add: sat_add_def)
    have "range_loop fuel E k (Some e) sts send_ok (Suc n) (Suc start) =
        Some (map item (heights (Suc start) e), Caught_up)"
      by (rule Suc.IH) (use Suc.prems True in auto)
    with True r m s Suc.prems(2) [of n] show ?thesis by (simp add: heights_Cons)
  qed
qed simp

text \<open>
  Nothing is missing between the minimum and the contiguous height of a store. Only a range that
  starts at 0 needs to know that its minimum is there: a store created at 0 whose height 0 is missing
  reports the contiguous height 0 as well.
\<close>

lemma contiguous_present:
  assumes "storage_wf wf st" "0 < a \<or> stored content st (min_height E st) \<noteq> None"
    and "min_height E st \<le> a" "a \<le> h" "h \<le> max_contiguous_height E st"
  shows "stored content st h \<noteq> None"
proof (cases "st_store st")
  case None
  with assms(2,4,5) show ?thesis by (simp add: stored_def max_contiguous_height_def)
next
  case (Some s)
  with assms have "wf s" "0 < h \<or> content s (bs_min (en_bs E) s) \<noteq> None" "bs_min (en_bs E) s \<le> h" "h \<le> bs_contig (en_bs E) s"
    by (auto simp: storage_wf_def stored_def min_height_def max_contiguous_height_def)
  with contig_present [of s h] Some show ?thesis by (simp add: stored_def)
qed

lemma admitted_range_present:
  assumes "storage_wf wf st" "0 < start \<or> stored content st (min_height E st) \<noteq> None"
    and "admit_range E st k from (Some e) = Serve_range k start (Some e)" "start \<le> h" "h \<le> e"
  shows "stored content st h \<noteq> None"
  using assms(3-5)
  by (intro contiguous_present [OF assms(1,2)])
    (auto simp: admit_range_def Let_def split: option.splits if_splits)

end

section \<open>Guarantees\<close>

definition well_stored :: "serde \<Rightarrow> bytes \<Rightarrow> bool" where
  "well_stored S r \<longleftrightarrow> sendable S r \<and> (\<exists>es. r = encode es \<and> 2 \<le> length es \<and> list_all (sendable S) es)"

context serde_laws
begin

lemma well_stored_item:
  assumes "m h = Some r" "well_stored S r"
  shows "\<exists>b. replay_item S k m h = Some b \<and> sendable S b"
proof -
  from assms(2) obtain es where es: "r = encode es" "2 \<le> length es" "list_all (sendable S) es"
    by (auto simp: well_stored_def)
  have "list_all (tight S) es" using es(3) by (auto simp: list_all_iff sendable_def)
  moreover have "es \<noteq> []" using es(2) by auto
  ultimately have "element S r BLOCK = Inr (Some (es ! 0))"
    using es element_encode [of es BLOCK] by (simp add: get_nth_def BLOCK_def)
  moreover have "sendable S (es ! 0)" using es by (cases es) auto
  ultimately show ?thesis
    using assms es(1) by (auto simp: replay_item_def spec_record_def spec_element_def well_stored_def)
qed

end

text \<open>
  C10. An admitted replay is complete. While the store only gains records, a subscription to a
  stored range that was admitted, whose client keeps reading, is sent exactly one message
  per height from the start to the end, in order (the whole record, or the block, as the
  kind asks), and is then closed as caught up; no hole can be met.
\<close>

theorem range_replay_gapless:
  assumes "healthy_engine E content ok view" "\<forall>n. storage_wf ok (sts n)"
    and "\<forall>n. stored content (sts 0) \<subseteq>\<^sub>m stored content (sts n)"
    and "0 < start \<or> stored content (sts 0) (min_height E (sts 0)) \<noteq> None"
    and "admit_range E (sts 0) k (Some start) (Some e) = Serve_range k start (Some e)"
    and "\<forall>h r. stored content (sts 0) h = Some r \<longrightarrow> well_stored (en_ser E) r" "e < u64_max"
  shows "range_loop (Suc (Suc e - start)) E k (Some e) sts (\<lambda>_. True) 0 start =
     Some (map (\<lambda>h. the (replay_item (en_ser E) k (stored content (sts 0)) h)) (heights start e), Caught_up) \<and>
     length (heights start e) = Suc e - start \<and>
     (\<forall>h. start \<le> h \<and> h \<le> e \<longrightarrow> replay_item (en_ser E) k (stored content (sts 0)) h \<noteq> None)"
proof -
  have eng: "serde_laws (en_ser E)" using assms(1) by (simp add: healthy_engine_def storage_engine_def)
  have item: "replay_item (en_ser E) k (stored content (sts n)) h =
        Some (the (replay_item (en_ser E) k (stored content (sts 0)) h)) \<and>
      replay_item (en_ser E) k (stored content (sts 0)) h \<noteq> None \<and>
      sendable (en_ser E) (the (replay_item (en_ser E) k (stored content (sts 0)) h))"
    if H: "start \<le> h" "h \<le> e" for n h
  proof -
    obtain r where r: "stored content (sts 0) h = Some r"
      using healthy_engine.admitted_range_present [OF assms(1) spec [OF assms(2), of 0] assms(4,5) H] by blast
    then have rn: "stored content (sts n) h = Some r" using assms(3) by (auto simp: map_le_def dom_def)
    from serde_laws.well_stored_item [OF eng, of "stored content (sts 0)" h r k] assms(6) r
    obtain b where b: "replay_item (en_ser E) k (stored content (sts 0)) h = Some b" "sendable (en_ser E) b" by blast
    moreover have "replay_item (en_ser E) k (stored content (sts n)) h = replay_item (en_ser E) k (stored content (sts 0)) h"
      using r rn by (simp add: replay_item_def spec_record_def spec_element_def)
    ultimately show ?thesis by simp
  qed
  have se: "start \<le> e" using assms(5) by (auto simp: admit_range_def Let_def split: if_splits)
  have "range_loop (Suc (Suc e - start)) E k (Some e) sts (\<lambda>_. True) 0 start =
     Some (map (\<lambda>h. the (replay_item (en_ser E) k (stored content (sts 0)) h)) (heights start e), Caught_up)"
  proof (rule healthy_engine.range_loop_fixed [OF assms(1)])
    show "storage_wf ok (sts n)" for n using assms(2) by simp
    show "replay_item (en_ser E) k (stored content (sts n)) h =
        Some (the (replay_item (en_ser E) k (stored content (sts 0)) h)) \<and>
      sendable (en_ser E) (the (replay_item (en_ser E) k (stored content (sts 0)) h))"
      if "start \<le> h" "h \<le> e" for n h using item [OF that, of n] by (elim conjE) (intro conjI)
    show "e < u64_max" by (rule assms(7))
    show "start \<le> Suc e" using se by simp
  qed simp_all
  moreover have "\<forall>h. start \<le> h \<and> h \<le> e \<longrightarrow> replay_item (en_ser E) k (stored content (sts 0)) h \<noteq> None"
    using item by blast
  ultimately show ?thesis by (simp only: length_heights simp_thms)
qed

theorem range_replay_gapless_witness:
  "let st = mem_put 7 ''hash'' [] [''{}'', ''[]''] (mem_fresh Chain_C)
   in range_loop 2 mem_engines OldBlocks (Some 7) (\<lambda>_. st) (\<lambda>_. True) 0 7 = Some ([''{}''], Caught_up)"
proof -
  let ?es = "[''{}'', ''[]'']"
  let ?st = "mem_put 7 ''hash'' [] ?es (mem_fresh Chain_C)"
  have t: "tight ref_serde (encode ?es)" "utf8_valid (encode ?es)" "utf8_valid ''{}''" "utf8_valid ''[]''"
    by code_simp+
  note p = mem_put_first [of ?es Chain_C 7 "''hash''" "[]", simplified]
  note ok = mem.put_ok [OF mem_fresh_wf p]
  have s0: "stored mem_content ?st = [7 \<mapsto> encode ?es]"
    using ok(2) by (simp add: stored_def mem_fresh_def)
  have mn: "min_height mem_engines ?st = 7"
    using mem.put_first_floor [OF _ p] by (simp add: is_empty_def mem_fresh_def put_floor_def)
  have ws: "well_stored (en_ser mem_engines) (encode ?es)"
    using t tight_texts by (auto simp: well_stored_def sendable_def mem_engines_def intro!: exI [of _ ?es])
  have st: "st_store ?st \<noteq> None" using ok(5) .
  then obtain s where s: "st_store ?st = Some s" by blast
  have w: "mem_wf s" "mem_content s = [7 \<mapsto> encode ?es]" "ms_min s = 7"
    using ok(1) s s0 mn by (simp_all add: storage_wf_def stored_def min_height_def mem_engines_def mem_blockstore_def)
  have c: "7 \<le> max_contiguous_height mem_engines ?st"
    using mem.contig_next [of s] w s
    by (simp add: max_contiguous_height_def mem_engines_def mem_blockstore_def)
  have adm: "admit_range mem_engines ?st OldBlocks (Some 7) (Some 7) = Serve_range OldBlocks 7 (Some 7)"
    using mn c st by (simp add: admit_range_def is_empty_def Let_def)
  have el: "element ref_serde (encode ?es) 0 = Inr (Some ''{}'')"
    using mem.element_encode [of ?es 0] tight_texts by (simp add: mem_engines_def get_nth_def)
  have "replay_item (en_ser mem_engines) OldBlocks (stored mem_content ?st) 7 = Some ''{}''"
    using el by (simp add: s0 replay_item_def wants_record_def spec_element_def mem_engines_def BLOCK_def)
  with range_replay_gapless [OF mem.healthy_engine_axioms, of "\<lambda>_. ?st" 7 OldBlocks 7] ok(1) s0 adm ws
  show ?thesis by (simp add: Let_def u64_max_def heights_def numeral_2_eq_2)
qed

end
