(* ===== verification/Codec.thy ===== *)
theory Codec
  imports Json
begin

text \<open>
  Identifiers and byte encodings: the P-chain conventions (\<open>platform/codec.rs\<close>), the
  transactions of a P-chain block (\<open>platform/mod.rs\<close>), and the C-chain hash spelling
  (\<open>decode_hash\<close> in \<open>eth/ingest.rs\<close>).

  The hash function, base 58 and hexadecimal come from crates outside the repository: they
  are the record \<open>crypto\<close>, with the laws of \<open>crypto_laws\<close> (a digest has 32 bytes, both
  encodings decode to what was encoded, base 58 has one spelling per value and never an empty
  one for a non-empty value). The lemmas are
  the round trips of CB58 and of the hexadecimal forms, that CB58 has a single spelling per
  identifier, and that slicing a transaction out of a block agrees with the numbering used
  at indexing.
\<close>

section \<open>Foreign encodings\<close>

record crypto =
  cr_sha256 :: "bytes \<Rightarrow> bytes"
  cr_b58_encode :: "bytes \<Rightarrow> string"
  cr_b58_decode :: "string \<Rightarrow> bytes option"
  cr_hex_encode :: "bytes \<Rightarrow> string"
  cr_hex_decode :: "string \<Rightarrow> bytes option"

locale crypto_laws =
  fixes C :: crypto
  assumes sha256_length: "length (cr_sha256 C b) = 32"
    and b58_round_trip: "cr_b58_decode C (cr_b58_encode C b) = Some b"
    and b58_canonical: "cr_b58_decode C s = Some b \<Longrightarrow> cr_b58_encode C b = s"
    and b58_nonempty: "b \<noteq> [] \<Longrightarrow> cr_b58_encode C b \<noteq> []"
    and hex_round_trip: "cr_hex_decode C (cr_hex_encode C b) = Some b"
    and hex_no_prefix: "strip_prefix ''0x'' (cr_hex_encode C b) = None"

datatype codec_error =
    Not_base58
  | Wrong_id_length nat
  | Checksum_mismatch
  | No_hex_prefix
  | Bad_hex
  | Wrong_hash_length
  | Unknown_encoding string

section \<open>Block kinds\<close>

definition CHECKSUM_LEN :: usize where
  "CHECKSUM_LEN = 4"

definition TYPE_ID_OFFSET :: usize where
  "TYPE_ID_OFFSET = 2"

datatype block_kind_t = Proposal | Commit | Abort | Other

definition from_be_bytes :: "bytes \<Rightarrow> nat" where
  "from_be_bytes b = from_le_bytes (rev b)"

definition block_kind :: "bytes \<Rightarrow> block_kind_t" where
  "block_kind b =
     (let r = (TYPE_ID_OFFSET, TYPE_ID_OFFSET + 4)
      in if \<not> span_in b r then Other
         else let i = from_be_bytes (slice_of b r)
              in if i \<in> {0, 29} then Proposal
                 else if i \<in> {2, 31} then Commit
                 else if i \<in> {1, 30} then Abort
                 else Other)"

section \<open>Checksummed encodings\<close>

definition sha256 :: "crypto \<Rightarrow> bytes \<Rightarrow> bytes" where
  "sha256 C b = cr_sha256 C b"

definition checksum :: "crypto \<Rightarrow> bytes \<Rightarrow> bytes" where
  "checksum C payload = (let digest = sha256 C payload in drop (length digest - CHECKSUM_LEN) digest)"

definition cb58_encode :: "crypto \<Rightarrow> bytes \<Rightarrow> string" where
  "cb58_encode C i = cr_b58_encode C (i @ checksum C i)"

definition cb58_decode :: "crypto \<Rightarrow> string \<Rightarrow> codec_error + bytes" where
  "cb58_decode C s =
     (case cr_b58_decode C s of
        None \<Rightarrow> Inl Not_base58
      | Some raw \<Rightarrow>
          if length raw \<noteq> 32 + CHECKSUM_LEN then Inl (Wrong_id_length (length raw))
          else let payload = take 32 raw; got = drop 32 raw
               in if got \<noteq> checksum C payload then Inl Checksum_mismatch else Inr payload)"

definition block_id_of :: "crypto \<Rightarrow> bytes \<Rightarrow> string" where
  "block_id_of C b = cb58_encode C (sha256 C b)"

definition hexnc_decode :: "crypto \<Rightarrow> string \<Rightarrow> codec_error + bytes" where
  "hexnc_decode C s =
     (case strip_prefix ''0x'' s of
        None \<Rightarrow> Inl No_hex_prefix
      | Some body \<Rightarrow> ok_or (cr_hex_decode C body) Bad_hex)"

definition hex_with_checksum :: "crypto \<Rightarrow> bytes \<Rightarrow> string" where
  "hex_with_checksum C b = ''0x'' @ cr_hex_encode C (b @ checksum C b)"

section \<open>The encodings a caller may ask for\<close>

datatype encoding = Enc_Hex | Enc_Hexc | Enc_Hexnc | Enc_Json

fun encoding_as_str :: "encoding \<Rightarrow> string" where
  "encoding_as_str Enc_Hex = ''hex''"
| "encoding_as_str Enc_Hexc = ''hexc''"
| "encoding_as_str Enc_Hexnc = ''hexnc''"
| "encoding_as_str Enc_Json = ''json''"

definition encoding_parse :: "string option \<Rightarrow> codec_error + encoding" where
  "encoding_parse s =
     (case s of
        None \<Rightarrow> Inr Enc_Hex
      | Some t \<Rightarrow>
          if t = ''hex'' then Inr Enc_Hex
          else if t = ''hexc'' then Inr Enc_Hexc
          else if t = ''hexnc'' then Inr Enc_Hexnc
          else if t = ''json'' then Inr Enc_Json
          else Inl (Unknown_encoding t))"

fun render_bytes :: "crypto \<Rightarrow> encoding \<Rightarrow> bytes \<Rightarrow> string option" where
  "render_bytes C Enc_Hex b = Some (hex_with_checksum C b)"
| "render_bytes C Enc_Hexc b = Some (hex_with_checksum C b)"
| "render_bytes C Enc_Hexnc b = Some (''0x'' @ cr_hex_encode C b)"
| "render_bytes C Enc_Json b = None"

section \<open>C-chain hashes\<close>

definition decode_hash :: "crypto \<Rightarrow> string \<Rightarrow> codec_error + hash32" where
  "decode_hash C s =
     (case cr_hex_decode C (trim_start_matches ''0x'' s) of
        None \<Rightarrow> Inl Bad_hex
      | Some raw \<Rightarrow> if length raw = 32 then Inr raw else Inl Wrong_hash_length)"

section \<open>Transactions of a P-chain block\<close>

definition block_txs :: "json \<Rightarrow> json list" where
  "block_txs block =
     (case jget_arr block ''txs'' of None \<Rightarrow> [] | Some arr \<Rightarrow> arr) @
     (case jget block ''tx'' of None \<Rightarrow> [] | Some tx \<Rightarrow> [tx])"

text \<open>\<open>Vec::swap_remove\<close>: the last element takes the place of the removed one.\<close>

definition swap_remove :: "'a list \<Rightarrow> nat \<Rightarrow> 'a \<times> 'a list" where
  "swap_remove xs i = (xs ! i, (butlast xs)[i := last xs])"

fun set_member :: "string \<Rightarrow> json \<Rightarrow> json \<Rightarrow> json" where
  "set_member k w (JObj kvs) = JObj (obj_modify k (\<lambda>_. w) kvs)"
| "set_member k w v = v"

definition take_nth_tx :: "json \<Rightarrow> nat \<Rightarrow> json option \<times> json" where
  "take_nth_tx block idx =
     (let len = (case jget_arr block ''txs'' of None \<Rightarrow> 0 | Some arr \<Rightarrow> length arr)
      in if idx < len then
           (case jget_arr block ''txs'' of
              None \<Rightarrow> (None, block)
            | Some arr \<Rightarrow>
                (let (tx, rest) = swap_remove arr idx
                 in (Some tx, set_member ''txs'' (JArr rest) block)))
         else if idx \<noteq> len then (None, block)
         else (case jget block ''tx'' of
             None \<Rightarrow> (None, block)
           | Some tx \<Rightarrow> (Some tx, set_member ''tx'' JNull block)))"

section \<open>Lemmas\<close>

lemma length_checksum: "length (cr_sha256 C b) = 32 \<Longrightarrow> length (checksum C b) = CHECKSUM_LEN"
  by (simp add: checksum_def sha256_def CHECKSUM_LEN_def Let_def)

context crypto_laws
begin

lemma cb58_round_trip:
  assumes "length i = 32"
  shows "cb58_decode C (cb58_encode C i) = Inr i"
  using assms length_checksum [OF sha256_length]
  by (simp add: cb58_decode_def cb58_encode_def b58_round_trip Let_def)

lemma cb58_canonical:
  assumes "cb58_decode C s = Inr i"
  shows "length i = 32" "cb58_encode C i = s"
proof -
  from assms obtain raw where raw: "cr_b58_decode C s = Some raw" "length raw = 32 + CHECKSUM_LEN"
    "drop 32 raw = checksum C (take 32 raw)" "i = take 32 raw"
    by (auto simp: cb58_decode_def Let_def split: option.splits if_splits)
  then show "length i = 32" by (simp add: CHECKSUM_LEN_def)
  have "i @ checksum C i = raw" using raw by (metis append_take_drop_id)
  then show "cb58_encode C i = s" using b58_canonical [OF raw(1)] by (simp add: cb58_encode_def)
qed

lemma block_id_decodes: "cb58_decode C (block_id_of C b) = Inr (sha256 C b)"
  unfolding block_id_of_def by (rule cb58_round_trip) (simp add: sha256_def sha256_length)

lemma block_id_nonempty: "block_id_of C b \<noteq> []"
proof -
  have "sha256 C b @ checksum C (sha256 C b) \<noteq> []" using sha256_length [of b] by (auto simp: sha256_def)
  from b58_nonempty [OF this] show ?thesis by (simp add: block_id_of_def cb58_encode_def)
qed

lemma hexnc_round_trip: "hexnc_decode C (''0x'' @ cr_hex_encode C b) = Inr b"
  by (simp add: hexnc_decode_def hex_round_trip)

lemma checksummed_round_trip: "hexnc_decode C (hex_with_checksum C b) = Inr (b @ checksum C b)"
  by (simp add: hex_with_checksum_def hexnc_decode_def hex_round_trip)

lemma decode_hash_hex:
  assumes "length b = 32"
  shows "decode_hash C (''0x'' @ cr_hex_encode C b) = Inr b" "decode_hash C (cr_hex_encode C b) = Inr b"
proof -
  have t: "trim_start_matches ''0x'' (cr_hex_encode C b) = cr_hex_encode C b"
    by (rule trim_start_matches_no_prefix [OF hex_no_prefix])
  show "decode_hash C (cr_hex_encode C b) = Inr b"
    using assms t by (simp add: decode_hash_def hex_round_trip)
  show "decode_hash C (''0x'' @ cr_hex_encode C b) = Inr b"
    using assms t trim_start_matches_prefix [of "''0x''" "cr_hex_encode C b"]
    by (simp add: decode_hash_def hex_round_trip)
qed

end

lemma encoding_parse_as_str: "encoding_parse (Some (encoding_as_str e)) = Inr e"
  by (cases e) (simp_all add: encoding_parse_def)

lemma take_nth_tx_eq: "fst (take_nth_tx block idx) = get_nth (block_txs block) idx"
  by (auto simp: take_nth_tx_def block_txs_def get_nth_def swap_remove_def Let_def nth_append
      split: option.splits)

section \<open>An instance of the foreign encodings\<close>

definition hex_byte :: "char \<Rightarrow> string" where
  "hex_byte c = [from_digit (of_char c div 16), from_digit (of_char c mod 16)]"

definition ref_hex_encode :: "bytes \<Rightarrow> string" where
  "ref_hex_encode b = concat (map hex_byte b)"

fun ref_hex_decode :: "string \<Rightarrow> bytes option" where
  "ref_hex_decode [] = Some []"
| "ref_hex_decode [c] = None"
| "ref_hex_decode (c # d # s) =
     (case (to_digit 16 c, to_digit 16 d, ref_hex_decode s) of
        (Some x, Some y, Some b) \<Rightarrow> Some (char_of (x * 16 + y) # b)
      | _ \<Rightarrow> None)"

definition ref_digest :: "bytes \<Rightarrow> bytes" where
  "ref_digest b = take 32 (rev b @ to_le_bytes 32 (length b))"

definition ref_b58_decode :: "string \<Rightarrow> bytes option" where
  "ref_b58_decode s =
     (case ref_hex_decode s of None \<Rightarrow> None | Some b \<Rightarrow> if ref_hex_encode b = s then Some b else None)"

text \<open>
  Hexadecimal is the real encoding; base 58 is stood in for by its canonical form and the
  hash by a 32-byte digest, which satisfy the same laws and evaluate quickly.
\<close>

definition ref_crypto :: crypto where
  "ref_crypto = \<lparr>cr_sha256 = ref_digest, cr_b58_encode = ref_hex_encode, cr_b58_decode = ref_b58_decode,
     cr_hex_encode = ref_hex_encode, cr_hex_decode = ref_hex_decode\<rparr>"

lemma ref_hex_round_trip: "ref_hex_decode (ref_hex_encode b) = Some b"
proof (induction b)
  case (Cons c b)
  have "(of_char c :: nat) < 256" by simp
  then have "(of_char c :: nat) div 16 < 16" by (simp add: less_mult_imp_div_less)
  with Cons show ?case
    by (simp add: ref_hex_encode_def hex_byte_def to_digit_from_digit)
qed (simp add: ref_hex_encode_def)

lemma ref_hex_nonempty: "ref_hex_encode b = [] \<longleftrightarrow> b = []"
  by (cases b) (simp_all add: ref_hex_encode_def hex_byte_def)

lemma ref_hex_no_prefix: "strip_prefix ''0x'' (ref_hex_encode b) = None"
proof (cases b)
  case (Cons c b')
  have "(of_char c :: nat) mod 16 < 16" by simp
  then have "from_digit ((of_char c :: nat) mod 16) \<noteq> CHR ''x''"
    using from_digit_neq [of "(of_char c :: nat) mod 16"] by linarith
  with Cons show ?thesis by (simp add: ref_hex_encode_def hex_byte_def)
qed (simp add: ref_hex_encode_def)

interpretation ref_cr: crypto_laws ref_crypto
  by unfold_locales
    (auto simp: ref_crypto_def ref_digest_def ref_b58_decode_def ref_hex_round_trip ref_hex_no_prefix
      ref_hex_nonempty split: option.splits if_splits)

section \<open>Guarantees\<close>

text \<open>
  C34. CB58 is a faithful spelling of identifiers: decoding what was encoded gives the
  identifier back; every string that decodes is the one spelling of a 32-byte identifier,
  so no two strings name the same index key; and the identifier derived from a block's bytes
  decodes to their hash.
\<close>

theorem cb58_faithful:
  assumes "crypto_laws C"
  shows "(length i = 32 \<longrightarrow> cb58_decode C (cb58_encode C i) = Inr i) \<and>
    (\<forall>s. cb58_decode C s = Inr i \<longrightarrow> length i = 32 \<and> s = cb58_encode C i) \<and>
    cb58_decode C (block_id_of C b) = Inr (sha256 C b)"
  using crypto_laws.cb58_round_trip [OF assms] crypto_laws.cb58_canonical [OF assms]
    crypto_laws.block_id_decodes [OF assms] by blast

theorem cb58_faithful_witness:
  "cb58_decode ref_crypto (block_id_of ref_crypto ''block'') = Inr (sha256 ref_crypto ''block'') \<and>
   cb58_decode ref_crypto (cb58_encode ref_crypto (replicate 32 (CHR ''a''))) = Inr (replicate 32 (CHR ''a''))"
  using cb58_faithful [OF ref_cr.crypto_laws_axioms, of "replicate 32 (CHR ''a'')" "''block''"] by simp

text \<open>
  Slicing out a transaction uses the numbering of the index: for every block the
  transaction taken at an index is the one at that position of the block's transactions
  (the \<open>txs\<close> array, then the single \<open>tx\<close>), and there is one exactly below their number.
\<close>

lemma take_nth_tx_is_indexed_tx:
  "fst (take_nth_tx block idx) =
     (if idx < length (block_txs block) then Some (block_txs block ! idx) else None)"
  by (simp add: take_nth_tx_eq get_nth_def)

end
