(* ===== verification/Http.thy ===== *)
theory Http
  imports Json Upstream
begin

text \<open>
  The HTTP side of upstream requests, as far as the fetch loops see it. The client and the
  network are outside the program, so a request is answered by a parameter: an upstream is
  a function from the request body and the number of the attempt to a reply. A reply is a
  transport error, or a status with the \<open>Retry-After\<close> header and the body decoded as JSON
  (\<open>None\<close> when it does not decode).
\<close>

datatype http_reply =
    Net_error
  | Net_reply nat "bytes option" "json option"

type_synonym upstream = "json \<Rightarrow> nat \<Rightarrow> http_reply"

definition is_success :: "nat \<Rightarrow> bool" where
  "is_success status \<longleftrightarrow> 200 \<le> status \<and> status < 300"

definition is_throttled :: "nat \<Rightarrow> bool" where
  "is_throttled status \<longleftrightarrow> status = 429 \<or> status = 503"

definition default_retry_after :: "bytes option \<Rightarrow> u64" where
  "default_retry_after hdr = (case retry_after_from_headers hdr of None \<Rightarrow> 5 | Some n \<Rightarrow> n)"

text \<open>The JSON-RPC envelope every request uses.\<close>

definition rpc_body :: "string \<Rightarrow> json \<Rightarrow> json" where
  "rpc_body meth params =
     JObj [(''jsonrpc'', JStr ''2.0''), (''id'', JNum (PosInt 1)), (''method'', JStr meth),
           (''params'', params)]"

definition hex_quantity :: "u64 \<Rightarrow> json" where
  "hex_quantity n = JStr (''0x'' @ to_hex n)"

text \<open>\<open>get_mut("result").map(Value::take).filter(|r| !r.is_null())\<close>.\<close>

definition rpc_result :: "json \<Rightarrow> json option" where
  "rpc_result v = (case jget v ''result'' of None \<Rightarrow> None | Some r \<Rightarrow> if r = JNull then None else Some r)"

text \<open>\<open>u64::from_str_radix(s.trim_start_matches("0x"), 16).ok()\<close>.\<close>

definition parse_hex_quantity :: "string \<Rightarrow> u64 option" where
  "parse_hex_quantity s = from_str_radix 16 (trim_start_matches ''0x'' s)"

lemma to_hex_no_prefix: "strip_prefix ''0x'' (to_hex n) = None"
proof -
  have "CHR ''x'' \<notin> set (format_radix 16 n)"
  proof (induction "16 :: nat" n rule: format_radix.induct)
    case (1 n)
    have d: "from_digit d \<noteq> CHR ''x''" if "d < 16" for d
      using from_digit_neq [of d] that by auto
    show ?case
    proof (cases "n < 16")
      case True
      then show ?thesis using d [of n] by (subst format_radix.simps) simp
    next
      case False
      then show ?thesis using 1 d [of "n mod 16"] by (subst format_radix.simps) simp
    qed
  qed
  then show ?thesis
    by (auto simp: to_hex_def strip_prefix_Some_iff intro: option.exhaust [of "strip_prefix ''0x'' (format_radix 16 n)"])
qed

lemma parse_hex_quantity_to_hex:
  assumes "n \<le> u64_max"
  shows "parse_hex_quantity (''0x'' @ to_hex n) = Some n" "parse_hex_quantity (to_hex n) = Some n"
  using trim_start_matches_prefix [of "''0x''" "to_hex n"]
    trim_start_matches_no_prefix [OF to_hex_no_prefix, of n] from_str_radix_to_hex [OF assms]
  by (simp_all add: parse_hex_quantity_def)

lemma parse_hex_quantity_le: "parse_hex_quantity s = Some n \<Longrightarrow> n \<le> u64_max"
  unfolding parse_hex_quantity_def by (rule from_str_radix_le)

lemma rpc_result_not_null: "rpc_result v = Some r \<Longrightarrow> r \<noteq> JNull"
  by (auto simp: rpc_result_def split: option.splits if_splits)

end
