(* ===== verification/Health.thy ===== *)
theory Health
  imports Storage_Guarantees Http
begin

text \<open>
  The \<open>GET /health\<close> report (\<open>health.rs\<close>): how it is built from the running chain
  instances, and how a downstream mirror reads a height out of an upstream's report
  (\<open>upstream_blocks_field\<close>). Byte formatting, the sizes of the process and version strings come from
  outside the repository and are parameters; the directory walk takes the tree it walks.
  The lemmas are the agreement of the two sides of the schema, and what a probe of a chain
  that the upstream does not run reads.
\<close>

section \<open>Instances\<close>

text \<open>The handle of one running chain instance (\<open>ChainServe\<close> in \<open>rpc.rs\<close>).\<close>

record ('s, 'd) chain_serve =
  cs_chain :: chain
  cs_storage :: "('s, 'd) storage"
  cs_behind_tip :: u64
  cs_identity :: string
  cs_data_dir :: string

section \<open>Directory sizes\<close>

datatype dir_entry = Dir_file u64 | Dir_sub "dir_entry list" | Dir_other

text \<open>\<open>sum_dir\<close>: a directory that cannot be read has no entries.\<close>

fun entry_size :: "dir_entry \<Rightarrow> u64" where
  "entry_size (Dir_file n) = n"
| "entry_size (Dir_sub es) = fold (\<lambda>e total. sat_add total (entry_size e)) es 0"
| "entry_size Dir_other = 0"

definition sum_dir :: "dir_entry list \<Rightarrow> u64" where
  "sum_dir es = entry_size (Dir_sub es)"

section \<open>The report\<close>

record host_info =
  hi_human :: "u64 \<Rightarrow> string"
  hi_version :: string
  hi_commit :: string
  hi_uptime_secs :: u64
  hi_uptime :: string
  hi_memory :: "(u64 \<times> u64) option"
  hi_dir :: "string \<Rightarrow> dir_entry list"

record blocks_report =
  br_min_height :: "u64 option"
  br_max_contiguous_height :: "u64 option"
  br_high_water :: "u64 option"
  br_behind :: u64

record storage_report =
  sr_data_dir :: string
  sr_blockdb_bytes :: u64
  sr_blockdb_human :: string
  sr_index_bytes :: u64
  sr_index_human :: string
  sr_total_bytes :: u64
  sr_total_human :: string

record chain_report =
  chr_network :: string
  chr_blocks :: blocks_report
  chr_storage :: storage_report

record memory_report =
  mr_physical_bytes :: "u64 option"
  mr_physical_human :: "string option"
  mr_virtual_bytes :: "u64 option"
  mr_virtual_human :: "string option"

definition default_blocks_report :: blocks_report where
  "default_blocks_report = \<lparr>br_min_height = None, br_max_contiguous_height = None,
     br_high_water = None, br_behind = 0\<rparr>"

definition default_storage_report :: storage_report where
  "default_storage_report = \<lparr>sr_data_dir = [], sr_blockdb_bytes = 0, sr_blockdb_human = [],
     sr_index_bytes = 0, sr_index_human = [], sr_total_bytes = 0, sr_total_human = []\<rparr>"

definition build_chain_report ::
  "('s, 'd) engines \<Rightarrow> host_info \<Rightarrow> ('s, 'd) chain_serve \<Rightarrow> chain_report" where
  "build_chain_report E hi c =
     (let st = cs_storage c;
          present = (\<lambda>h. if is_empty st then None else Some h);
          blockdb_bytes = sum_dir (hi_dir hi (path_join (cs_data_dir c) ''blocks''));
          index_bytes = sum_dir (hi_dir hi (path_join (cs_data_dir c) ''index''));
          total_bytes = sat_add blockdb_bytes index_bytes
      in \<lparr>chr_network = cs_identity c,
          chr_blocks = \<lparr>br_min_height = present (min_height E st),
             br_max_contiguous_height = present (max_contiguous_height E st),
             br_high_water = present (high_water E st),
             br_behind = cs_behind_tip c\<rparr>,
          chr_storage = \<lparr>sr_data_dir = cs_data_dir c,
             sr_blockdb_bytes = blockdb_bytes, sr_blockdb_human = hi_human hi blockdb_bytes,
             sr_index_bytes = index_bytes, sr_index_human = hi_human hi index_bytes,
             sr_total_bytes = total_bytes, sr_total_human = hi_human hi total_bytes\<rparr>\<rparr>)"

text \<open>\<open>hi_memory\<close> is what the platform reports, if it does: the resident and the virtual size.\<close>

definition memory_report :: "host_info \<Rightarrow> memory_report" where
  "memory_report hi =
     \<lparr>mr_physical_bytes = map_option fst (hi_memory hi), mr_physical_human = map_option (hi_human hi \<circ> fst) (hi_memory hi),
      mr_virtual_bytes = map_option snd (hi_memory hi), mr_virtual_human = map_option (hi_human hi \<circ> snd) (hi_memory hi)\<rparr>"

text \<open>The derived \<open>Serialize\<close> of the report structures.\<close>

definition json_opt_u64 :: "u64 option \<Rightarrow> json" where
  "json_opt_u64 n = (case n of None \<Rightarrow> JNull | Some k \<Rightarrow> JNum (PosInt k))"

definition json_blocks :: "blocks_report \<Rightarrow> json" where
  "json_blocks b = JObj [
     (''min_height'', json_opt_u64 (br_min_height b)),
     (''max_contiguous_height'', json_opt_u64 (br_max_contiguous_height b)),
     (''high_water'', json_opt_u64 (br_high_water b)),
     (''behind'', JNum (PosInt (br_behind b)))]"

definition json_opt_str :: "string option \<Rightarrow> json" where
  "json_opt_str s = (case s of None \<Rightarrow> JNull | Some t \<Rightarrow> JStr t)"

definition json_memory :: "memory_report \<Rightarrow> json" where
  "json_memory m = JObj [
     (''physical_bytes'', json_opt_u64 (mr_physical_bytes m)),
     (''physical_human'', json_opt_str (mr_physical_human m)),
     (''virtual_bytes'', json_opt_u64 (mr_virtual_bytes m)),
     (''virtual_human'', json_opt_str (mr_virtual_human m))]"

definition json_storage :: "storage_report \<Rightarrow> json" where
  "json_storage s = JObj [
     (''data_dir'', JStr (sr_data_dir s)),
     (''blockdb_bytes'', JNum (PosInt (sr_blockdb_bytes s))),
     (''blockdb_human'', JStr (sr_blockdb_human s)),
     (''index_bytes'', JNum (PosInt (sr_index_bytes s))),
     (''index_human'', JStr (sr_index_human s)),
     (''total_bytes'', JNum (PosInt (sr_total_bytes s))),
     (''total_human'', JStr (sr_total_human s))]"

definition json_chain :: "chain_report \<Rightarrow> json" where
  "json_chain r = JObj [
     (''network'', JStr (chr_network r)),
     (''blocks'', json_blocks (chr_blocks r)),
     (''storage'', json_storage (chr_storage r))]"

text \<open>The \<open>BTreeMap\<close> of reports: a later insert of the same key replaces the entry.\<close>

definition insert_report ::
  "string \<Rightarrow> chain_report \<Rightarrow> (string \<times> chain_report) list \<Rightarrow> (string \<times> chain_report) list" where
  "insert_report k r m = (k, r) # filter (\<lambda>kv. fst kv \<noteq> k) m"

definition chain_reports ::
  "('s, 'd) engines \<Rightarrow> host_info \<Rightarrow> ('s, 'd) chain_serve list \<Rightarrow> (string \<times> chain_report) list" where
  "chain_reports E hi cs =
     fold (\<lambda>c. insert_report (chain_as_str (cs_chain c)) (build_chain_report E hi c)) cs []"

definition default_instance :: "('s, 'd) chain_serve list \<Rightarrow> ('s, 'd) chain_serve option" where
  "default_instance cs =
     (case find (\<lambda>c. cs_chain c = Chain_C) cs of
        Some c \<Rightarrow> Some c
      | None \<Rightarrow> (case cs of [] \<Rightarrow> None | c # _ \<Rightarrow> Some c))"

definition build_health_report ::
  "('s, 'd) engines \<Rightarrow> host_info \<Rightarrow> ('s, 'd) chain_serve list \<Rightarrow> json" where
  "build_health_report E hi cs =
     (let chs = chain_reports E hi cs;
          default = default_instance cs;
          default_chain = (case default of None \<Rightarrow> ''none'' | Some c \<Rightarrow> chain_as_str (cs_chain c));
          chain_id = (case default of None \<Rightarrow> None | Some c \<Rightarrow> parse_u64 (cs_identity c));
          report = (case default of None \<Rightarrow> None | Some c \<Rightarrow> map_of chs (chain_as_str (cs_chain c)));
          default_blocks = (case report of None \<Rightarrow> default_blocks_report | Some r \<Rightarrow> chr_blocks r);
          default_storage = (case report of None \<Rightarrow> default_storage_report | Some r \<Rightarrow> chr_storage r)
      in JObj [
        (''status'', JStr ''ok''),
        (''version'', JStr (hi_version hi)),
        (''commit'', JStr (hi_commit hi)),
        (''uptime_secs'', JNum (PosInt (hi_uptime_secs hi))),
        (''uptime'', JStr (hi_uptime hi)),
        (''default_chain'', JStr default_chain),
        (''chain_id'', json_opt_u64 chain_id),
        (''blocks'', json_blocks default_blocks),
        (''storage'', json_storage default_storage),
        (''chains'', JObj (map (\<lambda>kv. (fst kv, json_chain (snd kv))) chs)),
        (''memory'', json_memory (memory_report hi))])"

section \<open>Reading an upstream's report\<close>

definition upstream_blocks_field :: "json \<Rightarrow> chain \<Rightarrow> string \<Rightarrow> u64 option" where
  "upstream_blocks_field v c field =
     (let per_chain = Option.bind (jpointer v [''chains'', chain_as_str c, ''blocks'', field]) as_u64
      in if per_chain \<noteq> None then per_chain
         else if c \<noteq> Chain_C then None
         else Option.bind (jpointer v [''blocks'', field]) as_u64)"

section \<open>Lemmas\<close>

lemma map_of_insert_report:
  "map_of (insert_report k r m) j = (if j = k then Some r else map_of m j)"
proof -
  have "map_of (filter (\<lambda>kv. fst kv \<noteq> k) m) j = map_of m j" if "j \<noteq> k"
    using that by (induction m) auto
  then show ?thesis by (simp add: insert_report_def)
qed

lemma map_of_fold_reports:
  "map_of (fold (\<lambda>c. insert_report (chain_as_str (cs_chain c)) (build_chain_report E hi c)) cs m)
     (chain_as_str ch) =
   (case find (\<lambda>c. cs_chain c = ch) (rev cs) of
      Some c \<Rightarrow> Some (build_chain_report E hi c)
    | None \<Rightarrow> map_of m (chain_as_str ch))"
  by (induction cs rule: rev_induct) (auto simp: map_of_insert_report chain_as_str_inj)

lemma map_of_chain_reports:
  "map_of (chain_reports E hi cs) (chain_as_str ch) =
     map_option (build_chain_report E hi) (find (\<lambda>c. cs_chain c = ch) (rev cs))"
  by (auto simp: chain_reports_def map_of_fold_reports split: option.split)

lemma find_snoc:
  "find P (xs @ ys) = (case find P xs of None \<Rightarrow> find P ys | Some x \<Rightarrow> Some x)"
  by (induction xs) auto

lemma find_rev_distinct:
  assumes "distinct (map cs_chain cs)"
  shows "find (\<lambda>c. cs_chain c = ch) (rev cs) = find (\<lambda>c. cs_chain c = ch) cs"
  using assms
proof (induction cs)
  case (Cons c cs)
  then have notin: "\<forall>d\<in>set cs. cs_chain d \<noteq> cs_chain c"
    by (simp add: image_iff) metis
  from Cons have IH: "find (\<lambda>c. cs_chain c = ch) (rev cs) = find (\<lambda>c. cs_chain c = ch) cs" by simp
  show ?case
  proof (cases "cs_chain c = ch")
    case True
    then have "find (\<lambda>c. cs_chain c = ch) cs = None"
      using notin by (simp add: find_None_iff)
    with True IH show ?thesis by (simp add: find_snoc)
  qed (simp add: find_snoc IH split: option.split)
qed simp

lemma as_u64_json_opt [simp]: "as_u64 (json_opt_u64 n) = n"
  by (cases n) (simp_all add: json_opt_u64_def)

lemma map_of_map_snd: "map_of (map (\<lambda>kv. (fst kv, f (snd kv))) m) k = map_option f (map_of m k)"
  by (induction m) auto

lemma report_pointer:
  "jpointer (build_health_report E hi cs) [''chains'', k, ''blocks'', field] =
     Option.bind (map_of (chain_reports E hi cs) k) (\<lambda>r. jget (json_blocks (chr_blocks r)) field)"
proof -
  have "jpointer (build_health_report E hi cs) [''chains'', k, ''blocks'', field] =
      Option.bind (map_option json_chain (map_of (chain_reports E hi cs) k))
        (\<lambda>v. jpointer v [''blocks'', field])"
    by (simp add: build_health_report_def Let_def map_of_map_snd [of json_chain])
  then show ?thesis
    by (cases "map_of (chain_reports E hi cs) k") (simp_all add: json_chain_def)
qed

lemma report_top_pointer:
  "jpointer (build_health_report E hi cs) [''blocks'', field] =
     jget (json_blocks (case Option.bind (default_instance cs)
         (\<lambda>c. map_of (chain_reports E hi cs) (chain_as_str (cs_chain c))) of
       None \<Rightarrow> default_blocks_report | Some r \<Rightarrow> chr_blocks r)) field"
  by (cases "default_instance cs") (simp_all add: build_health_report_def Let_def)

section \<open>Guarantees\<close>

definition blocks_fields :: "string list" where
  "blocks_fields = [''min_height'', ''max_contiguous_height'', ''high_water'']"

definition reported_height :: "('s, 'd) engines \<Rightarrow> ('s, 'd) storage \<Rightarrow> string \<Rightarrow> u64 option" where
  "reported_height E st field =
     (if is_empty st then None
      else if field = ''min_height'' then Some (min_height E st)
      else if field = ''max_contiguous_height'' then Some (max_contiguous_height E st)
      else Some (high_water E st))"

lemma json_blocks_field:
  assumes "field \<in> set blocks_fields"
  shows "Option.bind (jget (json_blocks (chr_blocks (build_chain_report E hi c))) field) as_u64 =
    reported_height E (cs_storage c) field"
  using assms
  by (auto simp: blocks_fields_def json_blocks_def build_chain_report_def Let_def reported_height_def)

lemma probe_running:
  assumes "distinct (map cs_chain cs)" "c \<in> set cs" "field \<in> set blocks_fields"
  shows "upstream_blocks_field (build_health_report E hi cs) (cs_chain c) field =
    reported_height E (cs_storage c) field"
proof -
  have f: "find (\<lambda>d. cs_chain d = cs_chain c) cs = Some c"
  proof -
    obtain d where d: "find (\<lambda>d. cs_chain d = cs_chain c) cs = Some d"
      using assms(2) by (cases "find (\<lambda>d. cs_chain d = cs_chain c) cs") (auto simp: find_None_iff)
    then have "d \<in> set cs" "cs_chain d = cs_chain c" by (auto simp: find_Some_iff)
    then have "d = c" using assms(1,2) by (meson distinct_map inj_on_eq_iff)
    with d show ?thesis by simp
  qed
  have m: "map_of (chain_reports E hi cs) (chain_as_str (cs_chain c)) = Some (build_chain_report E hi c)"
    using f by (simp add: map_of_chain_reports find_rev_distinct [OF assms(1)])
  have per: "Option.bind (jpointer (build_health_report E hi cs) [''chains'', chain_as_str (cs_chain c), ''blocks'', field]) as_u64
      = reported_height E (cs_storage c) field"
    unfolding report_pointer m using json_blocks_field [OF assms(3)] by simp
  have top: "Option.bind (jpointer (build_health_report E hi cs) [''blocks'', field]) as_u64
      = reported_height E (cs_storage c) field" if "cs_chain c = Chain_C"
  proof -
    have "default_instance cs = Some c" using f that by (simp add: default_instance_def)
    then show ?thesis unfolding report_top_pointer using m json_blocks_field [OF assms(3)] by simp
  qed
  show ?thesis
    unfolding upstream_blocks_field_def Let_def per using top by (cases "reported_height E (cs_storage c) field") auto
qed

text \<open>
  C35. The two sides of the health schema agree: for every running chain and each of the three
  heights, a downstream probe of the report reads exactly that chain's height, and reads
  nothing while its store is empty (so height 0 is never confused with an empty store).
\<close>

theorem health_probe_agrees:
  assumes "distinct (map cs_chain cs)" "c \<in> set cs" "field \<in> set blocks_fields"
  shows "upstream_blocks_field (build_health_report E hi cs) (cs_chain c) field =
    (if is_empty (cs_storage c) then None
     else if field = ''min_height'' then Some (min_height E (cs_storage c))
     else if field = ''max_contiguous_height'' then Some (max_contiguous_height E (cs_storage c))
     else Some (high_water E (cs_storage c)))"
  using probe_running [OF assms] by (simp add: reported_height_def)

definition mem_serve :: "chain \<Rightarrow> (mem_store, mem_db) chain_serve" where
  "mem_serve c = \<lparr>cs_chain = c,
     cs_storage = mem_put 7 ''hash'' [] (replicate (arity c) ''[]'') (mem_fresh c),
     cs_behind_tip = 0, cs_identity = ''43114'', cs_data_dir = ''d''\<rparr>"

definition plain_host :: host_info where
  "plain_host = \<lparr>hi_human = to_dec, hi_version = ''1'', hi_commit = ''c'', hi_uptime_secs = 0,
     hi_uptime = ''0s'', hi_memory = None, hi_dir = (\<lambda>_. [])\<rparr>"

lemma mem_serve_facts:
  "\<not> is_empty (cs_storage (mem_serve c))" "min_height mem_engines (cs_storage (mem_serve c)) = 7"
proof -
  have l: "length (replicate (arity c) ''[]'') = arity c" by simp
  note p = mem_put_first [OF l, of 7 "''hash''" "[]"]
  show "\<not> is_empty (cs_storage (mem_serve c))"
    using mem.put_ok(5) [OF mem_fresh_wf p] by (simp add: mem_serve_def is_empty_def)
  show "min_height mem_engines (cs_storage (mem_serve c)) = 7"
    using mem.put_first_floor [OF _ p] by (simp add: mem_serve_def mem_fresh_def is_empty_def put_floor_def)
qed

lemma mem_serve_chain: "cs_chain (mem_serve c) = c"
  by (simp add: mem_serve_def)

theorem health_probe_agrees_witness:
  "upstream_blocks_field (build_health_report mem_engines plain_host [mem_serve Chain_C, mem_serve Chain_P])
     Chain_P ''min_height'' = Some 7"
proof -
  have d: "distinct (map cs_chain [mem_serve Chain_C, mem_serve Chain_P])" by (simp add: mem_serve_def)
  show ?thesis
    using health_probe_agrees [OF d, of "mem_serve Chain_P" "''min_height''" mem_engines plain_host]
      mem_serve_facts [of Chain_P] mem_serve_chain [of Chain_P]
    by (simp add: blocks_fields_def)
qed

text \<open>
  A C-chain probe of an upstream that runs only the P-chain does not come back empty: it
  falls back to the top-level heights, which there describe the P-chain, and reads the
  P-chain's height as if it were the C-chain's.
\<close>

lemma c_probe_reads_p_heights:
  assumes "cs_chain c = Chain_P" "\<not> is_empty (cs_storage c)"
  shows "upstream_blocks_field (build_health_report E hi [c]) Chain_C ''max_contiguous_height'' =
    Some (max_contiguous_height E (cs_storage c))"
proof -
  have "map_of (chain_reports E hi [c]) (chain_as_str Chain_C) = None"
    using assms(1) by (simp add: map_of_chain_reports del: chain_as_str.simps)
  then have per: "jpointer (build_health_report E hi [c]) [''chains'', chain_as_str Chain_C, ''blocks'', ''max_contiguous_height''] = None"
    unfolding report_pointer by simp
  have "default_instance [c] = Some c" using assms(1) by (simp add: default_instance_def)
  moreover have "map_of (chain_reports E hi [c]) (chain_as_str (cs_chain c)) = Some (build_chain_report E hi c)"
    by (simp add: map_of_chain_reports)
  ultimately have "Option.bind (jpointer (build_health_report E hi [c]) [''blocks'', ''max_contiguous_height'']) as_u64 =
      reported_height E (cs_storage c) ''max_contiguous_height''"
    unfolding report_top_pointer
    using json_blocks_field [of "''max_contiguous_height''" E hi c] by (simp add: blocks_fields_def)
  then show ?thesis
    unfolding upstream_blocks_field_def Let_def per using assms(2) by (simp add: reported_height_def)
qed

end
