(* ===== verification/Eth_Ingest.thy ===== *)
theory Eth_Ingest
  imports Join Subscribe Codec Health
begin

text \<open>
  C-chain ingest (\<open>eth/ingest.rs\<close>): classification of WebSocket frames, the fetch loop with
  its retry budget and adaptive delay, log sources, preparation and persistence of live
  blocks with and without the join buffer, the session loop, the historical bootstrap of a
  mirror, and the persistence of historical blocks (\<open>persist_backfilled\<close> of
  \<open>eth/backfill.rs\<close>).

  The network answers through \<open>upstream\<close> functions (theory \<open>Http\<close>); what arrives on the
  socket is a list of inputs. A fetch that runs into a throttle beyond the configured limit
  parks its task for ever, which is the result \<open>Parked\<close>.
\<close>

section \<open>The adaptive delay\<close>

record aimd_delay =
  ad_delay :: duration
  ad_max :: duration

definition AIMD_INC :: duration where
  "AIMD_INC = from_millis 10"

definition AIMD_DEC :: duration where
  "AIMD_DEC = from_millis 1"

definition aimd_new :: "duration \<Rightarrow> aimd_delay" where
  "aimd_new mx = \<lparr>ad_delay = 0, ad_max = mx\<rparr>"

definition aimd_record :: "bool \<Rightarrow> aimd_delay \<Rightarrow> aimd_delay" where
  "aimd_record first_try_ok a =
     a\<lparr>ad_delay := (if first_try_ok then ad_delay a - AIMD_DEC else min (ad_delay a + AIMD_INC) (ad_max a))\<rparr>"

section \<open>Fetching\<close>

definition RPC_MAX_ATTEMPTS :: u32 where
  "RPC_MAX_ATTEMPTS = 3"

definition RPC_RETRY_BACKOFF_MS :: u64 where
  "RPC_RETRY_BACKOFF_MS = 25"

datatype rpc_fetch = Got json | Gave_up | Parked

definition slept :: "duration \<Rightarrow> rpc_fetch \<times> 'a \<times> duration list \<Rightarrow> rpc_fetch \<times> 'a \<times> duration list" where
  "slept d m = (case m of (r, a, ds) \<Rightarrow> (r, a, d # ds))"

text \<open>The attempts that are left, with the controller and the sleeps taken.\<close>

fun rpc_attempts ::
  "ingest_cfg \<Rightarrow> (nat \<Rightarrow> http_reply) \<Rightarrow> nat \<Rightarrow> nat \<Rightarrow> bool \<Rightarrow> aimd_delay option \<Rightarrow>
     rpc_fetch \<times> aimd_delay option \<times> duration list" where
  "rpc_attempts cfg net 0 attempt recorded aimd = (Gave_up, aimd, [])"
| "rpc_attempts cfg net (Suc left) attempt recorded aimd =
     (case net attempt of
        Net_error \<Rightarrow> (Gave_up, aimd, [])
      | Net_reply status hdr body \<Rightarrow>
          if is_throttled status then
            (case handle_throttle cfg (default_retry_after hdr) of
               Fatal \<Rightarrow> (Parked, aimd, [])
             | Slept w \<Rightarrow> slept w (rpc_attempts cfg net left (Suc attempt) recorded aimd))
          else (case body of
              None \<Rightarrow> (Gave_up, aimd, [])
            | Some parsed \<Rightarrow>
                let result = rpc_result parsed;
                    first_try_ok = (is_success status \<and> result \<noteq> None);
                    aimd' = (if recorded then aimd else map_option (aimd_record first_try_ok) aimd)
                in case result of
                     Some r \<Rightarrow> (Got r, aimd', [])
                   | None \<Rightarrow>
                       slept (from_millis (sat_mul RPC_RETRY_BACKOFF_MS (2 ^ min attempt 10)))
                         (rpc_attempts cfg net left (Suc attempt) True aimd')))"

definition fetch_rpc ::
  "ingest_cfg \<Rightarrow> upstream \<Rightarrow> string \<Rightarrow> json \<Rightarrow> aimd_delay option \<Rightarrow>
     rpc_fetch \<times> aimd_delay option \<times> duration list" where
  "fetch_rpc cfg up meth params aimd =
     (let pre = (case aimd of None \<Rightarrow> [] | Some a \<Rightarrow> if ad_delay a = 0 then [] else [ad_delay a]);
          (r, a, ds) = rpc_attempts cfg (up (rpc_body meth params)) RPC_MAX_ATTEMPTS 0 False aimd
      in (r, a, pre @ ds))"

definition fetch_full_block ::
  "ingest_cfg \<Rightarrow> upstream \<Rightarrow> u64 \<Rightarrow> aimd_delay option \<Rightarrow> rpc_fetch \<times> aimd_delay option \<times> duration list" where
  "fetch_full_block cfg up height aimd =
     fetch_rpc cfg up ''eth_getBlockByNumber'' (JArr [hex_quantity height, JBool True]) aimd"

definition fetch_logs :: "ingest_cfg \<Rightarrow> upstream \<Rightarrow> u64 \<Rightarrow> u64 \<Rightarrow> rpc_fetch" where
  "fetch_logs cfg up a b =
     fst (fetch_rpc cfg up ''eth_getLogs''
       (JArr [JObj [(''fromBlock'', hex_quantity a), (''toBlock'', hex_quantity b)]]) None)"

definition fetch_block_receipts :: "ingest_cfg \<Rightarrow> upstream \<Rightarrow> u64 \<Rightarrow> rpc_fetch" where
  "fetch_block_receipts cfg up height =
     fst (fetch_rpc cfg up ''eth_getBlockReceipts'' (JArr [hex_quantity height]) None)"

definition logs_from_receipts :: "json \<Rightarrow> json" where
  "logs_from_receipts receipts =
     (case as_array receipts of
        None \<Rightarrow> JArr []
      | Some items \<Rightarrow> JArr (concat (List.map_filter (\<lambda>r. jget_arr r ''logs'') items)))"

fun map_fetch :: "(json \<Rightarrow> json) \<Rightarrow> rpc_fetch \<Rightarrow> rpc_fetch" where
  "map_fetch f (Got v) = Got (f v)"
| "map_fetch f r = r"

definition fetch_logs_for_height :: "ingest_cfg \<Rightarrow> upstream \<Rightarrow> u64 \<Rightarrow> rpc_fetch" where
  "fetch_logs_for_height cfg up height =
     (case cfg_logs_source cfg of
        Receipts \<Rightarrow> map_fetch logs_from_receipts (fetch_block_receipts cfg up height)
      | GetLogs \<Rightarrow> fetch_logs cfg up height height)"

section \<open>Which source of logs an endpoint offers\<close>

definition dec_int :: "int \<Rightarrow> string" where
  "dec_int i = (if i < 0 then CHR ''-'' # to_dec (nat (- i)) else to_dec (nat i))"

definition classify_probe :: "json \<Rightarrow> logs_source \<times> string option" where
  "classify_probe v =
     (case jget v ''error'' of
        Some er \<Rightarrow>
          let msg = (case jget_str er ''message'' of None \<Rightarrow> ''unknown error'' | Some m \<Rightarrow> m);
              code = Option.bind (jget er ''code'') as_i64
          in (GetLogs, Some (case code of
                 Some c \<Rightarrow> msg @ '' (code '' @ dec_int c @ '')''
               | None \<Rightarrow> msg))
      | None \<Rightarrow>
          (case jget v ''result'' of
             Some (JArr _) \<Rightarrow> (Receipts, None)
           | _ \<Rightarrow> (GetLogs, Some ''response had no result array'')))"

definition probe_logs_source :: "upstream \<Rightarrow> logs_source" where
  "probe_logs_source up =
     (case up (rpc_body ''eth_getBlockReceipts'' (JArr [JStr ''latest''])) 0 of
        Net_error \<Rightarrow> GetLogs
      | Net_reply status hdr body \<Rightarrow>
          (case body of None \<Rightarrow> GetLogs | Some v \<Rightarrow> fst (classify_probe v)))"

section \<open>The chain identifier\<close>

datatype id_error = Id_request_failed string | Id_throttled nat u64 duration | Id_status nat | Id_decode | Id_missing | Id_malformed

text \<open>
  \<open>fetch_chain_id\<close> retries for as long as it is throttled within the limit; it is run on the
  replies it gets, and \<open>None\<close> means that it is still waiting after them. A request that fails is
  reported with the URL as it is, a token in it included.
\<close>

fun fetch_chain_id :: "string \<Rightarrow> duration \<Rightarrow> http_reply list \<Rightarrow> (id_error + u64) option" where
  "fetch_chain_id rpc_url max_wait [] = None"
| "fetch_chain_id rpc_url max_wait (Net_error # rs) = Some (Inl (Id_request_failed rpc_url))"
| "fetch_chain_id rpc_url max_wait (Net_reply status hdr body # rs) =
     (if is_throttled status then
        let retry_after = default_retry_after hdr
        in if from_secs retry_after > max_wait then Some (Inl (Id_throttled status retry_after max_wait))
           else fetch_chain_id rpc_url max_wait rs
      else if \<not> is_success status then Some (Inl (Id_status status))
      else case body of
          None \<Rightarrow> Some (Inl Id_decode)
        | Some v \<Rightarrow>
            (case jget_str v ''result'' of
               None \<Rightarrow> Some (Inl Id_missing)
             | Some s \<Rightarrow> Some (ok_or (parse_hex_quantity s) Id_malformed)))"

section \<open>Frames\<close>

datatype ws_event =
    Ev_subscribed
  | Ev_new_head u64 string
  | Ev_new_block u64 string json

definition classify_frame :: "json \<Rightarrow> ws_event option" where
  "classify_frame v =
     (if jget v ''result'' \<noteq> None \<and> jget v ''id'' \<noteq> None \<and> jget v ''method'' = None
      then Some Ev_subscribed
      else if jget_str v ''method'' \<noteq> Some ''eth_subscription'' then None
      else
        Option.bind (Option.bind (jget v ''params'') (\<lambda>p. jget p ''result'')) (\<lambda>head.
        Option.bind (jget_str head ''number'') (\<lambda>number_hex.
        Option.bind (jget_str head ''hash'') (\<lambda>hash.
        Option.bind (parse_hex_quantity number_hex) (\<lambda>height.
        if jget head ''transactions'' \<noteq> None then Some (Ev_new_block height hash head)
        else Some (Ev_new_head height hash))))))"

section \<open>Preparing and persisting a block\<close>

definition extract_tx_hashes :: "crypto \<Rightarrow> json \<Rightarrow> hash32 list" where
  "extract_tx_hashes C block =
     (case jget_arr block ''transactions'' of
        None \<Rightarrow> []
      | Some txs \<Rightarrow>
          List.map_filter (\<lambda>s. res_ok (decode_hash C s))
            (List.map_filter (\<lambda>tx. jget_str tx ''hash'') txs))"

definition prepare_block ::
  "serde \<Rightarrow> crypto \<Rightarrow> string \<Rightarrow> json \<Rightarrow> (hash32 \<times> hash32 list \<times> bytes) option" where
  "prepare_block S C expected_hash block =
     (let body_hash = (case jget_str block ''hash'' of None \<Rightarrow> [] | Some h \<Rightarrow> h)
      in if body_hash \<noteq> expected_hash then None
         else case decode_hash C expected_hash of
           Inl _ \<Rightarrow> None
         | Inr hash_bytes \<Rightarrow>
             (case to_vec S block of
                None \<Rightarrow> None
              | Some b \<Rightarrow> Some (hash_bytes, extract_tx_hashes C block, b)))"

definition announce_block :: "bool \<Rightarrow> json \<Rightarrow> live_update list \<Rightarrow> live_update list" where
  "announce_block listening block pub =
     (if listening then pub @ [\<lparr>lu_block = block, lu_record = None\<rparr>] else pub)"

datatype persist_end = Persist_ok | Persist_err storage_error | Persist_parked

definition persist_block ::
  "('s, 'd) engines \<Rightarrow> crypto \<Rightarrow> bool \<Rightarrow> u64 \<Rightarrow> string \<Rightarrow> json \<Rightarrow>
     ('s, 'd) storage \<Rightarrow> live_update list \<Rightarrow> persist_end \<times> ('s, 'd) storage \<times> live_update list" where
  "persist_block E C listening height expected_hash block st pub =
     (case prepare_block (en_ser E) C expected_hash block of
        None \<Rightarrow> (Persist_ok, st, pub)
      | Some (hash_bytes, tx_hashes, b) \<Rightarrow>
          (case put E height hash_bytes tx_hashes [b, EMPTY_ARRAY] st of
             (Inl e, st') \<Rightarrow> (Persist_err e, st', pub)
           | (Inr _, st') \<Rightarrow> (Persist_ok, st', announce_block listening block pub)))"

text \<open>
  With log ingestion on, a block goes through two stages: it is buffered and announced, \<open>buffer_block\<close>,
  which ends early with the value of the handler (\<open>Inl\<close>) or goes on; then its logs are fetched and joined to
  it, \<open>join_live_logs\<close>. What subscribers and readers see at the announcement is the state in between.
\<close>

definition buffer_block ::
  "('s, 'd) engines \<Rightarrow> crypto \<Rightarrow> bool \<Rightarrow> instant \<Rightarrow> u64 \<Rightarrow> string \<Rightarrow> json \<Rightarrow>
     ('s, 'd) join_buffer \<Rightarrow> live_update list \<Rightarrow> (persist_end + unit) \<times> ('s, 'd) join_buffer \<times> live_update list" where
  "buffer_block E C listening t1 height expected_hash block buf pub =
     (case prepare_block (en_ser E) C expected_hash block of
        None \<Rightarrow> (Inl Persist_ok, buf, pub)
      | Some (hash_bytes, tx_hashes, b) \<Rightarrow>
          (case on_block E height hash_bytes tx_hashes b t1 buf of
             (Inl e, buf') \<Rightarrow> (Inl (Persist_err e), buf', pub)
           | (Inr outcome, buf') \<Rightarrow>
               if outcome = Deferred then (Inl Persist_ok, buf', pub)
               else (Inr (), buf', announce_block listening block pub)))"

definition join_live_logs ::
  "('s, 'd) engines \<Rightarrow> ingest_cfg \<Rightarrow> upstream \<Rightarrow> instant \<Rightarrow> u64 \<Rightarrow> ('s, 'd) join_buffer \<Rightarrow> persist_end \<times> ('s, 'd) join_buffer" where
  "join_live_logs E cfg up t2 height buf =
     (case fetch_logs_for_height cfg up height of
        Parked \<Rightarrow> (Persist_parked, buf)
      | Gave_up \<Rightarrow> (Persist_ok, buf)
      | Got logs \<Rightarrow>
          let logs_bytes = (case to_vec (en_ser E) logs of None \<Rightarrow> EMPTY_ARRAY | Some l \<Rightarrow> l)
          in case on_logs E height logs_bytes t2 buf of
               (Inl e, buf') \<Rightarrow> (Persist_err e, buf')
             | (Inr _, buf') \<Rightarrow> (Persist_ok, buf'))"

definition persist_block_logs ::
  "('s, 'd) engines \<Rightarrow> crypto \<Rightarrow> ingest_cfg \<Rightarrow> upstream \<Rightarrow> bool \<Rightarrow> instant \<Rightarrow> instant \<Rightarrow> u64 \<Rightarrow> string \<Rightarrow> json \<Rightarrow>
     ('s, 'd) join_buffer \<Rightarrow> live_update list \<Rightarrow> persist_end \<times> ('s, 'd) join_buffer \<times> live_update list" where
  "persist_block_logs E C cfg up listening t1 t2 height expected_hash block buf pub =
     (case buffer_block E C listening t1 height expected_hash block buf pub of
        (Inl r, buf', pub') \<Rightarrow> (r, buf', pub')
      | (Inr _, buf', pub') \<Rightarrow>
          (case join_live_logs E cfg up t2 height buf' of (r, buf'') \<Rightarrow> (r, buf'', pub')))"

datatype backfill_error = Bf_missing_hash | Bf_hash codec_error | Bf_serialize | Bf_storage storage_error

definition persist_backfilled ::
  "('s, 'd) engines \<Rightarrow> crypto \<Rightarrow> u64 \<Rightarrow> json \<Rightarrow> bytes \<Rightarrow> ('s, 'd) storage \<Rightarrow>
     (backfill_error + unit) \<times> ('s, 'd) storage" where
  "persist_backfilled E C height block logs st =
     (case jget_str block ''hash'' of
        None \<Rightarrow> (Inl Bf_missing_hash, st)
      | Some body_hash \<Rightarrow>
          (case decode_hash C body_hash of
             Inl e \<Rightarrow> (Inl (Bf_hash e), st)
           | Inr hash_bytes \<Rightarrow>
               (case to_vec (en_ser E) block of
                  None \<Rightarrow> (Inl Bf_serialize, st)
                | Some b \<Rightarrow>
                    (case put E height hash_bytes (extract_tx_hashes C block) [b, logs] st of
                       (r, st') \<Rightarrow> (map_err Bf_storage r, st')))))"

section \<open>The live session\<close>

datatype ('s, 'd) sink = Direct "('s, 'd) storage" | Joined "('s, 'd) join_buffer"

fun sink_storage :: "('s, 'd) sink \<Rightarrow> ('s, 'd) storage" where
  "sink_storage (Direct st) = st"
| "sink_storage (Joined buf) = jb_storage buf"

record ('s, 'd) live_state =
  lv_sink :: "('s, 'd) sink"
  lv_aimd :: aimd_delay
  lv_published :: "live_update list"

datatype ws_input = In_frame json | In_idle | In_end

datatype session_end = Session_closed | Session_idle | Session_storage storage_error | Session_parked | Session_open

definition persist_live ::
  "('s, 'd) engines \<Rightarrow> crypto \<Rightarrow> ingest_cfg \<Rightarrow> upstream \<Rightarrow> bool \<Rightarrow> instant \<Rightarrow> u64 \<Rightarrow> string \<Rightarrow> json \<Rightarrow>
     ('s, 'd) live_state \<Rightarrow> persist_end \<times> ('s, 'd) live_state" where
  "persist_live E C cfg up listening now height hash block lv =
     (case lv_sink lv of
        Joined buf \<Rightarrow>
          (case persist_block_logs E C cfg up listening now now height hash block buf (lv_published lv) of
             (r, buf', pub) \<Rightarrow> (r, lv\<lparr>lv_sink := Joined buf', lv_published := pub\<rparr>))
      | Direct st \<Rightarrow>
          (case persist_block E C listening height hash block st (lv_published lv) of
             (r, st', pub) \<Rightarrow> (r, lv\<lparr>lv_sink := Direct st', lv_published := pub\<rparr>)))"

text \<open>One event of a session: whether the loop goes on (\<open>None\<close>) or how it ends.\<close>

definition session_event ::
  "('s, 'd) engines \<Rightarrow> crypto \<Rightarrow> ingest_cfg \<Rightarrow> upstream \<Rightarrow> bool \<Rightarrow> instant \<Rightarrow> ws_event \<Rightarrow>
     ('s, 'd) live_state \<Rightarrow> session_end option \<times> ('s, 'd) live_state" where
  "session_event E C cfg up listening now ev lv =
     (let continue_with = (\<lambda>height hash block lv.
            case persist_live E C cfg up listening now height hash block lv of
              (Persist_ok, lv') \<Rightarrow> (None, lv')
            | (Persist_err e, lv') \<Rightarrow> (Some (Session_storage e), lv')
            | (Persist_parked, lv') \<Rightarrow> (Some Session_parked, lv'))
      in case ev of
           Ev_subscribed \<Rightarrow> (None, lv)
         | Ev_new_block height hash block \<Rightarrow> continue_with height hash block lv
         | Ev_new_head height hash \<Rightarrow>
             (case fetch_full_block cfg up height (Some (lv_aimd lv)) of
                (r, a, _) \<Rightarrow>
                  let lv' = lv\<lparr>lv_aimd := (case a of None \<Rightarrow> lv_aimd lv | Some x \<Rightarrow> x)\<rparr>
                  in case r of
                       Got block \<Rightarrow> continue_with height hash block lv'
                     | Gave_up \<Rightarrow> (None, lv')
                     | Parked \<Rightarrow> (Some Session_parked, lv')))"

fun run_session ::
  "('s, 'd) engines \<Rightarrow> crypto \<Rightarrow> ingest_cfg \<Rightarrow> (nat \<Rightarrow> upstream) \<Rightarrow> bool \<Rightarrow> (nat \<Rightarrow> instant) \<Rightarrow> nat \<Rightarrow>
     ws_input list \<Rightarrow> ('s, 'd) live_state \<Rightarrow> session_end \<times> ('s, 'd) live_state" where
  "run_session E C cfg ups listening clk n [] lv = (Session_open, lv)"
| "run_session E C cfg ups listening clk n (In_idle # is) lv = (Session_idle, lv)"
| "run_session E C cfg ups listening clk n (In_end # is) lv = (Session_closed, lv)"
| "run_session E C cfg ups listening clk n (In_frame v # is) lv =
     (case classify_frame v of
        None \<Rightarrow> run_session E C cfg ups listening clk (Suc n) is lv
      | Some ev \<Rightarrow>
          (case session_event E C cfg (ups n) listening (clk n) ev lv of
             (None, lv') \<Rightarrow> run_session E C cfg ups listening clk (Suc n) is lv'
           | (Some e, lv') \<Rightarrow> (e, lv')))"

section \<open>Historical bootstrap of a mirror\<close>

datatype boot_end =
    Boot_current
  | Boot_done
  | Boot_health
  | Boot_connect
  | Boot_parked
  | Boot_ended u64
  | Boot_idle u64
  | Boot_persist backfill_error
  | Boot_open

definition fetch_upstream_contiguous :: "http_reply \<Rightarrow> u64 option" where
  "fetch_upstream_contiguous reply =
     (case reply of
        Net_error \<Rightarrow> None
      | Net_reply status hdr body \<Rightarrow>
          if \<not> is_success status then None
          else Option.bind body (\<lambda>v. upstream_blocks_field v Chain_C ''max_contiguous_height''))"

definition bootstrap_from :: "u64 option \<Rightarrow> u64 \<Rightarrow> u64" where
  "bootstrap_from backfill_floor have =
     max (case backfill_floor of None \<Rightarrow> 0 | Some f \<Rightarrow> f) (sat_add have 1)"

fun boot_stream ::
  "('s, 'd) engines \<Rightarrow> crypto \<Rightarrow> u64 \<Rightarrow> ws_input list \<Rightarrow> ('s, 'd) storage \<Rightarrow> boot_end \<times> ('s, 'd) storage" where
  "boot_stream E C target [] st = (Boot_open, st)"
| "boot_stream E C target (In_idle # is) st = (Boot_idle target, st)"
| "boot_stream E C target (In_end # is) st = (Boot_ended target, st)"
| "boot_stream E C target (In_frame v # is) st =
     (case classify_frame v of
        Some (Ev_new_block height hash block) \<Rightarrow>
          (case persist_backfilled E C height block EMPTY_ARRAY st of
             (Inl e, st') \<Rightarrow> (Boot_persist e, st')
           | (Inr _, st') \<Rightarrow>
               if height \<ge> target then (Boot_done, st') else boot_stream E C target is st')
      | _ \<Rightarrow> boot_stream E C target is st)"

section \<open>Lemmas on the fetch loop\<close>

definition reply_throttled :: "http_reply \<Rightarrow> bool" where
  "reply_throttled r = (case r of Net_error \<Rightarrow> False | Net_reply status _ _ \<Rightarrow> is_throttled status)"

text \<open>A reply after which the loop tries again.\<close>

definition retries :: "ingest_cfg \<Rightarrow> http_reply \<Rightarrow> bool" where
  "retries cfg r = (case r of
      Net_error \<Rightarrow> False
    | Net_reply status hdr body \<Rightarrow>
        if is_throttled status then from_secs (default_retry_after hdr) \<le> cfg_max_wait cfg
        else (case body of None \<Rightarrow> False | Some v \<Rightarrow> rpc_result v = None))"

text \<open>A reply that carries the answer, and one that asks for a longer wait than is allowed.\<close>

definition answers :: "http_reply \<Rightarrow> json \<Rightarrow> bool" where
  "answers r v = (case r of
      Net_error \<Rightarrow> False
    | Net_reply status hdr body \<Rightarrow>
        \<not> is_throttled status \<and> (case body of None \<Rightarrow> False | Some p \<Rightarrow> rpc_result p = Some v))"

lemma slept_Got: "slept d m = (Got r, a, ds) \<longleftrightarrow> (\<exists>es. m = (Got r, a, es) \<and> ds = d # es)"
  by (cases m) (auto simp: slept_def)

lemma fst_slept [simp]: "fst (slept d m) = fst m"
  by (cases m) (simp add: slept_def)

lemma aimd_slept [simp]: "fst (snd (slept d m)) = fst (snd m)"
  by (cases m) (simp add: slept_def)

lemma sleeps_slept [simp]: "snd (snd (slept d m)) = d # snd (snd m)"
  by (cases m) (simp add: slept_def)

lemma handle_throttle_cases:
  "handle_throttle cfg r = (if from_secs r \<le> cfg_max_wait cfg then Slept (from_secs r) else Fatal)"
  by (auto simp: handle_throttle_def Let_def)

definition parks :: "ingest_cfg \<Rightarrow> http_reply \<Rightarrow> bool" where
  "parks cfg r = (case r of
      Net_error \<Rightarrow> False
    | Net_reply status hdr body \<Rightarrow> is_throttled status \<and> cfg_max_wait cfg < from_secs (default_retry_after hdr))"

lemma first_in_window:
  "(\<exists>i. k \<le> i \<and> i < k + Suc n \<and> P i \<and> (\<forall>j. k \<le> j \<and> j < i \<longrightarrow> Q j)) \<longleftrightarrow>
     P k \<or> Q k \<and> (\<exists>i. Suc k \<le> i \<and> i < Suc k + n \<and> P i \<and> (\<forall>j. Suc k \<le> j \<and> j < i \<longrightarrow> Q j))" (is "?L \<longleftrightarrow> ?R")
proof
  assume ?L
  then obtain i where i: "k \<le> i" "i < k + Suc n" "P i" "\<forall>j. k \<le> j \<and> j < i \<longrightarrow> Q j" by blast
  then show ?R by (cases "i = k") (auto intro!: exI [of _ i])
next
  assume ?R
  then show ?L
  proof
    assume "P k"
    then show ?L by (auto intro!: exI [of _ k])
  next
    assume "Q k \<and> (\<exists>i. Suc k \<le> i \<and> i < Suc k + n \<and> P i \<and> (\<forall>j. Suc k \<le> j \<and> j < i \<longrightarrow> Q j))"
    then obtain i where i: "Q k" "Suc k \<le> i" "i < Suc k + n" "P i" "\<forall>j. Suc k \<le> j \<and> j < i \<longrightarrow> Q j" by blast
    have "Q j" if "k \<le> j" "j < i" for j using that i(1,5) by (cases "j = k") auto
    with i show ?L by (auto intro!: exI [of _ i])
  qed
qed

lemma rpc_attempts_got:
  "fst (rpc_attempts cfg net left k rc a) = Got v \<longleftrightarrow>
     (\<exists>i. k \<le> i \<and> i < k + left \<and> answers (net i) v \<and> (\<forall>j. k \<le> j \<and> j < i \<longrightarrow> retries cfg (net j)))"
proof (induction left arbitrary: k rc a)
  case (Suc left)
  show ?case
    unfolding first_in_window rpc_attempts.simps
    by (cases "net k")
      (auto simp: Suc.IH answers_def retries_def handle_throttle_cases Let_def split: option.splits)
qed simp

lemma rpc_attempts_parked:
  "fst (rpc_attempts cfg net left k rc a) = Parked \<longleftrightarrow>
     (\<exists>i. k \<le> i \<and> i < k + left \<and> parks cfg (net i) \<and> (\<forall>j. k \<le> j \<and> j < i \<longrightarrow> retries cfg (net j)))"
proof (induction left arbitrary: k rc a)
  case (Suc left)
  show ?case
    unfolding first_in_window rpc_attempts.simps
    by (cases "net k")
      (auto simp: Suc.IH parks_def retries_def handle_throttle_cases Let_def split: option.splits)
qed simp

lemma rpc_attempts_local:
  assumes "\<forall>i. k \<le> i \<and> i < k + left \<longrightarrow> net i = net' i"
  shows "rpc_attempts cfg net left k rc a = rpc_attempts cfg net' left k rc a"
  using assms
proof (induction left arbitrary: k rc a)
  case (Suc left)
  have "net k = net' k" using Suc.prems by auto
  moreover have "rpc_attempts cfg net left (Suc k) rc' a' = rpc_attempts cfg net' left (Suc k) rc' a'" for rc' a'
    by (rule Suc.IH) (use Suc.prems in auto)
  ultimately show ?case by (simp only: rpc_attempts.simps)
qed simp

lemma rpc_attempts_aimd:
  "fst (snd (rpc_attempts cfg net left k rc a)) = a \<or>
   \<not> rc \<and> (\<exists>b. fst (snd (rpc_attempts cfg net left k rc a)) = map_option (aimd_record b) a)"
proof (induction left arbitrary: k rc a)
  case (Suc left)
  show ?case
  proof (cases "net k")
    case (Net_reply status hdr body)
    show ?thesis
    proof (cases "is_throttled status")
      case True
      with Net_reply Suc.IH [of "Suc k" rc a] show ?thesis by (auto simp: handle_throttle_cases)
    next
      case False
      have rec: "fst (snd (rpc_attempts cfg net left (Suc k) True b)) = b" for b
        using Suc.IH [of "Suc k" True b] by simp
      show ?thesis
        using Net_reply False by (auto simp: rec Let_def split: option.splits)
    qed
  qed simp
qed simp

lemma rpc_attempts_sleeps:
  assumes "k + left \<le> 3"
  shows "length (snd (snd (rpc_attempts cfg net left k rc a))) \<le> left \<and>
    (\<forall>d\<in>set (snd (snd (rpc_attempts cfg net left k rc a))). d \<le> max (cfg_max_wait cfg) (from_millis 100))"
  using assms
proof (induction left arbitrary: k rc a)
  case (Suc left)
  have IH: "length (snd (snd (rpc_attempts cfg net left (Suc k) rc' a'))) \<le> left \<and>
    (\<forall>d\<in>set (snd (snd (rpc_attempts cfg net left (Suc k) rc' a'))). d \<le> max (cfg_max_wait cfg) (from_millis 100))"
    for rc' a' using Suc.IH [of "Suc k"] Suc.prems by simp
  have "(2 :: nat) ^ k \<le> 2 ^ 2" by (rule power_increasing) (use Suc.prems in auto)
  then have b: "sat_mul RPC_RETRY_BACKOFF_MS (2 ^ min k 10) \<le> 100"
    using Suc.prems by (simp add: sat_mul_def RPC_RETRY_BACKOFF_MS_def u64_max_def)
  then have "from_millis (sat_mul RPC_RETRY_BACKOFF_MS (2 ^ min k 10)) \<le> from_millis 100"
    unfolding from_millis_def by (rule mult_le_mono1)
  then show ?case
    using IH by (cases "net k") (auto simp: handle_throttle_cases Let_def max_def split: option.splits)
qed simp

lemma aimd_record_bounded: "ad_delay a \<le> ad_max a \<Longrightarrow> ad_delay (aimd_record b a) \<le> ad_max (aimd_record b a)"
  by (auto simp: aimd_record_def)

lemma aimd_record_max [simp]: "ad_max (aimd_record b a) = ad_max a"
  by (simp add: aimd_record_def)

text \<open>What a fetch takes of the replies, what it answers, and what it costs.\<close>

lemma fetch_rpc_budget:
  assumes "fetch_rpc cfg up meth params (Some a) = (r, a', ds)"
  shows "(\<forall>up'. (\<forall>i<3. up' (rpc_body meth params) i = up (rpc_body meth params) i) \<longrightarrow>
        fetch_rpc cfg up' meth params (Some a) = (r, a', ds)) \<and>
    (\<forall>v. r = Got v \<longleftrightarrow> (\<exists>i<3. answers (up (rpc_body meth params) i) v \<and>
        (\<forall>j<i. retries cfg (up (rpc_body meth params) j)))) \<and>
    (r = Parked \<longleftrightarrow> (\<exists>i<3. parks cfg (up (rpc_body meth params) i) \<and>
        (\<forall>j<i. retries cfg (up (rpc_body meth params) j)))) \<and>
    length ds \<le> 4 \<and>
    (\<forall>d\<in>set ds. d \<le> max (max (cfg_max_wait cfg) (from_millis 100)) (ad_delay a)) \<and>
    (a' = Some a \<or> (\<exists>b. a' = Some (aimd_record b a)))"
proof -
  let ?net = "up (rpc_body meth params)"
  let ?pre = "if ad_delay a = 0 then [] else [ad_delay a]"
  obtain es where at: "rpc_attempts cfg ?net 3 0 False (Some a) = (r, a', es)" and ds: "ds = ?pre @ es"
    using assms by (cases "rpc_attempts cfg ?net 3 0 False (Some a)")
      (simp add: fetch_rpc_def RPC_MAX_ATTEMPTS_def Let_def)
  have got: "r = Got v \<longleftrightarrow> (\<exists>i<3. answers (?net i) v \<and> (\<forall>j<i. retries cfg (?net j)))" for v
    using rpc_attempts_got [of cfg ?net 3 0 False "Some a" v] at by simp
  have parked: "r = Parked \<longleftrightarrow> (\<exists>i<3. parks cfg (?net i) \<and> (\<forall>j<i. retries cfg (?net j)))"
    using rpc_attempts_parked [of cfg ?net 3 0 False "Some a"] at by simp
  have local: "fetch_rpc cfg up' meth params (Some a) = (r, a', ds)"
    if "\<forall>i<3. up' (rpc_body meth params) i = ?net i" for up'
    using rpc_attempts_local [of 0 3 "up' (rpc_body meth params)" ?net cfg False "Some a"] that at ds
    by (simp add: fetch_rpc_def RPC_MAX_ATTEMPTS_def Let_def)
  have sl: "length es \<le> 3" "\<forall>d\<in>set es. d \<le> max (cfg_max_wait cfg) (from_millis 100)"
    using rpc_attempts_sleeps [of 0 3 cfg ?net False "Some a"] at by simp_all
  have "a' = Some a \<or> (\<exists>b. a' = Some (aimd_record b a))"
    using rpc_attempts_aimd [of cfg ?net 3 0 False "Some a"] at by simp
  moreover have "length ds \<le> 4" using ds sl(1) by auto
  moreover have "\<forall>d\<in>set ds. d \<le> max (max (cfg_max_wait cfg) (from_millis 100)) (ad_delay a)"
    using ds sl(2) by (auto simp: max_def split: if_splits)
  ultimately show ?thesis using got parked local by blast
qed

definition ref_cfg :: ingest_cfg where
  "ref_cfg = \<lparr>cfg_chain = Chain_C, cfg_max_wait = from_secs 60, cfg_ws_idle_timeout = from_secs 120,
     cfg_ws_url = ''ws'', cfg_rpc_url = ''http'', cfg_poll_interval = from_secs 1,
     cfg_subscribe_blocks = False, cfg_backfill_inter_fetch = 0, cfg_fetch_concurrency = 4,
     cfg_backfill_floor = None, cfg_prefetch_delay_cap = 0, cfg_progress_period = from_secs 10,
     cfg_ingest_logs = True, cfg_logs_source = GetLogs\<rparr>"



section \<open>Lemmas on persistence\<close>

lemma prepare_block_Some:
  assumes "prepare_block S C expected block = Some (hash, txs, b)"
  shows "decode_hash C expected = Inr hash" "to_vec S block = Some b" "txs = extract_tx_hashes C block"
    "(case jget_str block ''hash'' of None \<Rightarrow> [] | Some h \<Rightarrow> h) = expected"
  using assms by (auto simp: prepare_block_def Let_def split: if_splits sum.splits option.splits)

lemma prepare_block_hash:
  "prepare_block S C expected block = Some (hash, txs, b) \<Longrightarrow> expected \<noteq> [] \<Longrightarrow>
     jget_str block ''hash'' = Some expected"
  by (drule prepare_block_Some(4)) (auto split: option.splits)

lemma announce_block_cases: "announce_block l block pub = pub \<or>
    announce_block l block pub = pub @ [\<lparr>lu_block = block, lu_record = None\<rparr>]"
  by (simp add: announce_block_def)

text \<open>What \<open>on_block\<close> leaves of a block it does not defer.\<close>

lemma on_block_stays:
  assumes "on_block E h hash txs b t buf = (Inr out, buf')" "out \<noteq> Deferred"
  shows "buffered_block buf' h = Some b \<and> jb_storage buf' = jb_storage buf \<or>
    map_of (jb_pending buf') h = None \<and>
      (\<exists>l. map_of (jb_pending buf) h = Some (Pending_Logs l) \<and>
        put E h hash txs [b, pl_bytes l] (jb_storage buf) = (Inr (), jb_storage buf'))"
  using assms
  by (cases "map_of (jb_pending buf) h")
    (auto simp: on_block_def decide_block_def Let_def buffered_block_def
      split: if_splits pending.splits prod.splits sum.splits)

lemma buffered_block_pending:
  "buffered_block buf h = Some b \<Longrightarrow> \<exists>pb. map_of (jb_pending buf) h = Some (Pending_Block pb) \<and> pb_bytes pb = b"
  by (auto simp: buffered_block_def split: option.splits pending.splits)

lemma on_logs_writes:
  assumes "on_logs E h l t buf = (Inr out, buf')"
  shows "if \<exists>pb. map_of (jb_pending buf) h = Some (Pending_Block pb)
    then \<exists>hash txs b. buffered_block buf h = Some b \<and> put E h hash txs [b, l] (jb_storage buf) = (Inr (), jb_storage buf')
    else jb_storage buf' = jb_storage buf"
  using assms
  by (auto simp: on_logs_def decide_logs_def Let_def buffered_block_def
      split: option.splits pending.splits prod.splits sum.splits if_splits) blast

lemma buffer_block_announces:
  assumes "buffer_block E C listening t h expected block buf pub = (q, buf', pub')" "pub' \<noteq> pub"
  obtains hash txs b out where "q = Inr ()" "prepare_block (en_ser E) C expected block = Some (hash, txs, b)"
    "on_block E h hash txs b t buf = (Inr out, buf')" "out \<noteq> Deferred"
    "pub' = pub @ [\<lparr>lu_block = block, lu_record = None\<rparr>]"
  using assms
  by (auto simp: buffer_block_def announce_block_def split: option.splits prod.splits sum.splits if_splits)

text \<open>A block of a height, buffered or stored with some logs.\<close>

definition available :: "('s \<Rightarrow> u64 \<rightharpoonup> bytes) \<Rightarrow> ('s, 'd) join_buffer \<Rightarrow> u64 \<Rightarrow> bytes \<Rightarrow> bool" where
  "available content buf h b \<longleftrightarrow> buffered_block buf h = Some b \<or>
     map_of (jb_pending buf) h = None \<and> (\<exists>l. stored content (jb_storage buf) h = Some (encode [b, l]))"

context storage_engine
begin

lemma put_stored_here:
  "storage_wf wf st \<Longrightarrow> put E h hash txs [b, l] st = (Inr (), st') \<Longrightarrow>
     stored content st' h = Some (encode [b, l])"
  using put_ok(2) [of st h hash txs "[b, l]" st'] by simp

text \<open>Joining the logs leaves the block to be read, unless the write of the pair fails.\<close>

lemma join_live_logs_available:
  assumes "storage_wf wf (jb_storage buf)" "available content buf h b"
    and "join_live_logs E cfg up t h buf = (r, buf')" "\<forall>e. r \<noteq> Persist_err e"
  shows "buffered_block buf' h = Some b \<or> (\<exists>l. stored content (jb_storage buf') h = Some (encode [b, l]))"
proof (cases "\<exists>l out. on_logs E h l t buf = (Inr out, buf')")
  case True
  then obtain l out where o: "on_logs E h l t buf = (Inr out, buf')" by blast
  from assms(2) show ?thesis
  proof (unfold available_def, elim disjE conjE)
    assume "buffered_block buf h = Some b"
    with on_logs_writes [OF o] buffered_block_pending [OF this] put_stored_here [OF assms(1)] show ?thesis by fastforce
  qed (use on_logs_writes [OF o] in auto)
next
  case False
  then have "buf' = buf"
    using assms(3,4) by (auto simp: join_live_logs_def Let_def split: rpc_fetch.splits prod.splits sum.splits)
  with assms(2) show ?thesis by (auto simp: available_def)
qed

end

definition ref_hash :: string where
  "ref_hash = replicate 64 (CHR ''a'')"

definition ref_block :: json where
  "ref_block = JObj [(''hash'', JStr ref_hash), (''number'', JStr ''0x7''), (''transactions'', JArr [])]"

lemma ref_block_facts:
  "plain ref_block" "jget_str ref_block ''hash'' = Some ref_hash" "ref_hash \<noteq> []"
  by (simp_all add: ref_block_def jget_str_def ref_hash_def)

lemma ref_hash_decodes: "\<exists>raw. decode_hash ref_crypto ref_hash = Inr raw"
proof -
  have "strip_prefix ''0x'' ref_hash = None" by (simp add: ref_hash_def numeral_eq_Suc)
  then have "trim_start_matches ''0x'' ref_hash = ref_hash" by (rule trim_start_matches_no_prefix)
  moreover have "\<exists>raw. ref_hex_decode ref_hash = Some raw \<and> length raw = 32"
    by (simp add: ref_hash_def numeral_eq_Suc to_digit_def)
  ultimately show ?thesis by (auto simp: decode_hash_def ref_crypto_def)
qed

lemma ref_block_prepared:
  "\<exists>raw txs. prepare_block ref_serde ref_crypto ref_hash ref_block = Some (raw, txs, print_json ref_block)"
  using ref_hash_decodes ref_block_facts
  by (auto simp: prepare_block_def ref_serde_def ref_to_vec_def)

end
