(* ===== verification/Eth_Rpc.thy ===== *)
theory Eth_Rpc
  imports Eth_Ingest
begin

text \<open>
  The C-chain serving dialect (\<open>eth/rpc.rs\<close>) with the parameter parsers it shares with the
  rest of the server (\<open>rpc.rs\<close>): block selectors and tags, block and transaction reads,
  \<open>eth_getLogs\<close> with its range checks and chunked scan, and the parsing of a subscription
  request. A method answers an error, a miss (\<open>Inr None\<close>, which the HTTP layer turns into a
  421), or a value. The scan reads one chunk at a time while the store may change, so it
  takes the sequence of stores it sees. The readers are also set against the writers: what a live block
  that is announced, or a backfilled one, answers when it is read.
\<close>

section \<open>Parameters\<close>

datatype rpc_error =
    Bad_hash
  | Hash_not_32_bytes
  | Invalid_quantity string
  | Invalid_block_number string
  | Unsupported_tag string
  | No_blocks_yet
  | Rpc_storage storage_error
  | Stored_block_decode
  | Buffered_block_decode
  | Stored_logs_decode
  | From_after_to u64 u64
  | Range_too_large u64
  | Unsupported_kind string

definition strip_0x :: "string \<Rightarrow> string" where
  "strip_0x s = (case strip_prefix ''0x'' s of None \<Rightarrow> s | Some r \<Rightarrow> r)"

definition parse_hash :: "crypto \<Rightarrow> string \<Rightarrow> rpc_error + hash32" where
  "parse_hash C s =
     (case cr_hex_decode C (strip_0x s) of
        None \<Rightarrow> Inl Bad_hash
      | Some raw \<Rightarrow> if length raw = 32 then Inr raw else Inl Hash_not_32_bytes)"

definition parse_quantity :: "string \<Rightarrow> rpc_error + u64" where
  "parse_quantity q = ok_or (from_str_radix 16 (strip_0x q)) (Invalid_quantity q)"

section \<open>Filters\<close>

definition MAX_GETLOGS_RANGE :: u64 where
  "MAX_GETLOGS_RANGE = 2048"

definition GETLOGS_READ_CHUNK :: u64 where
  "GETLOGS_READ_CHUNK = 256"

datatype one_or_many = One_value string | Many_values "string list"

fun slot_matches :: "one_or_many \<Rightarrow> string \<Rightarrow> bool" where
  "slot_matches (One_value s) c = eq_ignore_ascii_case s c"
| "slot_matches (Many_values v) c = (\<exists>s\<in>set v. eq_ignore_ascii_case s c)"

record log_filter =
  lf_from_block :: "string option"
  lf_to_block :: "string option"
  lf_block_hash :: "string option"
  lf_address :: "one_or_many option"
  lf_topics :: "one_or_many option list option"

fun topics_match :: "json list \<Rightarrow> nat \<Rightarrow> one_or_many option list \<Rightarrow> bool" where
  "topics_match log_topics i [] = True"
| "topics_match log_topics i (None # slots) = topics_match log_topics (Suc i) slots"
| "topics_match log_topics i (Some slot # slots) =
     (case Option.bind (get_nth log_topics i) as_str of
        None \<Rightarrow> False
      | Some t \<Rightarrow> slot_matches slot t \<and> topics_match log_topics (Suc i) slots)"

definition log_matches :: "json \<Rightarrow> one_or_many option \<Rightarrow> one_or_many option list option \<Rightarrow> bool" where
  "log_matches l address topics \<longleftrightarrow>
     (case address of
        None \<Rightarrow> True
      | Some a \<Rightarrow> slot_matches a (case jget_str l ''address'' of None \<Rightarrow> [] | Some s \<Rightarrow> s)) \<and>
     (case topics of
        None \<Rightarrow> True
      | Some ts \<Rightarrow> topics_match (case jget_arr l ''topics'' of None \<Rightarrow> [] | Some a \<Rightarrow> a) 0 ts)"

section \<open>Reading blocks\<close>

record ('s, 'd) eth_api =
  ea_storage :: "('s, 'd) storage"
  ea_chain_id :: u64
  ea_join :: "('s, 'd) join_buffer option"
  ea_ingests_logs :: bool

datatype block_selector = Sel_number string | Sel_hash string | Sel_height u64

definition from_storage :: "storage_error + 'a \<Rightarrow> rpc_error + 'a" where
  "from_storage m = map_err Rpc_storage m"

definition parse_or :: "rpc_error \<Rightarrow> serde \<Rightarrow> bytes \<Rightarrow> rpc_error + json" where
  "parse_or e S b = ok_or (from_slice S b) e"

definition read_block_value ::
  "('s, 'd) engines \<Rightarrow> ('s, 'd) eth_api \<Rightarrow> u64 \<Rightarrow> rpc_error + json option" where
  "read_block_value E api height =
     and_then (from_storage (deref_view (get_by_height E (ea_storage api) height))) (\<lambda>r.
       case r of
         Some b \<Rightarrow> and_then (parse_or Stored_block_decode (en_ser E) b) (\<lambda>v. Inr (Some v))
       | None \<Rightarrow>
           (case Option.bind (ea_join api) (\<lambda>jb. buffered_block jb height) of
              Some raw \<Rightarrow> and_then (parse_or Buffered_block_decode (en_ser E) raw) (\<lambda>v. Inr (Some v))
            | None \<Rightarrow> Inr None))"

definition resolve_block_tag :: "('s, 'd) engines \<Rightarrow> ('s, 'd) eth_api \<Rightarrow> string \<Rightarrow> rpc_error + u64" where
  "resolve_block_tag E api tag =
     (if tag \<in> {''latest'', ''finalized'', ''safe''} then
        let hw = high_water E (ea_storage api) in if hw = 0 then Inl No_blocks_yet else Inr hw
      else if tag \<in> {''earliest'', ''pending''} then Inl (Unsupported_tag tag)
      else ok_or (from_str_radix 16 (strip_0x tag)) (Invalid_block_number tag))"

definition lookup_block ::
  "('s, 'd) engines \<Rightarrow> crypto \<Rightarrow> ('s, 'd) eth_api \<Rightarrow> block_selector \<Rightarrow> (json \<Rightarrow> 'a option) \<Rightarrow> rpc_error + 'a option" where
  "lookup_block E C api sel proj =
     and_then
       (case sel of
          Sel_number tag \<Rightarrow> and_then (resolve_block_tag E api tag) (read_block_value E api)
        | Sel_height h \<Rightarrow> read_block_value E api h
        | Sel_hash hash \<Rightarrow>
            and_then (parse_hash C hash) (\<lambda>arr.
            and_then (from_storage (deref_view (get_by_hash E (ea_storage api) arr))) (\<lambda>r.
              case r of
                Some b \<Rightarrow> and_then (parse_or Stored_block_decode (en_ser E) b) (\<lambda>v. Inr (Some v))
              | None \<Rightarrow> Inr None)))
       (\<lambda>v. case v of None \<Rightarrow> Inr None | Some block \<Rightarrow> Inr (proj block))"

definition tx_count_hex :: "json \<Rightarrow> string" where
  "tx_count_hex v =
     ''0x'' @ to_hex (case jget_arr v ''transactions'' of None \<Rightarrow> 0 | Some txs \<Rightarrow> length txs)"

definition nth_transaction :: "json \<Rightarrow> nat \<Rightarrow> json option" where
  "nth_transaction v idx =
     Option.bind (jget_arr v ''transactions'') (\<lambda>txs. if idx < length txs then Some (fst (swap_remove txs idx)) else None)"

definition shape_tx :: "json \<Rightarrow> json" where
  "shape_tx tx = (case jget tx ''hash'' of None \<Rightarrow> tx | Some h \<Rightarrow> h)"

definition shape_block :: "json \<Rightarrow> bool \<Rightarrow> json" where
  "shape_block v full_tx =
     (if full_tx then v
      else case jget_arr v ''transactions'' of
        None \<Rightarrow> v
      | Some txs \<Rightarrow> set_member ''transactions'' (JArr (map shape_tx txs)) v)"

section \<open>Methods\<close>

definition eth_chain_id :: "('s, 'd) eth_api \<Rightarrow> string" where
  "eth_chain_id api = ''0x'' @ to_hex (ea_chain_id api)"

definition eth_block_number :: "('s, 'd) engines \<Rightarrow> ('s, 'd) eth_api \<Rightarrow> string" where
  "eth_block_number E api = ''0x'' @ to_hex (high_water E (ea_storage api))"

definition get_block_by_number ::
  "('s, 'd) engines \<Rightarrow> crypto \<Rightarrow> ('s, 'd) eth_api \<Rightarrow> string \<Rightarrow> bool \<Rightarrow> rpc_error + json option" where
  "get_block_by_number E C api block full_tx =
     lookup_block E C api (Sel_number block) (\<lambda>v. Some (shape_block v full_tx))"

definition get_block_by_hash ::
  "('s, 'd) engines \<Rightarrow> crypto \<Rightarrow> ('s, 'd) eth_api \<Rightarrow> string \<Rightarrow> bool \<Rightarrow> rpc_error + json option" where
  "get_block_by_hash E C api hash full_tx =
     lookup_block E C api (Sel_hash hash) (\<lambda>v. Some (shape_block v full_tx))"

definition get_block_transaction_count_by_number ::
  "('s, 'd) engines \<Rightarrow> crypto \<Rightarrow> ('s, 'd) eth_api \<Rightarrow> string \<Rightarrow> rpc_error + string option" where
  "get_block_transaction_count_by_number E C api block =
     lookup_block E C api (Sel_number block) (\<lambda>v. Some (tx_count_hex v))"

definition get_block_transaction_count_by_hash ::
  "('s, 'd) engines \<Rightarrow> crypto \<Rightarrow> ('s, 'd) eth_api \<Rightarrow> string \<Rightarrow> rpc_error + string option" where
  "get_block_transaction_count_by_hash E C api hash =
     lookup_block E C api (Sel_hash hash) (\<lambda>v. Some (tx_count_hex v))"

definition get_transaction_by_block_number_and_index ::
  "('s, 'd) engines \<Rightarrow> crypto \<Rightarrow> ('s, 'd) eth_api \<Rightarrow> string \<Rightarrow> string \<Rightarrow> rpc_error + json option" where
  "get_transaction_by_block_number_and_index E C api block index =
     and_then (parse_quantity index) (\<lambda>idx.
     lookup_block E C api (Sel_number block) (\<lambda>v. nth_transaction v idx))"

definition get_transaction_by_block_hash_and_index ::
  "('s, 'd) engines \<Rightarrow> crypto \<Rightarrow> ('s, 'd) eth_api \<Rightarrow> string \<Rightarrow> string \<Rightarrow> rpc_error + json option" where
  "get_transaction_by_block_hash_and_index E C api hash index =
     and_then (parse_quantity index) (\<lambda>idx.
     lookup_block E C api (Sel_hash hash) (\<lambda>v. nth_transaction v idx))"

definition get_transaction_by_hash ::
  "('s, 'd) engines \<Rightarrow> crypto \<Rightarrow> ('s, 'd) eth_api \<Rightarrow> string \<Rightarrow> rpc_error + json option" where
  "get_transaction_by_hash E C api hash =
     and_then (parse_hash C hash) (\<lambda>arr.
     and_then (from_storage (get_tx_location E (ea_storage api) arr)) (\<lambda>r.
       case r of
         None \<Rightarrow> Inr None
       | Some (height, tx_idx) \<Rightarrow>
           lookup_block E C api (Sel_height height) (\<lambda>v. nth_transaction v tx_idx)))"

section \<open>Scanning for logs\<close>

text \<open>The heights to scan, \<open>Inr None\<close> for a range that has to be left to a full node.\<close>

definition getlogs_range ::
  "('s, 'd) engines \<Rightarrow> crypto \<Rightarrow> ('s, 'd) eth_api \<Rightarrow> log_filter \<Rightarrow> rpc_error + (u64 \<times> u64) option" where
  "getlogs_range E C api f =
     (case lf_block_hash f of
        Some block_hash \<Rightarrow>
          and_then (parse_hash C block_hash) (\<lambda>arr.
          and_then (from_storage (height_of_hash E (ea_storage api) arr)) (\<lambda>r.
          Inr (map_option (\<lambda>h. (h, h)) r)))
      | None \<Rightarrow>
          and_then (resolve_block_tag E api (case lf_from_block f of None \<Rightarrow> ''latest'' | Some t \<Rightarrow> t)) (\<lambda>a.
          and_then (resolve_block_tag E api (case lf_to_block f of None \<Rightarrow> ''latest'' | Some t \<Rightarrow> t)) (\<lambda>b.
          if a > b then Inl (From_after_to a b)
          else let span = sat_add (b - a) 1 in
            if span > MAX_GETLOGS_RANGE then Inl (Range_too_large span)
            else if a < min_height E (ea_storage api) \<or> b > max_contiguous_height E (ea_storage api)
            then Inr None
            else Inr (Some (a, b)))))"

fun scan_chunk :: "serde \<Rightarrow> (json \<Rightarrow> bool) \<Rightarrow> bytes list \<Rightarrow> json list \<Rightarrow> rpc_error + json list" where
  "scan_chunk S p [] out = Inr out"
| "scan_chunk S p (logs_bytes # rest) out =
     (case from_slice S logs_bytes of
        None \<Rightarrow> Inl Stored_logs_decode
      | Some logs \<Rightarrow>
          scan_chunk S p rest (out @ filter p (case as_array logs of None \<Rightarrow> [] | Some arr \<Rightarrow> arr)))"

fun scan_range ::
  "nat \<Rightarrow> ('s, 'd) engines \<Rightarrow> (json \<Rightarrow> bool) \<Rightarrow> (nat \<Rightarrow> ('s, 'd) storage) \<Rightarrow> nat \<Rightarrow> u64 \<Rightarrow> u64 \<Rightarrow> json list \<Rightarrow>
     (rpc_error + json list option) option" where
  "scan_range 0 E p sts n chunk_start to out = None"
| "scan_range (Suc fuel) E p sts n chunk_start to out =
     (if chunk_start > to then Some (Inr (Some out))
      else
        let chunk_end = min (sat_add chunk_start GETLOGS_READ_CHUNK - 1) to
        in case read_element_range E (sts n) chunk_start chunk_end C_LOGS of
             Inl e \<Rightarrow> Some (Inl (Rpc_storage e))
           | Inr None \<Rightarrow> Some (Inr None)
           | Inr (Some per_height) \<Rightarrow>
               (case scan_chunk (en_ser E) p per_height out of
                  Inl e \<Rightarrow> Some (Inl e)
                | Inr out' \<Rightarrow> scan_range fuel E p sts (Suc n) (sat_add chunk_end 1) to out'))"

text \<open>
  \<open>eth_getLogs\<close>. The fuel is the number of heights plus one, more than one chunk each; \<open>None\<close>
  would mean that it was not enough.
\<close>

definition get_logs ::
  "('s, 'd) engines \<Rightarrow> crypto \<Rightarrow> ('s, 'd) eth_api \<Rightarrow> log_filter \<Rightarrow> (nat \<Rightarrow> ('s, 'd) storage) \<Rightarrow>
     (rpc_error + json option) option" where
  "get_logs E C api f sts =
     (if \<not> ea_ingests_logs api then Some (Inr None)
      else case getlogs_range E C api f of
        Inl e \<Rightarrow> Some (Inl e)
      | Inr None \<Rightarrow> Some (Inr None)
      | Inr (Some (a, b)) \<Rightarrow>
          map_option (\<lambda>r. and_then r (\<lambda>v. Inr (map_option JArr v)))
            (scan_range (Suc (Suc b - a)) E (\<lambda>l. log_matches l (lf_address f) (lf_topics f)) sts 0 a b []))"

section \<open>Subscribing\<close>

definition ETH_SUB_KINDS :: "sub_kind list" where
  "ETH_SUB_KINDS = [NewHeads, NewBlocks, NewRecords, OldBlocks, OldRecords]"

definition parse_opt_quantity :: "string option \<Rightarrow> rpc_error + u64 option" where
  "parse_opt_quantity q = transpose_opt (map_option parse_quantity q)"

definition eth_subscribe ::
  "('s, 'd) engines \<Rightarrow> ('s, 'd) eth_api \<Rightarrow> string \<Rightarrow> string option \<Rightarrow> string option \<Rightarrow> rpc_error + sub_reply" where
  "eth_subscribe E api kind from to =
     (case from_wire kind of
        None \<Rightarrow> Inl (Unsupported_kind kind)
      | Some k \<Rightarrow>
          and_then (parse_opt_quantity from) (\<lambda>f.
          and_then (parse_opt_quantity to) (\<lambda>t.
          Inr (serve_sub E Chain_C (ea_storage api) \<lparr>sr_kind = k, sr_from = f, sr_to = t\<rparr> ETH_SUB_KINDS))))"

section \<open>Lemmas on the scan\<close>

definition logs_array :: "json \<Rightarrow> json list" where
  "logs_array v = (case as_array v of None \<Rightarrow> [] | Some a \<Rightarrow> a)"

lemma scan_chunk_eq:
  "scan_chunk S p bs out = Inr out' \<longleftrightarrow>
     (\<exists>vs. map (from_slice S) bs = map Some vs \<and> out' = out @ filter p (concat (map logs_array vs)))"
proof (induction bs arbitrary: out)
  case (Cons b bs)
  show ?case
  proof (cases "from_slice S b")
    case (Some v)
    have "(\<exists>vs. map (from_slice S) (b # bs) = map Some vs \<and> out' = out @ filter p (concat (map logs_array vs))) \<longleftrightarrow>
        (\<exists>vs. map (from_slice S) bs = map Some vs \<and> out' = (out @ filter p (logs_array v)) @ filter p (concat (map logs_array vs)))"
      using Some by (auto simp: map_eq_Cons_conv intro: exI [of _ "v # _"])
    with Some Cons.IH show ?thesis
      by (simp only: scan_chunk.simps option.case logs_array_def [symmetric])
  qed (auto simp: map_eq_Cons_conv)
qed auto

text \<open>The logs a height of the store answers with.\<close>

definition logs_at :: "serde \<Rightarrow> (u64 \<rightharpoonup> bytes) \<Rightarrow> u64 \<Rightarrow> json list option" where
  "logs_at S m h =
     (case spec_element S m h C_LOGS of
        Inr (Some b) \<Rightarrow> map_option logs_array (from_slice S b)
      | _ \<Rightarrow> None)"

lemma logs_at_parts:
  assumes "logs_at S m h \<noteq> None"
  shows "\<exists>x v. spec_element S m h C_LOGS = Inr (Some x) \<and> from_slice S x = Some v"
  using assms unfolding logs_at_def
  by (cases "spec_element S m h C_LOGS") (auto split: option.splits)

lemma concat_logs_at:
  assumes "list_all2 (\<lambda>h x. spec_element S m h C_LOGS = Inr (Some x)) hs bs" "map (from_slice S) bs = map Some vs"
  shows "list_all (\<lambda>h. logs_at S m h \<noteq> None) hs \<and> map (\<lambda>h. the (logs_at S m h)) hs = map logs_array vs"
  using assms
proof (induction hs bs arbitrary: vs rule: list_all2_induct)
  case (Cons h hs b bs)
  then obtain v vs' where "vs = v # vs'" "from_slice S b = Some v" "map (from_slice S) bs = map Some vs'"
    by (auto simp: map_eq_Cons_conv)
  with Cons show ?case by (simp add: logs_at_def)
qed simp

context healthy_engine
begin

lemma scan_one_chunk:
  assumes "storage_wf wf st" "\<forall>h. a \<le> h \<and> h \<le> b \<longrightarrow> logs_at (en_ser E) (stored content st) h \<noteq> None" "a \<le> b"
  shows "\<exists>bs. read_element_range E st a b C_LOGS = Inr (Some bs) \<and>
     scan_chunk (en_ser E) p bs out =
       Inr (out @ filter p (concat (map (\<lambda>h. the (logs_at (en_ser E) (stored content st) h)) (heights a b))))"
proof -
  let ?m = "stored content st" and ?S = "en_ser E"
  have "\<forall>h\<in>set (heights a b). \<exists>x v. spec_element ?S ?m h C_LOGS = Inr (Some x) \<and> from_slice ?S x = Some v"
    using assms(2) logs_at_parts by (metis atLeastAtMost_iff set_heights)
  then obtain f g where fg: "\<forall>h\<in>set (heights a b). spec_element ?S ?m h C_LOGS = Inr (Some (f h)) \<and> from_slice ?S (f h) = Some (g h)"
    by metis
  let ?bs = "map f (heights a b)" and ?vs = "map g (heights a b)"
  have l: "list_all2 (\<lambda>h x. spec_element ?S ?m h C_LOGS = Inr (Some x)) (heights a b) ?bs"
    using fg by (simp add: list_all2_map2 list_all2_same del: set_heights)
  have p: "map (from_slice ?S) ?bs = map Some ?vs" using fg by simp
  have "stored content st a \<noteq> None"
    using assms(2) [rule_format, of a] assms(3) by (auto simp: logs_at_def spec_element_def split: option.splits)
  then have "st_store st \<noteq> None" by (auto simp: stored_def split: option.splits)
  then have r: "read_element_range E st a b C_LOGS = Inr (Some ?bs)"
    using l read_element_range_iff [OF assms(1)] by blast
  have "scan_chunk ?S p ?bs out = Inr (out @ filter p (concat (map logs_array ?vs)))"
    using p by (subst scan_chunk_eq) blast
  then show ?thesis using r concat_logs_at [OF l p] by metis
qed

lemma scan_range_flat:
  assumes "\<And>n. storage_wf wf (sts n)" "b < u64_max"
    and "\<And>n h. a \<le> h \<Longrightarrow> h \<le> b \<Longrightarrow> logs_at (en_ser E) (stored content (sts n)) h = Some (ls h)"
    and "Suc b - a < fuel"
  shows "scan_range fuel E p sts n a b out = Some (Inr (Some (out @ filter p (concat (map ls (heights a b))))))"
  using assms(3,4)
proof (induction fuel arbitrary: a n out)
  case (Suc fuel)
  show ?case
  proof (cases "a \<le> b")
    case False
    then show ?thesis by (simp add: heights_empty)
  next
    case True
    define e where "e = min (sat_add a GETLOGS_READ_CHUNK - 1) b"
    have e: "a \<le> e" "e \<le> b"
      using True assms(2) by (auto simp: e_def sat_add_def GETLOGS_READ_CHUNK_def)
    have s: "sat_add e 1 = Suc e" using e(2) assms(2) by (simp add: sat_add_def)
    have at: "logs_at (en_ser E) (stored content (sts n)) h = Some (ls h)" if "a \<le> h" "h \<le> e" for h
      using Suc.prems(1) that e(2) by simp
    obtain bs where bs: "read_element_range E (sts n) a e C_LOGS = Inr (Some bs)"
      "scan_chunk (en_ser E) p bs out = Inr (out @ filter p (concat (map (\<lambda>h. the (logs_at (en_ser E) (stored content (sts n)) h)) (heights a e))))"
      using scan_one_chunk [OF assms(1) [of n] _ e(1)] at by blast
    have m: "map (\<lambda>h. the (logs_at (en_ser E) (stored content (sts n)) h)) (heights a e) = map ls (heights a e)"
      using at by (intro map_cong) auto
    have "scan_range fuel E p sts (Suc n) (Suc e) b (out @ filter p (concat (map ls (heights a e)))) =
        Some (Inr (Some ((out @ filter p (concat (map ls (heights a e)))) @ filter p (concat (map ls (heights (Suc e) b))))))"
      by (rule Suc.IH) (use Suc.prems e in auto)
    moreover have "heights a b = heights a e @ heights (Suc e) b" using e by (intro heights_append) auto
    ultimately show ?thesis
      using True bs m s unfolding scan_range.simps Let_def e_def [symmetric] by simp
  qed
qed simp

lemma scan_range_complete:
  assumes "storage_wf wf st" "b < u64_max" "scan_range fuel E p (\<lambda>_. st) n a b out = Some (Inr (Some out'))"
    "a \<le> h" "h \<le> b"
  shows "logs_at (en_ser E) (stored content st) h \<noteq> None"
  using assms(3,4)
proof (induction fuel arbitrary: a n out)
  case (Suc fuel)
  have ab: "a \<le> b" using Suc.prems(2) assms(5) by simp
  define e where "e = min (sat_add a GETLOGS_READ_CHUNK - 1) b"
  have e: "a \<le> e" "e \<le> b" using ab assms(2) by (auto simp: e_def sat_add_def GETLOGS_READ_CHUNK_def)
  have s: "sat_add e 1 = Suc e" using e(2) assms(2) by (simp add: sat_add_def)
  obtain bs out1 where bs: "read_element_range E st a e C_LOGS = Inr (Some bs)"
    "scan_chunk (en_ser E) p bs out = Inr out1" "scan_range fuel E p (\<lambda>_. st) (Suc n) (Suc e) b out1 = Some (Inr (Some out'))"
    using Suc.prems(1) ab s unfolding scan_range.simps Let_def e_def [symmetric]
    by (auto split: sum.splits option.splits)
  show ?case
  proof (cases "h \<le> e")
    case True
    have l: "list_all2 (\<lambda>h x. spec_element (en_ser E) (stored content st) h C_LOGS = Inr (Some x)) (heights a e) bs"
      using bs(1) read_element_range_iff [OF assms(1)] by blast
    obtain vs where "map (from_slice (en_ser E)) bs = map Some vs" using bs(2) scan_chunk_eq by blast
    from concat_logs_at [OF l this] True Suc.prems(2) show ?thesis by (simp add: list_all_iff)
  next
    case False
    then show ?thesis using Suc.IH [OF bs(3)] by simp
  qed
qed simp

end

section \<open>Guarantees of the log scan\<close>

text \<open>
  A log a filter asks for: its address is one of those named, and at every position with a constraint it
  has a topic that is one of those named there; letter case does not matter.
\<close>

fun slot_values :: "one_or_many \<Rightarrow> string list" where
  "slot_values (One_value s) = [s]"
| "slot_values (Many_values ss) = ss"

definition asked_for :: "log_filter \<Rightarrow> json \<Rightarrow> bool" where
  "asked_for f l \<longleftrightarrow>
     (\<forall>slot. lf_address f = Some slot \<longrightarrow>
        (\<exists>s\<in>set (slot_values slot). eq_ignore_ascii_case s (case jget_str l ''address'' of None \<Rightarrow> [] | Some a \<Rightarrow> a))) \<and>
     (\<forall>slots i slot. lf_topics f = Some slots \<and> i < length slots \<and> slots ! i = Some slot \<longrightarrow>
        (\<exists>topics t. jget_arr l ''topics'' = Some topics \<and> i < length topics \<and> as_str (topics ! i) = Some t \<and>
           (\<exists>s\<in>set (slot_values slot). eq_ignore_ascii_case s t)))"

lemma slot_matches_values: "slot_matches slot c \<longleftrightarrow> (\<exists>s\<in>set (slot_values slot). eq_ignore_ascii_case s c)"
  by (cases slot) simp_all

lemma topics_match_iff:
  "topics_match ls k slots \<longleftrightarrow> (\<forall>i<length slots. \<forall>slot. slots ! i = Some slot \<longrightarrow>
     (\<exists>t. k + i < length ls \<and> as_str (ls ! (k + i)) = Some t \<and> slot_matches slot t))"
proof (induction ls k slots rule: topics_match.induct)
  case (3 ls k slot slots)
  show ?case
  proof (cases "Option.bind (get_nth ls k) as_str")
    case None
    then have "\<not> (k < length ls \<and> (\<exists>t. as_str (ls ! k) = Some t))" by (auto simp: get_nth_def)
    with None show ?thesis by (auto simp: All_less_Suc2)
  next
    case (Some t)
    then have "k < length ls" "as_str (ls ! k) = Some t" by (auto simp: get_nth_def split: if_splits)
    with Some 3 show ?thesis by (simp add: All_less_Suc2)
  qed
qed (simp_all add: All_less_Suc2)

lemma log_matches_asked_for: "log_matches l (lf_address f) (lf_topics f) \<longleftrightarrow> asked_for f l"
proof -
  have t: "topics_match (case jget_arr l ''topics'' of None \<Rightarrow> [] | Some a \<Rightarrow> a) 0 slots \<longleftrightarrow>
      (\<forall>i slot. i < length slots \<and> slots ! i = Some slot \<longrightarrow>
        (\<exists>topics t. jget_arr l ''topics'' = Some topics \<and> i < length topics \<and> as_str (topics ! i) = Some t \<and>
           (\<exists>s\<in>set (slot_values slot). eq_ignore_ascii_case s t)))" for slots
    unfolding topics_match_iff slot_matches_values by (cases "jget_arr l ''topics''") (simp_all, blast+)
  show ?thesis
    by (auto simp: log_matches_def asked_for_def t slot_matches_values split: option.splits)
qed

text \<open>
  C2. \<open>eth_getLogs\<close> answers completely or not at all. With a store that does not change
  during the scan, a list is answered only when this instance ingests logs and every height
  of the resolved range has logs in the store, and then it is exactly the logs of the range
  in height order that the filter asks for, by address and by topic: the chunked scan equals the flat one, and its fuel
  is always enough.
\<close>

theorem get_logs_complete_or_nothing:
  assumes "healthy_engine E content ok view" "storage_wf ok (ea_storage api)"
    and "getlogs_range E C api f = Inr (Some (a, b))" "b < u64_max" "ea_ingests_logs api"
  shows "get_logs E C api f (\<lambda>_. ea_storage api) = Some (Inr (Some v)) \<longleftrightarrow>
    (\<forall>h. a \<le> h \<and> h \<le> b \<longrightarrow> logs_at (en_ser E) (stored content (ea_storage api)) h \<noteq> None) \<and>
    v = JArr (filter (asked_for f)
      (concat (map (\<lambda>h. the (logs_at (en_ser E) (stored content (ea_storage api)) h)) (heights a b))))"
    (is "?answer \<longleftrightarrow> ?all \<and> v = JArr ?flat")
proof -
  let ?p = "asked_for f"
  let ?scan = "scan_range (Suc (Suc b - a)) E ?p (\<lambda>_. ea_storage api) 0 a b []"
  have g: "get_logs E C api f (\<lambda>_. ea_storage api) = map_option (\<lambda>r. and_then r (\<lambda>v. Inr (map_option JArr v))) ?scan"
    using assms(3,5) by (simp add: get_logs_def log_matches_asked_for del: scan_range.simps)
  have flat: "?scan = Some (Inr (Some ?flat))" if ?all
    using healthy_engine.scan_range_flat [OF assms(1), of "\<lambda>_. ea_storage api" b a
        "\<lambda>h. the (logs_at (en_ser E) (stored content (ea_storage api)) h)" "Suc (Suc b - a)" ?p 0 "[]"]
      assms(2,4) that by (simp del: scan_range.simps)
  have all: ?all if ans: ?answer
  proof -
    obtain out where "?scan = Some (Inr (Some out))"
      using ans unfolding g by (auto simp: and_then_Inr_iff simp del: scan_range.simps)
    from healthy_engine.scan_range_complete [OF assms(1,2,4) this] show ?all by blast
  qed
  show ?thesis
  proof
    assume ans: ?answer
    then have ?all by (rule all)
    moreover from flat [OF this] ans have "v = JArr ?flat" unfolding g by simp
    ultimately show "?all \<and> v = JArr ?flat" by blast
  next
    assume "?all \<and> v = JArr ?flat"
    then show ?answer unfolding g using flat by simp
  qed
qed

definition ref_log :: "string \<Rightarrow> json" where
  "ref_log topic = JObj [(''address'', JStr ''0xAB''), (''topics'', JArr [JStr topic])]"

theorem get_logs_complete_or_nothing_witness:
  "let st = mem_put 7 ref_hash [] [''{}'', print_json (JArr [ref_log ''0x1'', ref_log ''0x2''])] (mem_fresh Chain_C);
       api = \<lparr>ea_storage = st, ea_chain_id = 43114, ea_join = None, ea_ingests_logs = True\<rparr>;
       f = \<lparr>lf_from_block = None, lf_to_block = None, lf_block_hash = None, lf_address = Some (One_value ''0xab''),
            lf_topics = Some [Some (Many_values [''0x2'', ''0x3''])]\<rparr>
   in get_logs mem_engines ref_crypto api f (\<lambda>_. st) = Some (Inr (Some (JArr [ref_log ''0x2''])))"
proof -
  let ?logs = "JArr [ref_log ''0x1'', ref_log ''0x2'']"
  let ?es = "[''{}'', print_json ?logs]"
  define st where "st = mem_put 7 ref_hash [] ?es (mem_fresh Chain_C)"
  define api where "api = \<lparr>ea_storage = st, ea_chain_id = 43114, ea_join = None, ea_ingests_logs = True\<rparr>"
  define f where "f = \<lparr>lf_from_block = None, lf_to_block = None, lf_block_hash = None, lf_address = Some (One_value ''0xab''),
    lf_topics = Some [Some (Many_values [''0x2'', ''0x3''])]\<rparr>"
  have st: "st = \<lparr>st_chain = Chain_C, st_store = Some \<lparr>ms_min = 7, ms_blocks = [(7, encode ?es)]\<rparr>,
      st_db = fold mem_insert (index_batch 7 ref_hash []) [], st_anchor_floor = None\<rparr>"
    by (simp add: st_def mem_put_def put_def put_record_def put_index_def and_step_def mem_engines_def
        mem_blockstore_def mem_fjall_def mem_fresh_def put_floor_def)
  have h: "high_water mem_engines st = 7" "min_height mem_engines st = 7" "max_contiguous_height mem_engines st = 7"
    by (simp_all add: st max_contiguous_height_def high_water_def min_height_def mem_engines_def mem_blockstore_def mem_high_def)
  have r: "getlogs_range mem_engines ref_crypto api f = Inr (Some (7, 7))"
    by (simp add: getlogs_range_def f_def api_def resolve_block_tag_def h sat_add_def u64_max_def MAX_GETLOGS_RANGE_def)
  have w: "storage_wf mem_wf (ea_storage api)"
    by (simp add: api_def st storage_wf_def mem_wf_def)
  have p: "plain ?logs" by (simp add: ref_log_def)
  have b: "from_slice ref_serde (print_json ?logs) = Some ?logs" "tight ref_serde (print_json ?logs)"
    using ref.printed [OF p] p by (auto simp: ref_serde_def ref_to_vec_def)
  have "element ref_serde (encode ?es) 1 = Inr (Some (print_json ?logs))"
    using ref.element_encode [of ?es 1] tight_texts b(2) by (simp add: get_nth_def)
  then have at: "logs_at (en_ser mem_engines) (stored mem_content (ea_storage api)) 7 = Some [ref_log ''0x1'', ref_log ''0x2'']"
    using b(1)
    by (simp add: api_def st logs_at_def spec_element_def stored_def mem_content_def mem_engines_def C_LOGS_def logs_array_def)
  then have all: "\<forall>h. 7 \<le> h \<and> h \<le> 7 \<longrightarrow> logs_at (en_ser mem_engines) (stored mem_content (ea_storage api)) h \<noteq> None"
    by (metis le_antisym option.distinct(1))
  have c: "eq_ignore_ascii_case ''0xab'' ''0xAB''" "\<not> eq_ignore_ascii_case ''0x2'' ''0x1''" "\<not> eq_ignore_ascii_case ''0x3'' ''0x1''"
    "eq_ignore_ascii_case ''0x2'' ''0x2''" by code_simp+
  have m: "\<not> asked_for f (ref_log ''0x1'')" "asked_for f (ref_log ''0x2'')"
    using c by (simp_all add: asked_for_def f_def ref_log_def jget_str_def jget_arr_def)
  have u: "(7 :: nat) < u64_max" and i: "ea_ingests_logs api" by (simp_all add: u64_max_def api_def)
  have "get_logs mem_engines ref_crypto api f (\<lambda>_. ea_storage api) = Some (Inr (Some (JArr [ref_log ''0x2''])))"
    using all at m by (subst get_logs_complete_or_nothing [OF mem.healthy_engine_axioms w r u i]) (simp add: heights_def)
  then show ?thesis by (simp add: api_def f_def st_def Let_def)
qed

section \<open>Blocks and transactions end to end\<close>

lemma parse_hash_Inr_iff: "parse_hash C s = Inr raw \<longleftrightarrow> cr_hex_decode C (strip_0x s) = Some raw \<and> length raw = 32"
  by (auto simp: parse_hash_def split: option.splits if_splits)

lemma nth_transaction_eq:
  "nth_transaction v idx = Option.bind (jget_arr v ''transactions'') (\<lambda>txs. get_nth txs idx)"
  by (cases "jget_arr v ''transactions''") (simp_all add: nth_transaction_def swap_remove_def get_nth_def)

text \<open>A block all of whose transactions carry a hash that decodes.\<close>

definition txs_hashed :: "crypto \<Rightarrow> json \<Rightarrow> json list \<Rightarrow> hash32 list \<Rightarrow> bool" where
  "txs_hashed C block txs hs \<longleftrightarrow>
     jget_arr block ''transactions'' = Some txs \<and>
     list_all2 (\<lambda>tx h. \<exists>s. jget_str tx ''hash'' = Some s \<and> decode_hash C s = Inr h) txs hs"

lemma extract_tx_hashes_eq:
  assumes "txs_hashed C block txs hs"
  shows "extract_tx_hashes C block = hs"
proof -
  have "List.map_filter (\<lambda>s. res_ok (decode_hash C s)) (List.map_filter (\<lambda>tx. jget_str tx ''hash'') txs) = hs"
    if "list_all2 (\<lambda>tx h. \<exists>s. jget_str tx ''hash'' = Some s \<and> decode_hash C s = Inr h) txs hs"
    using that by (induction txs hs rule: list_all2_induct) (auto simp: List.map_filter_simps)
  with assms show ?thesis by (simp add: txs_hashed_def extract_tx_hashes_def)
qed

context healthy_engine
begin

lemma read_block_put:
  assumes "storage_wf wf st" "put E h hash txs [b, l] st = (Inr (), st')"
    "tight (en_ser E) b" "tight (en_ser E) l" "from_slice (en_ser E) b = Some block" "ea_storage api = st'"
  shows "read_block_value E api h = Inr (Some block)"
proof -
  have "deref_view (get_by_height E st' h) = Inr (Some b)"
    using get_element_put [OF assms(1,2), of h BLOCK] assms(3,4)
    by (simp add: get_by_height_def get_nth_def BLOCK_def)
  then show ?thesis
    using assms(5,6) by (simp add: read_block_value_def from_storage_def parse_or_def)
qed

lemma lookup_height_put:
  assumes "storage_wf wf st" "put E h hash txs [b, l] st = (Inr (), st')"
    "tight (en_ser E) b" "tight (en_ser E) l" "from_slice (en_ser E) b = Some block"
  shows "lookup_block E C \<lparr>ea_storage = st', ea_chain_id = cid, ea_join = j, ea_ingests_logs = il\<rparr> (Sel_height h) proj =
    Inr (proj block)"
  by (simp add: lookup_block_def read_block_put [OF assms])

lemma read_block_buffered:
  assumes "storage_wf wf (jb_storage buf)" "stored content (jb_storage buf) h = None" "buffered_block buf h = Some b"
    "from_slice (en_ser E) b = Some block" "ea_storage api = jb_storage buf" "ea_join api = Some buf"
  shows "read_block_value E api h = Inr (Some block)"
proof -
  have "deref_view (get_by_height E (jb_storage buf) h) = Inr None"
    using get_element_total [OF assms(1), of h BLOCK] assms(2) by (simp add: get_by_height_def spec_element_def)
  then show ?thesis
    using assms(3-6) by (simp add: read_block_value_def from_storage_def parse_or_def)
qed

end

lemma resolve_block_tag_number:
  assumes "from_str_radix 16 (strip_0x tag) = Some h"
  shows "resolve_block_tag E api tag = Inr h"
proof -
  have "tag \<notin> {''latest'', ''finalized'', ''safe'', ''earliest'', ''pending''}"
    using assms by (auto simp: strip_0x_def from_str_radix_def to_digit_def split: if_splits)
  with assms show ?thesis by (simp add: resolve_block_tag_def)
qed

section \<open>Announced blocks\<close>

text \<open>The reader of an instance, on what its live task writes to.\<close>

fun sink_api :: "u64 \<Rightarrow> ('s, 'd) sink \<Rightarrow> ('s, 'd) eth_api" where
  "sink_api cid (Direct st) = \<lparr>ea_storage = st, ea_chain_id = cid, ea_join = None, ea_ingests_logs = False\<rparr>"
| "sink_api cid (Joined buf) = \<lparr>ea_storage = jb_storage buf, ea_chain_id = cid, ea_join = Some buf, ea_ingests_logs = True\<rparr>"

text \<open>
  The state of the live task when a block is announced: after the write without the join buffer, before
  the logs are asked for with it.
\<close>

definition at_announcement ::
  "('s, 'd) engines \<Rightarrow> crypto \<Rightarrow> bool \<Rightarrow> instant \<Rightarrow> u64 \<Rightarrow> string \<Rightarrow> json \<Rightarrow> ('s, 'd) live_state \<Rightarrow> ('s, 'd) live_state" where
  "at_announcement E C listening now h expected block lv =
     (case lv_sink lv of
        Direct st \<Rightarrow>
          (case persist_block E C listening h expected block st (lv_published lv) of
             (r, st', pub) \<Rightarrow> lv\<lparr>lv_sink := Direct st', lv_published := pub\<rparr>)
      | Joined buf \<Rightarrow>
          (case buffer_block E C listening now h expected block buf (lv_published lv) of
             (q, buf', pub) \<Rightarrow> lv\<lparr>lv_sink := Joined buf', lv_published := pub\<rparr>))"

text \<open>
  The store has no block of the height yet, or none that matters: without the join buffer the write replaces it.
\<close>

fun unread :: "('s \<Rightarrow> u64 \<rightharpoonup> bytes) \<Rightarrow> u64 \<Rightarrow> ('s, 'd) sink \<Rightarrow> bool" where
  "unread content h (Direct st) = True"
| "unread content h (Joined buf) = (stored content (jb_storage buf) h = None)"

text \<open>The logs that wait in the buffer for their block are texts the server has printed.\<close>

fun pending_tight :: "serde \<Rightarrow> u64 \<Rightarrow> ('s, 'd) sink \<Rightarrow> bool" where
  "pending_tight S h (Direct st) = True"
| "pending_tight S h (Joined buf) =
     (case map_of (jb_pending buf) h of Some (Pending_Logs l) \<Rightarrow> tight S (pl_bytes l) | _ \<Rightarrow> True)"

fun holds :: "('s \<Rightarrow> u64 \<rightharpoonup> bytes) \<Rightarrow> u64 \<Rightarrow> bytes \<Rightarrow> ('s, 'd) sink \<Rightarrow> bool" where
  "holds content h b (Direct st) = (stored content st h = Some (encode [b, EMPTY_ARRAY]))"
| "holds content h b (Joined buf) =
     (buffered_block buf h = Some b \<or> (\<exists>l. stored content (jb_storage buf) h = Some (encode [b, l])))"

context healthy_engine
begin

lemma direct_announced:
  assumes "storage_wf wf st" "plain block" "persist_block E C listening h expected block st pub = (r, st', pub')" "pub' \<noteq> pub"
  obtains b where "r = Persist_ok" "pub' = pub @ [\<lparr>lu_block = block, lu_record = None\<rparr>]" "to_vec (en_ser E) block = Some b"
    "(case jget_str block ''hash'' of None \<Rightarrow> [] | Some x \<Rightarrow> x) = expected"
    "stored content st' h = Some (encode [b, EMPTY_ARRAY])" "read_block_value E (sink_api cid (Direct st')) h = Inr (Some block)"
proof -
  obtain hash txs b where pb: "prepare_block (en_ser E) C expected block = Some (hash, txs, b)"
    and p: "put E h hash txs [b, EMPTY_ARRAY] st = (Inr (), st')"
    and r: "r = Persist_ok" "pub' = pub @ [\<lparr>lu_block = block, lu_record = None\<rparr>]"
    using assms(3,4) by (auto simp: persist_block_def announce_block_def split: option.splits prod.splits sum.splits if_splits)
  note prep = prepare_block_Some [OF pb]
  have "tight (en_ser E) b" "from_slice (en_ser E) b = Some block" "tight (en_ser E) EMPTY_ARRAY"
    using print_tight [OF assms(2) prep(2)] parse_print [OF assms(2) prep(2)] empty_array_tight by (simp_all add: EMPTY_ARRAY_def)
  then have "read_block_value E (sink_api cid (Direct st')) h = Inr (Some block)"
    by (intro read_block_put [OF assms(1) p]) simp_all
  with that r prep put_stored_here [OF assms(1) p] show thesis by blast
qed

lemma joined_announced:
  assumes "storage_wf wf (jb_storage buf)" "plain block" "pending_tight (en_ser E) h (Joined buf)"
    and "buffer_block E C listening now h expected block buf pub = (q, buf1, pub')" "pub' \<noteq> pub"
  obtains b where "q = Inr ()" "pub' = pub @ [\<lparr>lu_block = block, lu_record = None\<rparr>]" "to_vec (en_ser E) block = Some b"
    "(case jget_str block ''hash'' of None \<Rightarrow> [] | Some x \<Rightarrow> x) = expected"
    "storage_wf wf (jb_storage buf1)" "available content buf1 h b"
    "stored content (jb_storage buf) h = None \<longrightarrow> read_block_value E (sink_api cid (Joined buf1)) h = Inr (Some block)"
proof -
  from assms(4,5) obtain hash txs b out where q: "q = Inr ()" "pub' = pub @ [\<lparr>lu_block = block, lu_record = None\<rparr>]"
    and pb: "prepare_block (en_ser E) C expected block = Some (hash, txs, b)"
    and ob: "on_block E h hash txs b now buf = (Inr out, buf1)" "out \<noteq> Deferred"
    by (rule buffer_block_announces)
  note prep = prepare_block_Some [OF pb]
  have t: "tight (en_ser E) b" "from_slice (en_ser E) b = Some block"
    using print_tight [OF assms(2) prep(2)] parse_print [OF assms(2) prep(2)] by simp_all
  from on_block_stays [OF ob] show thesis
  proof
    assume B: "buffered_block buf1 h = Some b \<and> jb_storage buf1 = jb_storage buf"
    then have "stored content (jb_storage buf) h = None \<longrightarrow> read_block_value E (sink_api cid (Joined buf1)) h = Inr (Some block)"
      using assms(1) t(2) by (intro impI read_block_buffered) simp_all
    with B that [OF q prep(2,4)] assms(1) show thesis by (simp add: available_def)
  next
    assume "map_of (jb_pending buf1) h = None \<and>
      (\<exists>l. map_of (jb_pending buf) h = Some (Pending_Logs l) \<and>
        put E h hash txs [b, pl_bytes l] (jb_storage buf) = (Inr (), jb_storage buf1))"
    then obtain l where l: "map_of (jb_pending buf1) h = None" "map_of (jb_pending buf) h = Some (Pending_Logs l)"
      "put E h hash txs [b, pl_bytes l] (jb_storage buf) = (Inr (), jb_storage buf1)" by blast
    have "tight (en_ser E) (pl_bytes l)" using assms(3) l(2) by simp
    with t have "read_block_value E (sink_api cid (Joined buf1)) h = Inr (Some block)"
      by (intro read_block_put [OF assms(1) l(3)]) simp_all
    moreover have "available content buf1 h b" using put_stored_here [OF assms(1) l(3)] l(1) by (auto simp: available_def)
    ultimately show thesis using that [OF q prep(2,4)] put_ok(1) [OF assms(1) l(3)] by blast
  qed
qed

end



text \<open>
  C11. A backfilled block is served. After a block with well-formed, distinct transaction
  hashes is persisted, reading it by any spelling of its number or by its hash gives the very JSON that
  was fetched, and for each of its transactions, reading the transaction by its hash gives that
  transaction.
\<close>

theorem backfilled_block_is_served:
  assumes "healthy_engine E content ok view" "storage_wf ok st" "plain block" "tight (en_ser E) logs"
    and "persist_backfilled E C h block logs st = (Inr (), st')" "h \<le> u64_max"
    and "txs_hashed C block txs hs" "distinct hs" "length hs < 4294967296"
    and "jget_str block ''hash'' = Some bs" "decode_hash C bs = Inr raw" "parse_hash C bh = Inr raw"
    and "i < length txs" "parse_hash C th = Inr (hs ! i)" "from_str_radix 16 (strip_0x tag) = Some h"
    and "api = \<lparr>ea_storage = st', ea_chain_id = cid, ea_join = j, ea_ingests_logs = il\<rparr>"
  shows "get_block_by_number E C api tag True = Inr (Some block) \<and>
    get_block_by_hash E C api bh True = Inr (Some block) \<and>
    get_transaction_by_hash E C api th = Inr (Some (txs ! i))"
proof -
  have sl: "serde_laws (en_ser E)" using assms(1) by (simp add: healthy_engine_def storage_engine_def)
  have hs: "extract_tx_hashes C block = hs" "length hs = length txs"
    using extract_tx_hashes_eq [OF assms(7)] assms(7) by (auto simp: txs_hashed_def dest: list_all2_lengthD)
  obtain b where b: "to_vec (en_ser E) block = Some b" "from_slice (en_ser E) b = Some block" "tight (en_ser E) b"
    using serde_laws.printed [OF sl assms(3)] by blast
  have put: "put E h raw hs [b, logs] st = (Inr (), st')"
    using assms(5) assms(10,11) b(1) hs(1)
    by (cases "put E h raw hs [b, logs] st") (auto simp: persist_backfilled_def)
  note look = healthy_engine.lookup_height_put [OF assms(1,2) put b(3) assms(4) b(2)]
  have "height_of_hash E st' raw = Inr (Some h)"
    using healthy_engine.height_of_hash_put [OF assms(1,2) put assms(6)] by simp
  moreover have "deref_view (get_by_height E st' h) = Inr (Some b)"
    using healthy_engine.get_element_put [OF assms(1,2) put, of h BLOCK] b(3) assms(4)
    by (simp add: get_by_height_def get_nth_def BLOCK_def)
  ultimately have "deref_view (get_by_hash E st' raw) = Inr (Some b)" by (simp add: get_by_hash_def)
  then have "get_block_by_hash E C api bh True = Inr (Some block)"
    using assms(12,16) b(2)
    by (simp add: get_block_by_hash_def lookup_block_def from_storage_def parse_or_def shape_block_def)
  moreover have "get_block_by_number E C api tag True = Inr (Some block)"
    using look [of C cid j il "\<lambda>v. Some (shape_block v True)"] resolve_block_tag_number [OF assms(15), of E api] assms(16)
    by (simp add: get_block_by_number_def lookup_block_def shape_block_def)
  moreover have "get_tx_location E st' (hs ! i) = Inr (Some (h, i))"
    using healthy_engine.get_tx_location_put(1) [OF assms(1,2) put assms(6,8,9)] assms(13) hs(2) by simp
  then have "get_transaction_by_hash E C api th = Inr (Some (txs ! i))"
    using assms(7,13,14,16) look [of C cid j il "\<lambda>v. nth_transaction v i"]
    by (simp add: get_transaction_by_hash_def from_storage_def)
      (simp add: nth_transaction_eq txs_hashed_def get_nth_def)
  ultimately show ?thesis by blast
qed

definition hex_of :: "char \<Rightarrow> string" where
  "hex_of c = replicate 64 c"

definition ref_tx_block :: json where
  "ref_tx_block = JObj [(''hash'', JStr (hex_of (CHR ''a''))),
     (''transactions'', JArr [JObj [(''hash'', JStr (hex_of (CHR ''b'')))]])]"

lemma hex_of_decodes:
  assumes "c \<in> {CHR ''a'', CHR ''b'', CHR ''c''}"
  shows "\<exists>raw. length raw = 32 \<and> ref_hex_decode (hex_of c) = Some raw"
  using assms by (auto simp: hex_of_def numeral_eq_Suc to_digit_def)

lemma hex_of_parses:
  assumes "c \<in> {CHR ''a'', CHR ''b'', CHR ''c''}"
  shows "\<exists>raw. decode_hash ref_crypto (hex_of c) = Inr raw \<and> parse_hash ref_crypto (hex_of c) = Inr raw"
proof -
  have n: "strip_prefix ''0x'' (hex_of c) = None" using assms by (auto simp: hex_of_def numeral_eq_Suc)
  from hex_of_decodes [OF assms] trim_start_matches_no_prefix [OF n] n show ?thesis
    by (auto simp: decode_hash_def parse_hash_def strip_0x_def ref_crypto_def)
qed

theorem backfilled_block_is_served_witness:
  "\<exists>st'. persist_backfilled mem_engines ref_crypto 7 ref_tx_block ''[]'' (mem_fresh Chain_C) = (Inr (), st') \<and>
     (let api = \<lparr>ea_storage = st', ea_chain_id = 43114, ea_join = None, ea_ingests_logs = True\<rparr>
      in get_block_by_number mem_engines ref_crypto api ''0x7'' True = Inr (Some ref_tx_block) \<and>
         get_block_by_hash mem_engines ref_crypto api (hex_of (CHR ''a'')) True = Inr (Some ref_tx_block) \<and>
         get_transaction_by_hash mem_engines ref_crypto api (hex_of (CHR ''b'')) =
           Inr (Some (JObj [(''hash'', JStr (hex_of (CHR ''b'')))])))"
proof -
  obtain ra where ra: "decode_hash ref_crypto (hex_of (CHR ''a'')) = Inr ra" "parse_hash ref_crypto (hex_of (CHR ''a'')) = Inr ra"
    using hex_of_parses [of "CHR ''a''"] by blast
  obtain rb where rb: "decode_hash ref_crypto (hex_of (CHR ''b'')) = Inr rb" "parse_hash ref_crypto (hex_of (CHR ''b'')) = Inr rb"
    using hex_of_parses [of "CHR ''b''"] by blast
  let ?txs = "[JObj [(''hash'', JStr (hex_of (CHR ''b'')))]]"
  have p: "plain ref_tx_block" by (simp add: ref_tx_block_def)
  have t: "tight (en_ser mem_engines) ''[]''" using tight_texts by (simp add: mem_engines_def)
  have th: "txs_hashed ref_crypto ref_tx_block ?txs [rb]"
    using rb by (simp add: txs_hashed_def ref_tx_block_def jget_arr_def jget_str_def)
  have bh: "jget_str ref_tx_block ''hash'' = Some (hex_of (CHR ''a''))" by (simp add: ref_tx_block_def jget_str_def)
  obtain b where b: "to_vec (en_ser mem_engines) ref_tx_block = Some b"
    using p by (simp add: mem_engines_def ref_serde_def ref_to_vec_def)
  obtain st' where st': "persist_backfilled mem_engines ref_crypto 7 ref_tx_block ''[]'' (mem_fresh Chain_C) = (Inr (), st')"
    using mem_put_first [of "[b, ''[]'']" Chain_C 7 ra "extract_tx_hashes ref_crypto ref_tx_block"]
    by (simp add: persist_backfilled_def bh ra b)
  have "i < length ?txs \<Longrightarrow> [rb] ! i = rb" for i by simp
  have rb': "parse_hash ref_crypto (hex_of (CHR ''b'')) = Inr ([rb] ! 0)" using rb by simp
  have n: "from_str_radix 16 (strip_0x ''0x7'') = Some 7"
    by (simp add: strip_0x_def from_str_radix_def to_digit_def u64_max_def)
  from backfilled_block_is_served [OF mem.healthy_engine_axioms mem_fresh_wf p t st' _ th _ _ bh ra(1) ra(2) _ rb' n refl,
      of 43114 None True] st'
  show ?thesis by (simp add: u64_max_def Let_def)
qed

text \<open>
  A malformed transaction shifts the index. Transaction hashes that are missing or do not
  decode are dropped before the remaining ones are numbered, so in a block whose first
  transaction has no hash, the second transaction's hash is indexed at position 0: reading
  it by its own hash answers with the other transaction.
\<close>

lemma malformed_tx_shifts_index:
  assumes "healthy_engine E content ok view" "storage_wf ok st" "plain block" "tight (en_ser E) logs"
    and "persist_backfilled E C h block logs st = (Inr (), st')" "h \<le> u64_max"
    and "jget_arr block ''transactions'' = Some [bad, good]" "jget_str bad ''hash'' = None"
    and "jget_str good ''hash'' = Some gs" "decode_hash C gs = Inr g" "parse_hash C th = Inr g"
    and "api = \<lparr>ea_storage = st', ea_chain_id = cid, ea_join = j, ea_ingests_logs = il\<rparr>"
  shows "get_transaction_by_hash E C api th = Inr (Some bad)"
proof -
  have sl: "serde_laws (en_ser E)" using assms(1) by (simp add: healthy_engine_def storage_engine_def)
  have hs: "extract_tx_hashes C block = [g]"
    using assms(7-10) by (simp add: extract_tx_hashes_def List.map_filter_simps)
  obtain b where b: "to_vec (en_ser E) block = Some b" "from_slice (en_ser E) b = Some block" "tight (en_ser E) b"
    using serde_laws.printed [OF sl assms(3)] by blast
  obtain raw where put: "put E h raw [g] [b, logs] st = (Inr (), st')"
    using assms(5) b(1) hs
    by (auto simp: persist_backfilled_def split: option.splits sum.splits prod.splits)
  have "get_tx_location E st' g = Inr (Some (h, 0))"
    using healthy_engine.get_tx_location_put(1) [OF assms(1,2) put assms(6), of 0] by simp
  then show ?thesis
    using assms(7,11,12) healthy_engine.lookup_height_put [OF assms(1,2) put b(3) assms(4) b(2), of C cid j il
        "\<lambda>v. nth_transaction v 0"]
    by (simp add: get_transaction_by_hash_def from_storage_def)
      (simp add: nth_transaction_eq get_nth_def)
qed

lemma malformed_tx_shifts_index_instance:
  "let good = JObj [(''hash'', JStr (hex_of (CHR ''b'')))];
       block = JObj [(''hash'', JStr (hex_of (CHR ''a''))), (''transactions'', JArr [JNull, good])]
   in \<exists>st'. persist_backfilled mem_engines ref_crypto 7 block ''[]'' (mem_fresh Chain_C) = (Inr (), st') \<and>
     get_transaction_by_hash mem_engines ref_crypto
       \<lparr>ea_storage = st', ea_chain_id = 43114, ea_join = None, ea_ingests_logs = True\<rparr> (hex_of (CHR ''b'')) = Inr (Some JNull)"
proof -
  obtain ra where ra: "decode_hash ref_crypto (hex_of (CHR ''a'')) = Inr ra" using hex_of_parses [of "CHR ''a''"] by blast
  obtain rb where rb: "decode_hash ref_crypto (hex_of (CHR ''b'')) = Inr rb" "parse_hash ref_crypto (hex_of (CHR ''b'')) = Inr rb"
    using hex_of_parses [of "CHR ''b''"] by blast
  define good where "good = JObj [(''hash'', JStr (hex_of (CHR ''b'')))]"
  define block where "block = JObj [(''hash'', JStr (hex_of (CHR ''a''))), (''transactions'', JArr [JNull, good])]"
  have p: "plain block" by (simp add: block_def good_def)
  have t: "tight (en_ser mem_engines) ''[]''" using tight_texts by (simp add: mem_engines_def)
  have bh: "jget_str block ''hash'' = Some (hex_of (CHR ''a''))" by (simp add: block_def jget_str_def)
  have txs: "jget_arr block ''transactions'' = Some [JNull, good]" by (simp add: block_def jget_arr_def)
  have nh: "jget_str JNull ''hash'' = None" by (simp add: jget_str_def)
  have gh: "jget_str good ''hash'' = Some (hex_of (CHR ''b''))" by (simp add: good_def jget_str_def)
  obtain b where b: "to_vec (en_ser mem_engines) block = Some b"
    using p by (simp add: mem_engines_def ref_serde_def ref_to_vec_def)
  obtain st' where st': "persist_backfilled mem_engines ref_crypto 7 block ''[]'' (mem_fresh Chain_C) = (Inr (), st')"
    using mem_put_first [of "[b, ''[]'']" Chain_C 7 ra "extract_tx_hashes ref_crypto block"]
    by (simp add: persist_backfilled_def bh ra b)
  from malformed_tx_shifts_index [OF mem.healthy_engine_axioms mem_fresh_wf p t st' _ txs nh gh rb(1) rb(2) refl,
      of 43114 None True] st'
  show ?thesis by (auto simp: u64_max_def Let_def block_def good_def)
qed

end
