(* ===== verification/Progress.thy ===== *)
theory Progress
  imports Storage Upstream
begin

text \<open>
  Progress reporting (\<open>progress.rs\<close>): the tracker of backfill stretches with its throttled
  lines, the severity and duration formats, and the summary heartbeat. Log lines are values,
  so that what an operator sees is part of the model; a line that quotes a rate holds the counts and
  the time the rate is computed from, and \<open>Rates\<close> computes it.
\<close>

section \<open>The tracker\<close>

datatype level = Level_debug | Level_info | Level_warn

definition behind_level :: "u64 \<Rightarrow> level" where
  "behind_level behind =
     (if behind \<le> 2 then Level_debug else if behind \<le> 20 then Level_info else Level_warn)"

datatype progress_line =
    Line_starting level u64 u64 u64
  | Line_backfill u64 "(u64 \<times> duration) option" u64
  | Line_caught_up level u64 string

record backfill_progress =
  bp_chain :: chain
  bp_start_height :: "u64 option"
  bp_start_time :: "instant option"
  bp_last_logged_at :: "instant option"
  bp_period :: duration
  bp_start_behind :: u64

definition progress_new :: "chain \<Rightarrow> duration \<Rightarrow> backfill_progress" where
  "progress_new c period = \<lparr>bp_chain = c, bp_start_height = None, bp_start_time = None,
     bp_last_logged_at = None, bp_period = period, bp_start_behind = 0\<rparr>"

definition progress_reset :: "backfill_progress \<Rightarrow> backfill_progress" where
  "progress_reset p = progress_new (bp_chain p) (bp_period p)"

definition progress_begin :: "instant \<Rightarrow> u64 \<Rightarrow> u64 \<Rightarrow> backfill_progress \<Rightarrow> backfill_progress" where
  "progress_begin now contiguous behind p =
     p\<lparr>bp_start_height := Some contiguous, bp_start_time := Some now, bp_last_logged_at := Some now,
       bp_start_behind := behind\<rparr>"

definition progress_due :: "instant \<Rightarrow> backfill_progress \<Rightarrow> bool" where
  "progress_due now p =
     (case bp_last_logged_at p of None \<Rightarrow> True | Some t \<Rightarrow> now - t \<ge> bp_period p)"

text \<open>The active stretch: the blocks filled since it began, and for how long it has been running.\<close>

definition stretch :: "instant \<Rightarrow> u64 \<Rightarrow> backfill_progress \<Rightarrow> (u64 \<times> duration) option" where
  "stretch now contiguous p =
     (case (bp_start_height p, bp_start_time p) of
        (Some start_h, Some start_t) \<Rightarrow> Some (contiguous - start_h, now - start_t)
      | _ \<Rightarrow> None)"

text \<open>\<open>{m:02}\<close>.\<close>

definition dec_02 :: "nat \<Rightarrow> string" where
  "dec_02 n = (if n < 10 then CHR ''0'' # to_dec n else to_dec n)"

definition format_secs :: "u64 \<Rightarrow> string" where
  "format_secs s =
     (if s = 0 then ''<1s''
      else let h = s div 3600; m = (s mod 3600) div 60; sec = s mod 60
           in if h > 0 then to_dec h @ ''h'' @ dec_02 m @ ''m''
              else if m > 0 then to_dec m @ ''m'' @ dec_02 sec @ ''s''
              else to_dec sec @ ''s'')"

definition observe ::
  "instant \<Rightarrow> u64 \<Rightarrow> u64 \<Rightarrow> u64 \<Rightarrow> backfill_progress \<Rightarrow> bool \<times> progress_line list \<times> backfill_progress" where
  "observe now contiguous target behind p =
     (if bp_start_height p = None then
        (True, [Line_starting (behind_level behind) contiguous target behind],
         progress_begin now contiguous behind p)
      else if progress_due now p then
        (False, [Line_backfill target (stretch now contiguous p) behind], p\<lparr>bp_last_logged_at := Some now\<rparr>)
      else (False, [], p))"

definition caught_up :: "instant \<Rightarrow> u64 \<Rightarrow> backfill_progress \<Rightarrow> progress_line list \<times> backfill_progress" where
  "caught_up now contiguous p =
     ((case (bp_start_height p, bp_start_time p) of
         (Some start_h, Some start_t) \<Rightarrow>
           [Line_caught_up (behind_level (bp_start_behind p)) (contiguous - start_h)
              (format_secs ((now - start_t) div nanos_per_sec))]
       | _ \<Rightarrow> []),
      progress_reset p)"

section \<open>The summary\<close>

definition behind_of :: "u64 \<Rightarrow> u64 \<Rightarrow> u64 \<Rightarrow> u64" where
  "behind_of hw mc behind_tip = (let internal = hw - mc in if internal > behind_tip then internal else behind_tip)"

definition SUMMARY_FIRST_DELAY :: duration where
  "SUMMARY_FIRST_DELAY = 5 * nanos_per_sec"

record summary_line =
  sm_chain :: chain
  sm_block :: u64
  sm_contiguous :: u64
  sm_behind :: u64
  sm_interval :: "(u64 \<times> duration) option"
  sm_backfill :: u64

text \<open>
  One pass of \<open>summary_loop\<close> after its sleep: the line, the new \<open>prev\<close>, and the backfill
  counter, which is swapped to zero. From the second line on it has the blocks added and the time
  they took.
\<close>

definition summary_tick ::
  "('s, 'd) engines \<Rightarrow> instant \<Rightarrow> ('s, 'd) storage \<Rightarrow> u64 \<Rightarrow> u64 \<Rightarrow> (u64 \<times> instant) option \<Rightarrow>
     summary_line \<times> (u64 \<times> instant) option \<times> u64" where
  "summary_tick E now st backfill_count behind_tip prev =
     (let hw = high_water E st; mc = max_contiguous_height E st
      in (\<lparr>sm_chain = st_chain st, sm_block = hw, sm_contiguous = mc,
           sm_behind = behind_of hw mc behind_tip,
           sm_interval =
             (case prev of
                None \<Rightarrow> None
              | Some (prev_hw, prev_t) \<Rightarrow> Some (hw - prev_hw, now - prev_t)),
           sm_backfill = backfill_count\<rparr>, Some (hw, now), 0))"

text \<open>
  The loop over what it finds at each wake-up: the time, the store, the stretches begun since the last
  one and the distance to the tip. Its outcome is each sleep with the line that follows it.
\<close>

record ('s, 'd) summary_sample =
  ss_now :: instant
  ss_storage :: "('s, 'd) storage"
  ss_begun :: u64
  ss_behind_tip :: u64

fun summary_loop ::
  "('s, 'd) engines \<Rightarrow> duration \<Rightarrow> duration \<Rightarrow> (u64 \<times> instant) option \<Rightarrow> u64 \<Rightarrow> ('s, 'd) summary_sample list \<Rightarrow>
     (duration \<times> summary_line) list" where
  "summary_loop E period delay prev count [] = []"
| "summary_loop E period delay prev count (x # xs) =
     (case summary_tick E (ss_now x) (ss_storage x) (count + ss_begun x) (ss_behind_tip x) prev of
        (line, prev', count') \<Rightarrow> (delay, line) # summary_loop E period period prev' count' xs)"

section \<open>Lemmas\<close>

lemma behind_of_max: "behind_of hw mc bt = max (hw - mc) bt"
  by (simp add: behind_of_def Let_def)

lemma observe_stretch:
  "fst (observe now c t b p) \<longleftrightarrow> bp_start_height p = None"
  "bp_start_height (snd (snd (observe now c t b p))) \<noteq> None"
  by (auto simp: observe_def progress_begin_def)

lemma caught_up_idle: "bp_start_height (snd (caught_up now c p)) = None"
  by (simp add: caught_up_def progress_reset_def progress_new_def)

datatype progress_event = Pe_observe instant u64 u64 u64 | Pe_caught_up instant u64

fun progress_step :: "progress_event \<Rightarrow> backfill_progress \<Rightarrow> bool \<times> progress_line list \<times> backfill_progress" where
  "progress_step (Pe_observe now c t b) p = observe now c t b p"
| "progress_step (Pe_caught_up now c) p = (False, caught_up now c p)"

fun progress_run ::
  "progress_event list \<Rightarrow> backfill_progress \<Rightarrow> bool list \<times> progress_line list \<times> backfill_progress" where
  "progress_run [] p = ([], [], p)"
| "progress_run (e # es) p =
     (let (s, ls, p') = progress_step e p; (ss, ms, p'') = progress_run es p' in (s # ss, ls @ ms, p''))"

fun is_starting :: "progress_line \<Rightarrow> bool" where
  "is_starting (Line_starting _ _ _ _) = True"
| "is_starting _ = False"

fun is_closing :: "progress_line \<Rightarrow> bool" where
  "is_closing (Line_caught_up _ _ _) = True"
| "is_closing _ = False"

definition active :: "backfill_progress \<Rightarrow> bool" where
  "active p \<longleftrightarrow> bp_start_height p \<noteq> None"

definition tracker_ok :: "backfill_progress \<Rightarrow> bool" where
  "tracker_ok p \<longleftrightarrow> (bp_start_height p = None \<longleftrightarrow> bp_start_time p = None)"

lemma tracker_ok_new [simp]: "tracker_ok (progress_new c d)" "\<not> active (progress_new c d)"
  by (simp_all add: tracker_ok_def active_def progress_new_def)

lemma progress_step_lines:
  assumes "tracker_ok p" "progress_step e p = (s, ls, p')"
  shows "tracker_ok p' \<and> length (filter is_starting ls) = (if s then 1 else 0) \<and>
    length (filter is_starting ls) + (if active p then 1 else 0) =
    length (filter is_closing ls) + (if active p' then 1 else (0::nat))"
  using assms
  by (cases e) (auto simp: observe_def caught_up_def progress_reset_def progress_new_def progress_begin_def
      tracker_ok_def active_def split: if_splits option.splits)

text \<open>
  The stretch counter counts stretches. Over any run of observations and caught-up
  signals, the times \<open>observe\<close> tells its caller to count equal the "starting" lines logged,
  and every stretch that started is closed by exactly one "caught up" line, except the one
  that may still be running.
\<close>

lemma stretches_counted_once:
  assumes "progress_run es (progress_new c period) = (ss, ls, p)"
  shows "length (filter id ss) = length (filter is_starting ls) \<and>
    length (filter is_starting ls) = length (filter is_closing ls) + (if active p then 1 else 0)"
proof -
  have "length (filter id ss) = length (filter is_starting ls) \<and>
    length (filter is_starting ls) + (if active q then 1 else 0) =
    length (filter is_closing ls) + (if active p then 1 else (0::nat))"
    if "progress_run es q = (ss, ls, p)" "tracker_ok q" for q
    using that
  proof (induction es arbitrary: q ss ls)
    case (Cons e es)
    obtain s l q' where st: "progress_step e q = (s, l, q')" by (cases "progress_step e q") auto
    obtain ss' ls' where r: "progress_run es q' = (ss', ls', p)" "ss = s # ss'" "ls = l @ ls'"
      using Cons.prems(1) st by (auto split: prod.splits)
    from progress_step_lines [OF Cons.prems(2) st] Cons.IH [OF r(1)] r(2,3) show ?case
      by (auto split: if_splits)
  qed auto
  from this [OF assms] show ?thesis by simp
qed

text \<open>
  The heartbeat: one line per wake-up, the first after five seconds and the others a period apart, only the
  first without an interval, and every stretch that begins is reported in exactly one line.
\<close>

lemma summary_loop_delays:
  "map fst (summary_loop E period delay prev n xs) = (case xs of [] \<Rightarrow> [] | _ # ys \<Rightarrow> delay # replicate (length ys) period)"
  by (induction xs arbitrary: delay prev n) (auto simp: summary_tick_def Let_def split: list.splits)

lemma summary_loop_intervals:
  "map (\<lambda>(_, l). sm_interval l = None) (summary_loop E period delay prev n xs) =
     take (length xs) ((prev = None) # replicate (length xs) False)"
  by (induction xs arbitrary: delay prev n) (auto simp: summary_tick_def Let_def take_Cons' split: option.splits)

lemma summary_loop_counts:
  assumes "xs \<noteq> []"
  shows "sum_list (map (\<lambda>(_, l). sm_backfill l) (summary_loop E period delay prev n xs)) =
    n + sum_list (map ss_begun xs)"
  using assms
proof (induction xs arbitrary: delay prev n)
  case (Cons x xs)
  then show ?case by (cases xs) (auto simp: summary_tick_def Let_def)
qed simp

end
