(* ===== verification/Backfill.thy ===== *)
theory Backfill
  imports Eth_Ingest Progress
begin

text \<open>
  The C-chain backfill worker (\<open>eth/backfill.rs\<close>): the window of logs bucketed by height, the
  cached upstream tip, one pass of the loop (what to fill next, or that the store has caught
  up), the concurrent fetch of a height, and the ordered write of a run.

  The fetches of a run are in flight together while other tasks write to the store. The model
  therefore gives each height the store its fetch looked at (\<open>snap\<close>) and lets any other
  writer change the store between two writes of the run (\<open>other\<close>); results are consumed in
  height order, which is what \<open>buffered\<close> provides.
\<close>

section \<open>The window of logs\<close>

type_synonym log_window = "u64 \<rightharpoonup> json list"

definition LOGS_WINDOW :: u64 where
  "LOGS_WINDOW = 2048"

definition block_number_of :: "json \<Rightarrow> u64 option" where
  "block_number_of l = Option.bind (jget_str l ''blockNumber'') parse_hex_quantity"

definition window_push :: "json \<Rightarrow> log_window \<Rightarrow> log_window" where
  "window_push l w =
     (case block_number_of l of
        None \<Rightarrow> w
      | Some h \<Rightarrow> w(h \<mapsto> (case w h of None \<Rightarrow> [] | Some ls \<Rightarrow> ls) @ [l]))"

text \<open>\<open>load\<close> clears the window first, so it does not depend on what the window held.\<close>

definition window_load :: "json \<Rightarrow> log_window \<Rightarrow> log_window" where
  "window_load logs w = (case as_array logs of None \<Rightarrow> Map.empty | Some items \<Rightarrow> fold window_push items Map.empty)"

definition window_serialize :: "serde \<Rightarrow> json \<Rightarrow> bytes \<times> nat" where
  "window_serialize S logs =
     (let count = (case as_array logs of None \<Rightarrow> 0 | Some ls \<Rightarrow> length ls)
      in case to_vec S logs of Some b \<Rightarrow> (b, count) | None \<Rightarrow> (EMPTY_ARRAY, 0))"

definition window_serialized :: "serde \<Rightarrow> log_window \<Rightarrow> u64 \<Rightarrow> bytes \<times> nat" where
  "window_serialized S w h =
     (case w h of Some ls \<Rightarrow> window_serialize S (JArr ls) | None \<Rightarrow> (EMPTY_ARRAY, 0))"

datatype load_end = Loaded log_window | Load_failed | Load_parked

definition load_range :: "ingest_cfg \<Rightarrow> upstream \<Rightarrow> u64 \<Rightarrow> u64 \<Rightarrow> log_window \<Rightarrow> load_end" where
  "load_range cfg up a b w =
     (case fetch_logs cfg up a b of
        Got logs \<Rightarrow> Loaded (window_load logs w)
      | Gave_up \<Rightarrow> Load_failed
      | Parked \<Rightarrow> Load_parked)"

section \<open>The cached tip\<close>

definition TIP_TTL :: duration where
  "TIP_TTL = from_secs 10"

record tip_cache =
  tc_height :: u64
  tc_fetched :: "instant option"

definition tip_new :: tip_cache where
  "tip_new = \<lparr>tc_height = 0, tc_fetched = None\<rparr>"

definition upstream_block_number :: "upstream \<Rightarrow> u64 option" where
  "upstream_block_number up =
     (case up (rpc_body ''eth_blockNumber'' (JArr [])) 0 of
        Net_error \<Rightarrow> None
      | Net_reply status hdr body \<Rightarrow>
          Option.bind body (\<lambda>v. Option.bind (jget_str v ''result'') parse_hex_quantity))"

definition tip_get_uncached :: "upstream \<Rightarrow> instant \<Rightarrow> tip_cache \<Rightarrow> u64 \<times> tip_cache" where
  "tip_get_uncached up now t =
     (let t' = (case upstream_block_number up of
                  Some tip \<Rightarrow> t\<lparr>tc_height := tip, tc_fetched := Some now\<rparr>
                | None \<Rightarrow> t\<lparr>tc_fetched := Some now\<rparr>)
      in (tc_height t', t'))"

definition tip_fresh :: "instant \<Rightarrow> tip_cache \<Rightarrow> bool" where
  "tip_fresh now t = (case tc_fetched t of None \<Rightarrow> False | Some at \<Rightarrow> now - at < TIP_TTL)"

definition tip_get :: "upstream \<Rightarrow> instant \<Rightarrow> tip_cache \<Rightarrow> u64 \<times> tip_cache" where
  "tip_get up now t = (if tip_fresh now t then (tc_height t, t) else tip_get_uncached up now t)"

section \<open>One pass of the loop\<close>

datatype pass =
    Pass_wait_anchor
  | Pass_caught_up u64
  | Pass_fill u64 u64 u64 u64

text \<open>
  The decision of one pass, from the store and the tip: the heights to fill (first, last),
  the target, and the distance behind; and the new tip cache.
\<close>

definition backfill_pass ::
  "('s, 'd) engines \<Rightarrow> ingest_cfg \<Rightarrow> upstream \<Rightarrow> instant \<Rightarrow> ('s, 'd) storage \<Rightarrow> tip_cache \<Rightarrow> pass \<times> tip_cache" where
  "backfill_pass E cfg up now st tip =
     (let hw = high_water E st in
      if hw = 0 \<and> cfg_backfill_floor cfg = None then (Pass_wait_anchor, tip)
      else
        let floor = (case cfg_backfill_floor cfg of None \<Rightarrow> 0 | Some f \<Rightarrow> f);
            raw_contiguous = max_contiguous_height E st;
            contiguous = max raw_contiguous (floor - 1);
            known = max hw (tc_height tip);
            (upstream_tip, tip') =
              (if contiguous < known then tip_get up now tip else tip_get_uncached up now tip);
            target = max hw upstream_tip;
            behind = target - contiguous
        in if contiguous \<ge> target then (Pass_caught_up contiguous, tip')
           else let nxt = sat_add contiguous 1
                in (Pass_fill nxt (min target (sat_add nxt (LOGS_WINDOW - 1))) target behind, tip'))"

section \<open>Fetching one height\<close>

datatype fetched = Skip | Fetched_block u64 json "json option"

datatype fetch_one_end = One_failed | One_parked | One fetched

definition fetch_one ::
  "('s, 'd) engines \<Rightarrow> ingest_cfg \<Rightarrow> upstream \<Rightarrow> ('s, 'd) storage \<Rightarrow> u64 \<Rightarrow> fetch_one_end" where
  "fetch_one E cfg up st height =
     (if (case get_by_height E st height of Inr (Some _) \<Rightarrow> True | _ \<Rightarrow> False) then One Skip
      else
        let per_height_logs = (cfg_ingest_logs cfg \<and> cfg_logs_source cfg = Receipts);
            block = fst (fetch_full_block cfg up height None);
            logs = (if \<not> per_height_logs then Got JNull else map_fetch logs_from_receipts (fetch_block_receipts cfg up height))
        in case (block, logs) of
             (Parked, _) \<Rightarrow> One_parked
           | (_, Parked) \<Rightarrow> One_parked
           | (Got b, Got l) \<Rightarrow> One (Fetched_block height b (if per_height_logs then Some l else None))
           | _ \<Rightarrow> One_failed)"

section \<open>Writing a run in order\<close>

record run_state =
  rs_progress :: backfill_progress
  rs_behind_tip :: u64
  rs_logs :: log_window

definition run_logs :: "serde \<Rightarrow> ingest_cfg \<Rightarrow> log_window \<Rightarrow> u64 \<Rightarrow> json option \<Rightarrow> bytes" where
  "run_logs S cfg w height fetched_logs =
     (if \<not> cfg_ingest_logs cfg then EMPTY_ARRAY
      else case fetched_logs of
        Some logs \<Rightarrow> fst (window_serialize S logs)
      | None \<Rightarrow> fst (window_serialized S w height))"

datatype fill_end = Fill_done | Fill_cut | Fill_parked

fun fill_loop ::
  "('s, 'd) engines \<Rightarrow> crypto \<Rightarrow> ingest_cfg \<Rightarrow> (u64 \<Rightarrow> fetch_one_end) \<Rightarrow> (u64 \<Rightarrow> ('s, 'd) storage \<Rightarrow> ('s, 'd) storage) \<Rightarrow>
     (u64 \<Rightarrow> instant) \<Rightarrow> u64 \<Rightarrow> u64 list \<Rightarrow> run_state \<Rightarrow> ('s, 'd) storage \<Rightarrow> fill_end \<times> run_state \<times> ('s, 'd) storage" where
  "fill_loop E C cfg results other clk tip [] run st = (Fill_done, run, st)"
| "fill_loop E C cfg results other clk tip (h # hs) run st =
     (let st0 = other h st in
      case results h of
        One_failed \<Rightarrow> (Fill_cut, run, st0)
      | One_parked \<Rightarrow> (Fill_parked, run, st0)
      | One Skip \<Rightarrow> fill_loop E C cfg results other clk tip hs run st0
      | One (Fetched_block height block fetched_logs) \<Rightarrow>
          (case persist_backfilled E C height block
               (run_logs (en_ser E) cfg (rs_logs run) height fetched_logs) st0 of
             (Inl e, st') \<Rightarrow> (Fill_cut, run, st')
           | (Inr _, st') \<Rightarrow>
               let behind = tip - height;
                   run' = run\<lparr>rs_behind_tip := behind,
                     rs_progress := snd (snd (observe (clk height) height tip behind (rs_progress run)))\<rparr>
               in fill_loop E C cfg results other clk tip hs run' st'))"

definition fill_range ::
  "('s, 'd) engines \<Rightarrow> crypto \<Rightarrow> ingest_cfg \<Rightarrow> upstream \<Rightarrow> (u64 \<Rightarrow> ('s, 'd) storage) \<Rightarrow>
     (u64 \<Rightarrow> ('s, 'd) storage \<Rightarrow> ('s, 'd) storage) \<Rightarrow> (u64 \<Rightarrow> instant) \<Rightarrow> u64 \<Rightarrow> u64 \<Rightarrow> u64 \<Rightarrow> run_state \<Rightarrow>
     ('s, 'd) storage \<Rightarrow> fill_end \<times> run_state \<times> ('s, 'd) storage" where
  "fill_range E C cfg up snap other clk a b tip run st =
     (let windowed = (cfg_ingest_logs cfg \<and> cfg_logs_source cfg = GetLogs);
          loaded = (if windowed then load_range cfg up a b (rs_logs run) else Loaded (rs_logs run))
      in case loaded of
           Load_failed \<Rightarrow> (Fill_cut, run, st)
         | Load_parked \<Rightarrow> (Fill_parked, run, st)
         | Loaded w \<Rightarrow>
             fill_loop E C cfg (\<lambda>h. fetch_one E cfg up (snap h) h) other clk tip (heights a b)
               (run\<lparr>rs_logs := w\<rparr>) st)"

section \<open>Lemmas\<close>

lemma fold_window_push:
  "fold window_push items w h =
     (let new = filter (\<lambda>l. block_number_of l = Some h) items
      in if new = [] then w h else Some ((case w h of None \<Rightarrow> [] | Some ls \<Rightarrow> ls) @ new))"
proof (induction items arbitrary: w)
  case (Cons l items)
  show ?case
    unfolding fold_simps o_apply Cons.IH
    by (cases "block_number_of l") (auto simp: window_push_def Let_def split: option.splits)
qed simp

lemma window_load_filter:
  "window_load (JArr items) w h =
     (let new = filter (\<lambda>l. block_number_of l = Some h) items in if new = [] then None else Some new)"
  by (simp add: window_load_def fold_window_push Let_def)

lemma window_serialized_filter:
  assumes "to_vec S (JArr []) = Some EMPTY_ARRAY"
  shows "window_serialized S (window_load (JArr items) w) h =
    window_serialize S (JArr (filter (\<lambda>l. block_number_of l = Some h) items))"
  using assms by (auto simp: window_serialized_def window_load_filter Let_def window_serialize_def)

text \<open>The decision of a pass, with the values it is taken on.\<close>

lemma backfill_pass_shape:
  assumes "hw = high_water E st" "fl = (case cfg_backfill_floor cfg of None \<Rightarrow> 0 | Some f \<Rightarrow> f) - 1"
    and "c = max (max_contiguous_height E st) fl"
    and "t = (if c < max hw (tc_height tip) then tip_get up now tip else tip_get_uncached up now tip)"
  shows "backfill_pass E cfg up now st tip =
    (if hw = 0 \<and> cfg_backfill_floor cfg = None then (Pass_wait_anchor, tip)
     else if max hw (fst t) \<le> c then (Pass_caught_up c, snd t)
     else (Pass_fill (sat_add c 1) (min (max hw (fst t)) (sat_add (sat_add c 1) (LOGS_WINDOW - 1)))
       (max hw (fst t)) (max hw (fst t) - c), snd t))"
  unfolding backfill_pass_def
  by (simp only: assms(1) [symmetric] assms(2) [symmetric] assms(3) [symmetric] assms(4) [symmetric] Let_def case_prod_beta)

text \<open>
  Caught up is never decided on a cached tip: the upstream tip was read in that very pass, and the
  frontier has reached both the local high-water mark and the tip that was read.
\<close>

lemma caught_up_on_fresh_tip:
  assumes "backfill_pass E cfg up now st tip = (Pass_caught_up c, tip')"
  shows "tc_fetched tip' = Some now \<and> high_water E st \<le> c \<and> tc_height tip' \<le> c"
proof -
  define t where "t = (if c < max (high_water E st) (tc_height tip) then tip_get up now tip else tip_get_uncached up now tip)"
  have t: "max (high_water E st) (fst t) \<le> c" "tip' = snd t"
    using assms unfolding t_def by (auto simp: backfill_pass_shape [OF refl refl refl refl] split: if_splits)
  have "t = tip_get_uncached up now tip"
  proof (rule ccontr)
    assume "t \<noteq> tip_get_uncached up now tip"
    then have "c < max (high_water E st) (tc_height tip)" "fst t = tc_height tip"
      by (auto simp: t_def tip_get_def split: if_splits)
    then show False using t(1) by auto
  qed
  then have "tc_fetched (snd t) = Some now" "fst t = tc_height (snd t)"
    by (auto simp: tip_get_uncached_def Let_def split: option.splits)
  then show ?thesis using t by simp
qed

text \<open>Otherwise the pass fills from just above the frontier, at most one logs window, and never beyond the target.\<close>

lemma backfill_pass_window:
  assumes "backfill_pass E cfg up now st tip = (Pass_fill a b t behind, tip')"
    and "max_contiguous_height E st < u64_max" "\<forall>f. cfg_backfill_floor cfg = Some f \<longrightarrow> f \<le> u64_max"
  shows "max_contiguous_height E st < a \<and> a \<le> b \<and> b \<le> t \<and> b - a < LOGS_WINDOW \<and>
    high_water E st \<le> t \<and> behind = t - (a - 1)"
proof -
  define c where "c = max (max_contiguous_height E st) ((case cfg_backfill_floor cfg of None \<Rightarrow> 0 | Some f \<Rightarrow> f) - 1)"
  have c: "c < u64_max" "max_contiguous_height E st \<le> c"
    using assms(2,3) by (auto simp: c_def u64_max_def split: option.splits)
  then have sat: "sat_add c 1 = Suc c" by (simp add: sat_add_def)
  define q where "q = (if c < max (high_water E st) (tc_height tip) then tip_get up now tip else tip_get_uncached up now tip)"
  have "a = Suc c" "b = min t (sat_add (Suc c) (LOGS_WINDOW - 1))" "c < t" "high_water E st \<le> t" "behind = t - c"
    using assms(1) unfolding backfill_pass_shape [OF refl refl c_def q_def] sat by (auto split: if_splits)
  moreover have "Suc c \<le> sat_add (Suc c) (LOGS_WINDOW - 1)" "sat_add (Suc c) (LOGS_WINDOW - 1) < Suc c + LOGS_WINDOW"
    using c(1) by (simp_all add: sat_add_def LOGS_WINDOW_def)
  ultimately show ?thesis using c(2) by (simp add: min_def split: if_splits)
qed

section \<open>Logs of a height\<close>

text \<open>
  C29. Backfilled logs belong to their height. Whatever the window held before, after loading
  a fetched array the logs stored with a height are the serialisation of exactly the fetched
  logs whose block number is that height, in the order in which they were fetched, with
  their count, and an empty array when there are none.
\<close>

theorem window_logs_of_height:
  assumes "serde_laws S" "list_all plain items"
  shows "\<exists>b. window_serialized S (window_load (JArr items) w) h =
      (b, length (filter (\<lambda>l. block_number_of l = Some h) items)) \<and>
    from_slice S b = Some (JArr (filter (\<lambda>l. block_number_of l = Some h) items)) \<and> tight S b"
proof -
  let ?ls = "filter (\<lambda>l. block_number_of l = Some h) items"
  have p: "plain (JArr ?ls)" using assms(2) by (auto simp: list_all_iff)
  obtain b where b: "to_vec S (JArr ?ls) = Some b" "from_slice S b = Some (JArr ?ls)" "tight S b"
    using serde_laws.printed [OF assms(1) p] by blast
  have e: "to_vec S (JArr []) = Some EMPTY_ARRAY"
    using serde_laws.print_empty_array [OF assms(1)] by (simp add: EMPTY_ARRAY_def)
  show ?thesis
    unfolding window_serialized_filter [OF e] using b by (auto simp: window_serialize_def)
qed

theorem window_logs_of_height_witness:
  "let l7 = JObj [(''blockNumber'', JStr ''0x7'')]; l8 = JObj [(''blockNumber'', JStr ''0x8'')]
   in \<exists>b. window_serialized ref_serde (window_load (JArr [l7, l8]) Map.empty) 9 = (b, 0)"
proof -
  define ls where "ls = [JObj [(''blockNumber'', JStr ''0x7'')], JObj [(''blockNumber'', JStr ''0x8'')]]"
  have p: "list_all plain ls" by (simp add: ls_def)
  have q: "parse_hex_quantity (''0x'' @ to_hex n) = Some n" if "n < 10" for n
    using that by (intro parse_hex_quantity_to_hex) (simp add: u64_max_def)
  have "''0x'' @ to_hex 7 = ''0x7''" "''0x'' @ to_hex 8 = ''0x8''"
    unfolding to_hex_def by (subst format_radix.simps, simp add: from_digit_def char_of_def bit_Suc_0_iff)+
  then have "parse_hex_quantity ''0x7'' = Some 7" "parse_hex_quantity ''0x8'' = Some 8"
    using q [of 7] q [of 8] by simp_all
  then have "filter (\<lambda>l. block_number_of l = Some 9) ls = []"
    by (simp add: ls_def block_number_of_def jget_str_def)
  with window_logs_of_height [OF ref.serde_laws_axioms p, of Map.empty 9] show ?thesis
    by (auto simp: ls_def Let_def)
qed

section \<open>The order of a run\<close>

lemma fetch_one_height: "fetch_one E cfg up st h = One (Fetched_block k b l) \<Longrightarrow> k = h"
  by (auto simp: fetch_one_def Let_def split: if_splits rpc_fetch.splits prod.splits)

text \<open>The ways of one height through the ordered consumer.\<close>

lemma fill_loop_ConsE:
  assumes "fill_loop E C cfg (\<lambda>h. fetch_one E cfg up (snap h) h) other clk tip (h # hs) run st = (r, run', st')"
  obtains
    (stop) "fetch_one E cfg up (snap h) h \<in> {One_failed, One_parked}" "st' = other h st" "r \<noteq> Fill_done"
  | (skip) "fetch_one E cfg up (snap h) h = One Skip"
      "fill_loop E C cfg (\<lambda>h. fetch_one E cfg up (snap h) h) other clk tip hs run (other h st) = (r, run', st')"
  | (cut) block l x where "fetch_one E cfg up (snap h) h = One (Fetched_block h block l)" "r = Fill_cut"
      "persist_backfilled E C h block (run_logs (en_ser E) cfg (rs_logs run) h l) (other h st) = (Inl x, st')"
  | (wrote) block l s run1 where "fetch_one E cfg up (snap h) h = One (Fetched_block h block l)"
      "persist_backfilled E C h block (run_logs (en_ser E) cfg (rs_logs run) h l) (other h st) = (Inr (), s)"
      "fill_loop E C cfg (\<lambda>h. fetch_one E cfg up (snap h) h) other clk tip hs run1 s = (r, run', st')"
proof (cases "fetch_one E cfg up (snap h) h")
  case (One f)
  show thesis
  proof (cases f)
    case (Fetched_block h' block l)
    then have h': "h' = h" using One fetch_one_height by metis
    obtain q s where p: "persist_backfilled E C h block (run_logs (en_ser E) cfg (rs_logs run) h l) (other h st) = (q, s)"
      by (cases "persist_backfilled E C h block (run_logs (en_ser E) cfg (rs_logs run) h l) (other h st)")
    show thesis
      using assms One Fetched_block h' p by (cases q) (auto simp: Let_def intro: cut wrote)
  qed (use assms One in \<open>auto simp: Let_def intro: skip\<close>)
qed (use assms in \<open>auto simp: Let_def intro: stop\<close>)

context storage_engine
begin

lemma persist_backfilled_store:
  assumes "storage_wf wf st" "persist_backfilled E C h block l st = (r, st')"
  shows "storage_wf wf st'" "\<And>k. k \<noteq> h \<Longrightarrow> stored content st' k = stored content st k"
    "dom (stored content st) \<subseteq> dom (stored content st')"
    "r = Inr () \<Longrightarrow> \<exists>b. to_vec (en_ser E) block = Some b \<and> stored content st' h = Some (encode [b, l])"
proof -
  have "storage_wf wf st' \<and> (\<forall>k. k \<noteq> h \<longrightarrow> stored content st' k = stored content st k) \<and>
    dom (stored content st) \<subseteq> dom (stored content st') \<and>
    (r = Inr () \<longrightarrow> (\<exists>b. to_vec (en_ser E) block = Some b \<and> stored content st' h = Some (encode [b, l])))"
  proof (cases "\<exists>hash b. jget_str block ''hash'' \<noteq> None \<and> decode_hash C (the (jget_str block ''hash'')) = Inr hash \<and>
      to_vec (en_ser E) block = Some b")
    case True
    then obtain s hash b where e: "jget_str block ''hash'' = Some s" "decode_hash C s = Inr hash"
      "to_vec (en_ser E) block = Some b" by auto
    obtain q where q: "put E h hash (extract_tx_hashes C block) [b, l] st = (q, st')" "r = map_err Bf_storage q"
      using assms(2) e by (cases "put E h hash (extract_tx_hashes C block) [b, l] st") (auto simp: persist_backfilled_def)
    from put_outcome [OF assms(1) q(1)] e(3) q(2) show ?thesis
      by (cases q) (auto split: storage_error.splits)
  next
    case False
    then have "st' = st \<and> r \<noteq> Inr ()"
      using assms(2) by (auto simp: persist_backfilled_def split: option.splits sum.splits prod.splits)
    with assms(1) show ?thesis by auto
  qed
  then show "storage_wf wf st'" "\<And>k. k \<noteq> h \<Longrightarrow> stored content st' k = stored content st k"
    "dom (stored content st) \<subseteq> dom (stored content st')"
    "r = Inr () \<Longrightarrow> \<exists>b. to_vec (en_ser E) block = Some b \<and> stored content st' h = Some (encode [b, l])"
    by blast+
qed

lemma skip_is_stored:
  assumes "storage_wf wf st" "fetch_one E cfg up st h = One Skip"
  shows "h \<in> dom (stored content st)"
proof -
  have "\<exists>v. get_by_height E st h = Inr (Some v)"
    using assms(2) by (auto simp: fetch_one_def Let_def split: if_splits sum.splits option.splits rpc_fetch.splits)
  then obtain v where "get_element E st h BLOCK = Inr (Some v)" by (auto simp: get_by_height_def)
  from get_element_refines [OF assms(1) this] show ?thesis
    by (auto simp: spec_element_def split: option.splits)
qed

lemma fill_loop_prefix:
  assumes "storage_wf wf st" "dom (stored content st0) \<subseteq> dom (stored content st)"
    and "\<And>h. storage_wf wf (snap h)"
    and "\<And>h s. storage_wf wf s \<Longrightarrow> dom (stored content st0) \<subseteq> dom (stored content s) \<Longrightarrow>
       storage_wf wf (other h s) \<and>
       dom (stored content s) \<union> dom (stored content (snap h)) \<subseteq> dom (stored content (other h s))"
    and "fill_loop E C cfg (\<lambda>h. fetch_one E cfg up (snap h) h) other clk tip hs run st = (r, run', st')"
  shows "storage_wf wf st' \<and> dom (stored content st) \<subseteq> dom (stored content st') \<and>
    (\<exists>k \<le> length hs. (r = Fill_done \<longrightarrow> k = length hs) \<and> set (take k hs) \<subseteq> dom (stored content st') \<and>
      ((\<forall>h s. other h s = s) \<longrightarrow> (\<forall>h. h \<notin> set (take (Suc k) hs) \<longrightarrow> stored content st' h = stored content st h)))"
  using assms(1,2,5)
proof (induction hs arbitrary: st run)
  case (Cons h hs)
  let ?s = "other h st"
  note o = assms(4) [OF Cons.prems(1,2), of h]
  have ws: "storage_wf wf ?s" and sub: "dom (stored content st) \<subseteq> dom (stored content ?s)"
    and sn: "dom (stored content (snap h)) \<subseteq> dom (stored content ?s)"
    using o by auto
  have keep: "dom (stored content st0) \<subseteq> dom (stored content ?s)" using Cons.prems(2) sub by blast
  have go: ?case
    if "storage_wf wf s" "dom (stored content ?s) \<subseteq> dom (stored content s)" "h \<in> dom (stored content s)"
      "\<And>k. k \<noteq> h \<Longrightarrow> stored content s k = stored content ?s k"
      "fill_loop E C cfg (\<lambda>h. fetch_one E cfg up (snap h) h) other clk tip hs run1 s = (r, run', st')" for s run1
  proof -
    have "dom (stored content st0) \<subseteq> dom (stored content s)" using keep that(2) by blast
    from Cons.IH [OF that(1) this that(5)] obtain k where k: "storage_wf wf st'"
      "dom (stored content s) \<subseteq> dom (stored content st')" "k \<le> length hs" "r = Fill_done \<longrightarrow> k = length hs"
      "set (take k hs) \<subseteq> dom (stored content st')"
      "(\<forall>h s. other h s = s) \<longrightarrow> (\<forall>h. h \<notin> set (take (Suc k) hs) \<longrightarrow> stored content st' h = stored content s h)"
      by blast
    show ?thesis
      using k sub that(2,3,4) by (intro conjI exI [of _ "Suc k"]) auto
  qed
  from Cons.prems(3) show ?case
  proof (cases rule: fill_loop_ConsE)
    case stop
    then show ?thesis using ws sub by (intro conjI exI [of _ 0]) auto
  next
    case skip
    have "h \<in> dom (stored content ?s)" using skip_is_stored [OF assms(3) skip(1)] sn by blast
    with skip ws show ?thesis by (intro go [of ?s run]) simp_all
  next
    case (cut block l x)
    then show ?thesis using persist_backfilled_store(1-3) [OF ws cut(3)] sub by (intro conjI exI [of _ 0]) auto
  next
    case (wrote block l s run1)
    note P = persist_backfilled_store [OF ws wrote(2)]
    have "h \<in> dom (stored content s)" using P(4) by auto
    with P(1-3) wrote(3) show ?thesis by (intro go [of s run1]) simp_all
  qed
qed simp

end

text \<open>
  C9. A backfill run advances the frontier in order. However its fetches are interleaved with
  other writers, a run that completes leaves every height of the range stored; a run that is
  cut short leaves every height before the failure stored, and, when no one else is writing,
  nothing beyond the failing height is touched, so a retry resumes at the frontier. When the
  window of logs cannot be fetched, nothing is written at all.
\<close>

theorem fill_range_in_order:
  assumes "storage_engine E content ok view" "storage_wf ok st" "\<forall>h. storage_wf ok (snap h)"
    and "\<forall>h s. storage_wf ok s \<and> dom (stored content st) \<subseteq> dom (stored content s) \<longrightarrow>
       storage_wf ok (other h s) \<and>
       dom (stored content s) \<union> dom (stored content (snap h)) \<subseteq> dom (stored content (other h s))"
    and "fill_range E C cfg up snap other clk a b tip run st = (r, run', st')"
  shows "dom (stored content st) \<subseteq> dom (stored content st') \<and>
    (\<exists>k \<le> length (heights a b). (r = Fill_done \<longrightarrow> k = length (heights a b)) \<and>
      set (take k (heights a b)) \<subseteq> dom (stored content st') \<and>
      ((\<forall>h s. other h s = s) \<longrightarrow>
        (\<forall>h. h \<notin> set (take (Suc k) (heights a b)) \<longrightarrow> stored content st' h = stored content st h))) \<and>
    (cfg_ingest_logs cfg \<and> cfg_logs_source cfg = GetLogs \<and> (\<nexists>logs. fetch_logs cfg up a b = Got logs) \<longrightarrow>
      r \<noteq> Fill_done \<and> st' = st)"
proof (cases "cfg_ingest_logs cfg \<and> cfg_logs_source cfg = GetLogs \<and> (\<nexists>logs. fetch_logs cfg up a b = Got logs)")
  case True
  then have "r \<noteq> Fill_done \<and> st' = st"
    using assms(5) by (cases "fetch_logs cfg up a b") (auto simp: fill_range_def load_range_def Let_def)
  then show ?thesis by (intro conjI exI [of _ 0]) auto
next
  case False
  then obtain w where "fill_loop E C cfg (\<lambda>h. fetch_one E cfg up (snap h) h) other clk tip (heights a b)
      w st = (r, run', st')"
    using assms(5) by (auto simp: fill_range_def load_range_def Let_def split: if_splits)
  note loop = storage_engine.fill_loop_prefix [OF assms(1,2) subset_refl _ _ this]
  have "storage_wf ok st' \<and> dom (stored content st) \<subseteq> dom (stored content st') \<and>
    (\<exists>k \<le> length (heights a b). (r = Fill_done \<longrightarrow> k = length (heights a b)) \<and>
      set (take k (heights a b)) \<subseteq> dom (stored content st') \<and>
      ((\<forall>h s. other h s = s) \<longrightarrow>
        (\<forall>h. h \<notin> set (take (Suc k) (heights a b)) \<longrightarrow> stored content st' h = stored content st h)))"
  proof (rule loop)
    show "storage_wf ok (snap h)" for h using assms(3) by simp
    show "storage_wf ok (other h s) \<and>
       dom (stored content s) \<union> dom (stored content (snap h)) \<subseteq> dom (stored content (other h s))"
      if "storage_wf ok s" "dom (stored content st) \<subseteq> dom (stored content s)" for h s
      using assms(4) that by simp
  qed
  with False show ?thesis by (simp only: simp_thms)
qed

theorem fill_range_in_order_witness:
  "let up = (\<lambda>req _. Net_reply 200 None (Some (JObj [(''result'',
         if jget_str req ''method'' = Some ''eth_getLogs'' then JArr [] else ref_block)])));
       st = mem_fresh Chain_C
   in \<exists>run' st'. fill_range mem_engines ref_crypto ref_cfg up (\<lambda>_. st) (\<lambda>_ s. s) (\<lambda>_. 0) 7 7 7
          \<lparr>rs_progress = progress_new Chain_C 0, rs_behind_tip = 0, rs_logs = Map.empty\<rparr> st =
        (Fill_done, run', st') \<and> 7 \<in> dom (stored mem_content st')"
proof -
  define up :: upstream where "up = (\<lambda>req _. Net_reply 200 None (Some (JObj [(''result'',
         if jget_str req ''method'' = Some ''eth_getLogs'' then JArr [] else ref_block)])))"
  define st where "st = mem_fresh Chain_C"
  define run where "run = \<lparr>rs_progress = progress_new Chain_C 0, rs_behind_tip = 0, rs_logs = Map.empty\<rparr>"
  have st_def': "st_store st = None" by (simp add: st_def mem_fresh_def)
  have nn: "ref_block \<noteq> JNull" by (simp add: ref_block_def)
  have logs: "fetch_logs ref_cfg up 7 7 = Got (JArr [])"
    by (simp add: fetch_logs_def fetch_rpc_def RPC_MAX_ATTEMPTS_def numeral_3_eq_3 up_def rpc_body_def
        jget_str_def is_throttled_def rpc_result_def Let_def)
  have blk: "fst (fetch_full_block ref_cfg up 7 None) = Got ref_block"
    using nn by (simp add: fetch_full_block_def fetch_rpc_def RPC_MAX_ATTEMPTS_def numeral_3_eq_3 up_def rpc_body_def
        jget_str_def is_throttled_def rpc_result_def Let_def)
  have cf: "cfg_ingest_logs ref_cfg" "cfg_logs_source ref_cfg = GetLogs" by (simp_all add: ref_cfg_def)
  have one: "fetch_one mem_engines ref_cfg up st 7 = One (Fetched_block 7 ref_block None)"
    by (simp add: fetch_one_def get_by_height_def get_element_def st_def' blk cf Let_def)
  obtain raw where raw: "decode_hash ref_crypto ref_hash = Inr raw" using ref_hash_decodes by blast
  have tv: "to_vec (en_ser mem_engines) ref_block = Some (print_json ref_block)"
    using ref_block_facts by (simp add: mem_engines_def ref_serde_def ref_to_vec_def)
  have pers: "\<exists>s. persist_backfilled mem_engines ref_crypto 7 ref_block l st = (Inr (), s)" for l
    using mem_put_first [of "[print_json ref_block, l]" Chain_C 7 raw "extract_tx_hashes ref_crypto ref_block"]
    by (simp add: persist_backfilled_def ref_block_facts raw tv st_def)
  obtain r run' st' where f: "fill_range mem_engines ref_crypto ref_cfg up (\<lambda>_. st) (\<lambda>_ s. s) (\<lambda>_. 0) 7 7 7 run st = (r, run', st')"
    by (cases "fill_range mem_engines ref_crypto ref_cfg up (\<lambda>_. st) (\<lambda>_ s. s) (\<lambda>_. 0) 7 7 7 run st") auto
  have "heights 7 7 = [7]" by (simp add: heights_def)
  then have "r = Fill_done"
    using f pers [of "run_logs (en_ser mem_engines) ref_cfg (window_load (JArr []) (rs_logs run)) 7 None"]
    by (auto simp: fill_range_def load_range_def logs one cf Let_def)
  moreover have "7 \<in> dom (stored mem_content st')"
    using fill_range_in_order [OF mem.storage_engine_axioms _ _ _ f] \<open>r = Fill_done\<close> \<open>heights 7 7 = [7]\<close>
    by (auto simp: st_def)
  ultimately show ?thesis using f by (auto simp: up_def st_def run_def Let_def)
qed

end
