(* ===== verification/Platform_Ingest.thy ===== *)
theory Platform_Ingest
  imports Backfill
begin

text \<open>
  P-chain ingest (\<open>platform/ingest.rs\<close>): the \<open>platform.*\<close> round trip, the two encodings of a
  height and their cross-check, the one-deep hold of reward proposals, the ordered fill and
  one pass of the polling loop.

  As on the C-chain side the network is an \<open>upstream\<close> function and a fetch that meets a
  throttle beyond the limit parks its task. The fetches in flight are a function from the
  height to the result: \<open>buffered\<close> hands them over in height order. The lemmas show what the
  cross-check accepts, that every record a run writes is the one its own fetches determine,
  rewards element included, and where a run stops.
\<close>

section \<open>The upstream call\<close>

definition P_RPC_MAX_ATTEMPTS :: u32 where
  "P_RPC_MAX_ATTEMPTS = 3"

definition P_RPC_RETRY_BACKOFF_MS :: u64 where
  "P_RPC_RETRY_BACKOFF_MS = 50"

text \<open>The attempts that are left, with the sleeps taken.\<close>

fun p_rpc_attempts ::
  "ingest_cfg \<Rightarrow> (nat \<Rightarrow> http_reply) \<Rightarrow> nat \<Rightarrow> nat \<Rightarrow> rpc_fetch \<times> duration list" where
  "p_rpc_attempts cfg net 0 attempt = (Gave_up, [])"
| "p_rpc_attempts cfg net (Suc left) attempt =
     (case net attempt of
        Net_error \<Rightarrow> (Gave_up, [])
      | Net_reply status hdr body \<Rightarrow>
          if is_throttled status then
            (case handle_throttle cfg (default_retry_after hdr) of
               Fatal \<Rightarrow> (Parked, [])
             | Slept w \<Rightarrow> apsnd (Cons w) (p_rpc_attempts cfg net left (Suc attempt)))
          else (case body of
              None \<Rightarrow> (Gave_up, [])
            | Some parsed \<Rightarrow>
                (case rpc_result parsed of
                   Some r \<Rightarrow> (Got r, [])
                 | None \<Rightarrow>
                     apsnd (Cons (from_millis (sat_mul P_RPC_RETRY_BACKOFF_MS (2 ^ min attempt 10))))
                       (p_rpc_attempts cfg net left (Suc attempt)))))"

definition p_fetch_rpc :: "ingest_cfg \<Rightarrow> upstream \<Rightarrow> string \<Rightarrow> json \<Rightarrow> rpc_fetch" where
  "p_fetch_rpc cfg up meth params =
     fst (p_rpc_attempts cfg (up (rpc_body meth params)) P_RPC_MAX_ATTEMPTS 0)"

definition fetch_block_encoding :: "ingest_cfg \<Rightarrow> upstream \<Rightarrow> u64 \<Rightarrow> encoding \<Rightarrow> rpc_fetch" where
  "fetch_block_encoding cfg up height enc =
     (case p_fetch_rpc cfg up ''platform.getBlockByHeight''
         (JObj [(''height'', JNum (PosInt height)), (''encoding'', JStr (encoding_as_str enc))]) of
        Got result \<Rightarrow> (case jget result ''block'' of None \<Rightarrow> Gave_up | Some b \<Rightarrow> Got b)
      | r \<Rightarrow> r)"

datatype height_poll = Tip u64 | Tip_unknown | Tip_parked

definition fetch_height :: "ingest_cfg \<Rightarrow> upstream \<Rightarrow> height_poll" where
  "fetch_height cfg up =
     (case p_fetch_rpc cfg up ''platform.getHeight'' (JObj []) of
        Parked \<Rightarrow> Tip_parked
      | Gave_up \<Rightarrow> Tip_unknown
      | Got result \<Rightarrow>
          (case jget result ''height'' of
             None \<Rightarrow> Tip_unknown
           | Some raw \<Rightarrow>
               (case Option.bind (as_str raw) parse_u64 of
                  Some n \<Rightarrow> Tip n
                | None \<Rightarrow> (case as_u64 raw of None \<Rightarrow> Tip_unknown | Some n \<Rightarrow> Tip n))))"

definition fetch_reward_utxos :: "ingest_cfg \<Rightarrow> upstream \<Rightarrow> string \<Rightarrow> rpc_fetch" where
  "fetch_reward_utxos cfg up staking_tx =
     map_fetch (\<lambda>result. case jget result ''utxos'' of None \<Rightarrow> JArr [] | Some u \<Rightarrow> u)
       (p_fetch_rpc cfg up ''platform.getRewardUTXOs''
          (JObj [(''txID'', JStr staking_tx), (''encoding'', JStr ''hex'')]))"

datatype genesis_error = No_genesis string | Genesis_not_string | Genesis_bytes codec_error | Genesis_parked

definition handshake_cfg :: "string \<Rightarrow> duration \<Rightarrow> ingest_cfg" where
  "handshake_cfg rpc_url max_wait =
     \<lparr>cfg_chain = Chain_P, cfg_max_wait = max_wait, cfg_ws_idle_timeout = 0, cfg_ws_url = [],
      cfg_rpc_url = rpc_url, cfg_poll_interval = from_secs 1, cfg_subscribe_blocks = False,
      cfg_backfill_inter_fetch = 0, cfg_fetch_concurrency = 1, cfg_backfill_floor = None,
      cfg_prefetch_delay_cap = 0, cfg_progress_period = from_secs 60, cfg_ingest_logs = False,
      cfg_logs_source = GetLogs\<rparr>"

definition fetch_genesis_id :: "crypto \<Rightarrow> upstream \<Rightarrow> string \<Rightarrow> duration \<Rightarrow> genesis_error + string" where
  "fetch_genesis_id C up rpc_url max_wait =
     (case fetch_block_encoding (handshake_cfg rpc_url max_wait) up 0 Enc_Hexnc of
        Parked \<Rightarrow> Inl Genesis_parked
      | Gave_up \<Rightarrow> Inl (No_genesis (redact_url rpc_url))
      | Got bytes_json \<Rightarrow>
          (case as_str bytes_json of
             None \<Rightarrow> Inl Genesis_not_string
           | Some hex \<Rightarrow>
               (case hexnc_decode C hex of
                  Inl e \<Rightarrow> Inl (Genesis_bytes e)
                | Inr b \<Rightarrow> Inr (block_id_of C b))))"

section \<open>The cross-check of a record\<close>

record fetched_block =
  fb_height :: u64
  fb_bytes_json :: bytes
  fb_json :: bytes
  fb_id :: hash32
  fb_tx_ids :: "hash32 list"
  fb_timestamp :: "u64 option"
  fb_kind :: block_kind_t
  fb_reward_staking_tx :: "string option"

datatype reject =
    Reject_bad_hex
  | Reject_id_mismatch
  | Reject_no_height
  | Reject_height_mismatch
  | Reject_bad_id codec_error
  | Reject_serialize

definition reward_staking_tx :: "json \<Rightarrow> string option" where
  "reward_staking_tx v =
     (case Option.bind (jget v ''tx'') (\<lambda>tx. jget tx ''unsignedTx'') of
        None \<Rightarrow> None
      | Some unsigned \<Rightarrow>
          if jget unsigned ''time'' \<noteq> None \<or> jget unsigned ''inputs'' \<noteq> None then None
          else jget_str unsigned ''txID'')"

definition extract_tx_ids :: "crypto \<Rightarrow> json \<Rightarrow> hash32 list" where
  "extract_tx_ids C block =
     List.map_filter (\<lambda>s. res_ok (cb58_decode C s))
       (List.map_filter (\<lambda>tx. jget_str tx ''id'') (block_txs block))"

definition verify :: "serde \<Rightarrow> crypto \<Rightarrow> json \<Rightarrow> json \<Rightarrow> u64 option \<Rightarrow> reject + fetched_block" where
  "verify S C bytes_value json_value expect_height =
     (case as_str bytes_value of
        None \<Rightarrow> Inl Reject_bad_hex
      | Some hex \<Rightarrow>
     (case hexnc_decode C hex of
        Inl _ \<Rightarrow> Inl Reject_bad_hex
      | Inr b \<Rightarrow>
     (let reported_id = (case jget_str json_value ''id'' of None \<Rightarrow> [] | Some i \<Rightarrow> i);
          derived_id = block_id_of C b
      in if reported_id \<noteq> derived_id then Inl Reject_id_mismatch
      else case jget_u64 json_value ''height'' of
        None \<Rightarrow> Inl Reject_no_height
      | Some height \<Rightarrow>
      if (case expect_height of None \<Rightarrow> False | Some want \<Rightarrow> want \<noteq> height) then Inl Reject_height_mismatch
      else case cb58_decode C derived_id of
        Inl e \<Rightarrow> Inl (Reject_bad_id e)
      | Inr i \<Rightarrow>
     (case (to_vec S bytes_value, to_vec S json_value) of
        (Some bytes_json, Some json_text) \<Rightarrow>
          Inr \<lparr>fb_height = height, fb_bytes_json = bytes_json, fb_json = json_text, fb_id = i,
               fb_tx_ids = extract_tx_ids C json_value, fb_timestamp = jget_u64 json_value ''time'',
               fb_kind = block_kind b, fb_reward_staking_tx = reward_staking_tx json_value\<rparr>
      | _ \<Rightarrow> Inl Reject_serialize))))"

definition verify_record :: "serde \<Rightarrow> crypto \<Rightarrow> json \<Rightarrow> json \<Rightarrow> reject + fetched_block" where
  "verify_record S C bytes_value json_value = verify S C bytes_value json_value None"

datatype block_fetch = Blk_parked | Blk_none | Blk fetched_block

definition p_fetch_block :: "serde \<Rightarrow> crypto \<Rightarrow> ingest_cfg \<Rightarrow> upstream \<Rightarrow> u64 \<Rightarrow> block_fetch" where
  "p_fetch_block S C cfg up height =
     (case (fetch_block_encoding cfg up height Enc_Hexnc, fetch_block_encoding cfg up height Enc_Json) of
        (Parked, _) \<Rightarrow> Blk_parked
      | (_, Parked) \<Rightarrow> Blk_parked
      | (Got bv, Got jv) \<Rightarrow> (case verify S C bv jv (Some height) of Inl _ \<Rightarrow> Blk_none | Inr fb \<Rightarrow> Blk fb)
      | _ \<Rightarrow> Blk_none)"

section \<open>Writing and announcing\<close>

definition block_elements :: "fetched_block \<Rightarrow> bytes \<Rightarrow> bytes list" where
  "block_elements fb rewards = [fb_json fb, fb_bytes_json fb, rewards]"

definition store_block ::
  "('s, 'd) engines \<Rightarrow> fetched_block \<Rightarrow> bytes \<Rightarrow> ('s, 'd) storage \<Rightarrow> u64 option \<times> ('s, 'd) storage" where
  "store_block E fb rewards st =
     (case put E (fb_height fb) (fb_id fb) (fb_tx_ids fb) (block_elements fb rewards) st of
        (Inl _, st') \<Rightarrow> (None, st')
      | (Inr _, st') \<Rightarrow> (Some (fb_height fb), st'))"

definition announce :: "serde \<Rightarrow> bool \<Rightarrow> bytes \<Rightarrow> bytes list \<Rightarrow> live_update list \<Rightarrow> live_update list" where
  "announce S listening block_json elements pub =
     (if \<not> listening then pub
      else case from_slice S block_json of
        None \<Rightarrow> pub
      | Some block \<Rightarrow> pub @ [\<lparr>lu_block = block, lu_record = from_slice S (encode elements)\<rparr>])"

record p_run =
  pr_progress :: backfill_progress
  pr_behind_tip :: u64
  pr_published :: "live_update list"

definition emit ::
  "('s, 'd) engines \<Rightarrow> bool \<Rightarrow> instant \<Rightarrow> u64 \<Rightarrow> fetched_block \<Rightarrow> bytes \<Rightarrow> p_run \<Rightarrow> ('s, 'd) storage \<Rightarrow>
     bool \<times> p_run \<times> ('s, 'd) storage" where
  "emit E listening now tip fb rewards run st =
     (case store_block E fb rewards st of
        (None, st') \<Rightarrow> (False, run, st')
      | (Some _, st') \<Rightarrow>
          let behind = tip - fb_height fb;
              run' = run\<lparr>pr_behind_tip := behind,
                pr_progress := snd (snd (observe now (fb_height fb) tip behind (pr_progress run)))\<rparr>
          in (True,
              if fb_height fb \<ge> tip
              then run'\<lparr>pr_published :=
                announce (en_ser E) listening (fb_json fb) (block_elements fb rewards) (pr_published run')\<rparr>
              else run',
              st'))"

section \<open>Reward proposals\<close>

datatype reward_end = Rw_parked | Rw_none | Rw bytes

definition resolve_reward ::
  "serde \<Rightarrow> ingest_cfg \<Rightarrow> upstream \<Rightarrow> fetched_block \<Rightarrow> block_kind_t \<Rightarrow> reward_end" where
  "resolve_reward S cfg up proposal outcome =
     (case fb_reward_staking_tx proposal of
        None \<Rightarrow> Rw_none
      | Some staking_tx \<Rightarrow>
          (case outcome of
             Abort \<Rightarrow> Rw EMPTY_ARRAY
           | Commit \<Rightarrow>
               (case fetch_reward_utxos cfg up staking_tx of
                  Parked \<Rightarrow> Rw_parked
                | Gave_up \<Rightarrow> Rw_none
                | Got utxos \<Rightarrow> (case to_vec S utxos of None \<Rightarrow> Rw_none | Some t \<Rightarrow> Rw t))
           | _ \<Rightarrow> Rw_none))"

section \<open>The ordered fill\<close>

definition FILL_CHUNK :: u64 where
  "FILL_CHUNK = 8192"

text \<open>
  One result taken off the stream: a held proposal is resolved and written first, then the
  block itself is held or written. The middle component is the new hold.
\<close>

definition release_pending ::
  "('s, 'd) engines \<Rightarrow> ingest_cfg \<Rightarrow> upstream \<Rightarrow> bool \<Rightarrow> instant \<Rightarrow> u64 \<Rightarrow> fetched_block option \<Rightarrow> fetched_block \<Rightarrow>
     p_run \<Rightarrow> ('s, 'd) storage \<Rightarrow> fill_end \<times> p_run \<times> ('s, 'd) storage" where
  "release_pending E cfg up listening now tip pending fb run st =
     (case pending of
        None \<Rightarrow> (Fill_done, run, st)
      | Some proposal \<Rightarrow>
          (case resolve_reward (en_ser E) cfg up proposal (fb_kind fb) of
             Rw_parked \<Rightarrow> (Fill_parked, run, st)
           | Rw_none \<Rightarrow> (Fill_cut, run, st)
           | Rw rewards \<Rightarrow>
               (case emit E listening now tip proposal rewards run st of
                  (ok, run', st') \<Rightarrow> (if ok then Fill_done else Fill_cut, run', st'))))"

fun p_fill_loop ::
  "('s, 'd) engines \<Rightarrow> ingest_cfg \<Rightarrow> upstream \<Rightarrow> bool \<Rightarrow> (u64 \<Rightarrow> block_fetch) \<Rightarrow> (u64 \<Rightarrow> instant) \<Rightarrow> u64 \<Rightarrow> u64 list \<Rightarrow>
     fetched_block option \<Rightarrow> p_run \<Rightarrow> ('s, 'd) storage \<Rightarrow> fill_end \<times> p_run \<times> ('s, 'd) storage" where
  "p_fill_loop E cfg up listening results clk tip [] pending run st = (Fill_done, run, st)"
| "p_fill_loop E cfg up listening results clk tip (h # hs) pending run st =
     (case results h of
        Blk_parked \<Rightarrow> (Fill_parked, run, st)
      | Blk_none \<Rightarrow> (Fill_cut, run, st)
      | Blk fb \<Rightarrow>
          (case release_pending E cfg up listening (clk h) tip pending fb run st of
             (Fill_done, run1, st1) \<Rightarrow>
               if fb_reward_staking_tx fb \<noteq> None then
                 p_fill_loop E cfg up listening results clk tip hs (Some fb) run1 st1
               else (case emit E listening (clk h) tip fb EMPTY_ARRAY run1 st1 of
                   (False, run2, st2) \<Rightarrow> (Fill_cut, run2, st2)
                 | (True, run2, st2) \<Rightarrow> p_fill_loop E cfg up listening results clk tip hs None run2 st2)
           | stop \<Rightarrow> stop))"

definition p_fill_range ::
  "('s, 'd) engines \<Rightarrow> crypto \<Rightarrow> ingest_cfg \<Rightarrow> upstream \<Rightarrow> bool \<Rightarrow> (u64 \<Rightarrow> instant) \<Rightarrow> u64 \<Rightarrow> u64 \<Rightarrow> u64 \<Rightarrow>
     p_run \<Rightarrow> ('s, 'd) storage \<Rightarrow> fill_end \<times> p_run \<times> ('s, 'd) storage" where
  "p_fill_range E C cfg up listening clk a b tip run st =
     p_fill_loop E cfg up listening (p_fetch_block (en_ser E) C cfg up) clk tip (heights a b) None run st"

section \<open>One pass of the polling loop\<close>

definition next_height :: "bool \<Rightarrow> u64 \<Rightarrow> ingest_cfg \<Rightarrow> u64 \<Rightarrow> u64" where
  "next_height no_blocks contiguous cfg tip =
     (if no_blocks then (case cfg_backfill_floor cfg of None \<Rightarrow> tip | Some f \<Rightarrow> f) else sat_add contiguous 1)"

record ('s, 'd) p_state =
  ps_storage :: "('s, 'd) storage"
  ps_tip :: u64
  ps_tip_read_at :: "instant option"
  ps_run :: p_run
  ps_backfill_count :: u64

text \<open>How a pass ends: the sleep it takes before the next one (none after a complete run).\<close>

datatype pass_end = Pass_sleep duration | Pass_again | Pass_parked

definition tip_stale :: "ingest_cfg \<Rightarrow> instant \<Rightarrow> instant option \<Rightarrow> bool" where
  "tip_stale cfg now read_at = (case read_at of None \<Rightarrow> True | Some t \<Rightarrow> now - t \<ge> cfg_poll_interval cfg)"

definition p_fill_pass ::
  "('s, 'd) engines \<Rightarrow> crypto \<Rightarrow> ingest_cfg \<Rightarrow> upstream \<Rightarrow> bool \<Rightarrow> instant \<Rightarrow> (u64 \<Rightarrow> instant) \<Rightarrow> ('s, 'd) p_state \<Rightarrow>
     pass_end \<times> ('s, 'd) p_state" where
  "p_fill_pass E C cfg up listening now clk s =
     (let st = ps_storage s; tip = ps_tip s; run = ps_run s;
          contiguous = max_contiguous_height E st;
          nxt = next_height (is_empty st) contiguous cfg tip;
          behind = sat_add (tip - nxt) (if nxt \<le> tip then 1 else 0)
      in if nxt > tip then
           (Pass_sleep (cfg_poll_interval cfg),
            s\<lparr>ps_run := run\<lparr>pr_behind_tip := 0, pr_progress := snd (caught_up now contiguous (pr_progress run))\<rparr>\<rparr>)
         else
           let (started, _, prog) = observe now contiguous tip behind (pr_progress run);
               count = (if started then (ps_backfill_count s + 1) mod 2 ^ 64 else ps_backfill_count s);
               last = min tip (sat_add nxt (FILL_CHUNK - 1));
               (r, run', st') = p_fill_range E C cfg up listening clk nxt last tip
                 (run\<lparr>pr_behind_tip := behind, pr_progress := prog\<rparr>) st
           in (case r of Fill_done \<Rightarrow> Pass_again | Fill_cut \<Rightarrow> Pass_sleep (from_secs 1) | Fill_parked \<Rightarrow> Pass_parked,
               s\<lparr>ps_run := run', ps_storage := st', ps_backfill_count := count\<rparr>))"

definition p_ingest_pass ::
  "('s, 'd) engines \<Rightarrow> crypto \<Rightarrow> ingest_cfg \<Rightarrow> upstream \<Rightarrow> bool \<Rightarrow> instant \<Rightarrow> (u64 \<Rightarrow> instant) \<Rightarrow> ('s, 'd) p_state \<Rightarrow>
     pass_end \<times> ('s, 'd) p_state" where
  "p_ingest_pass E C cfg up listening now clk s =
     (if tip_stale cfg now (ps_tip_read_at s) then
        (case fetch_height cfg up of
           Tip_parked \<Rightarrow> (Pass_parked, s)
         | Tip_unknown \<Rightarrow> (Pass_sleep (cfg_poll_interval cfg), s\<lparr>ps_tip_read_at := Some now\<rparr>)
         | Tip h \<Rightarrow> p_fill_pass E C cfg up listening now clk (s\<lparr>ps_tip_read_at := Some now, ps_tip := h\<rparr>))
      else p_fill_pass E C cfg up listening now clk s)"

section \<open>Lemmas\<close>

context crypto_laws
begin

lemma verify_iff:
  "verify S C bv jv want = Inr fb \<longleftrightarrow>
     (\<exists>hex b. bv = JStr hex \<and> hexnc_decode C hex = Inr b \<and> jget_str jv ''id'' = Some (block_id_of C b) \<and>
        jget_u64 jv ''height'' = Some (fb_height fb) \<and> want \<in> {None, Some (fb_height fb)} \<and>
        to_vec S bv = Some (fb_bytes_json fb) \<and> to_vec S jv = Some (fb_json fb) \<and>
        fb_id fb = sha256 C b \<and> fb_kind fb = block_kind b \<and> fb_tx_ids fb = extract_tx_ids C jv \<and>
        fb_timestamp fb = jget_u64 jv ''time'' \<and> fb_reward_staking_tx fb = reward_staking_tx jv)"
  (is "?L \<longleftrightarrow> ?R")
proof -
  have ne: "[] \<noteq> block_id_of C b" for b using block_id_nonempty [of b] by simp
  show ?thesis
    by (cases bv; cases fb)
      (auto simp: verify_def Let_def block_id_decodes ne split: option.splits sum.splits)
qed

end

lemma p_fetch_block_height: "p_fetch_block S C cfg up h = Blk fb \<Longrightarrow> fb_height fb = h"
  by (auto simp: p_fetch_block_def verify_def Let_def split: rpc_fetch.splits sum.splits option.splits if_splits)

subsection \<open>What a run writes\<close>

text \<open>
  What a decided proposal minted: nothing when it was aborted, the reward outputs of its staking
  transaction when it was committed. A block that is neither decides nothing.
\<close>

definition minted :: "serde \<Rightarrow> ingest_cfg \<Rightarrow> upstream \<Rightarrow> string \<Rightarrow> block_kind_t \<Rightarrow> bytes option" where
  "minted S cfg up staking_tx decision =
     (if decision = Abort then Some EMPTY_ARRAY
      else if decision = Commit then
        (case fetch_reward_utxos cfg up staking_tx of Got utxos \<Rightarrow> to_vec S utxos | _ \<Rightarrow> None)
      else None)"

text \<open>
  The record the fetches of a run determine for a height: the two halves of the block, and as
  rewards element the empty array, unless the block is a reward proposal; then it is what the
  decision at the next height minted, and there is no record while nothing decided it.
\<close>

definition settled ::
  "serde \<Rightarrow> ingest_cfg \<Rightarrow> upstream \<Rightarrow> (u64 \<Rightarrow> block_fetch) \<Rightarrow> u64 \<Rightarrow> bytes option" where
  "settled S cfg up results h =
     (case results h of
        Blk fb \<Rightarrow>
          (case fb_reward_staking_tx fb of
             None \<Rightarrow> Some (encode (block_elements fb EMPTY_ARRAY))
           | Some staking_tx \<Rightarrow>
               (case results (Suc h) of
                  Blk nx \<Rightarrow>
                    map_option (\<lambda>rewards. encode (block_elements fb rewards)) (minted S cfg up staking_tx (fb_kind nx))
                | _ \<Rightarrow> None))
      | _ \<Rightarrow> None)"

text \<open>\<open>resolve_reward\<close> finds exactly what was minted.\<close>

lemma resolve_reward_minted:
  assumes "fb_reward_staking_tx p = Some staking_tx"
  shows "resolve_reward S cfg up p k = Rw rewards \<longleftrightarrow> minted S cfg up staking_tx k = Some rewards"
  using assms by (cases k) (auto simp: resolve_reward_def minted_def split: rpc_fetch.splits option.splits)

lemma settled_proposal:
  assumes "results h = Blk p" "results (Suc h) = Blk nx" "fb_reward_staking_tx p \<noteq> None"
  shows "settled S cfg up results h = Some t \<longleftrightarrow>
    (\<exists>rewards. resolve_reward S cfg up p (fb_kind nx) = Rw rewards \<and> t = encode (block_elements p rewards))"
proof -
  obtain tx where "fb_reward_staking_tx p = Some tx" using assms(3) by blast
  with assms(1,2) resolve_reward_minted [OF this] show ?thesis by (auto simp: settled_def)
qed

text \<open>
  From \<open>m\<close> to \<open>m'\<close> the heights from \<open>lo\<close> below \<open>k\<close> were written as determined, nothing outside
  \<open>lo\<close> up to \<open>hi\<close> changed, and what was published on the way are records written at or above
  the tip.
\<close>

definition wrote ::
  "serde \<Rightarrow> (u64 \<Rightarrow> bytes option) \<Rightarrow> u64 \<Rightarrow> u64 \<Rightarrow> u64 \<Rightarrow> u64 \<Rightarrow> (u64 \<rightharpoonup> bytes) \<Rightarrow> (u64 \<rightharpoonup> bytes) \<Rightarrow>
     live_update list \<Rightarrow> live_update list \<Rightarrow> bool" where
  "wrote S rec tip lo k hi m m' pub pub' \<longleftrightarrow>
     lo \<le> k \<and> k \<le> hi \<and> hi \<le> Suc k \<and>
     (\<forall>h. lo \<le> h \<and> h < k \<longrightarrow> rec h \<noteq> None \<and> m' h = rec h) \<and>
     (\<forall>h. m' h = m h \<or> lo \<le> h \<and> h < hi \<and> rec h \<noteq> None \<and> m' h = rec h) \<and>
     (\<exists>new. pub' = pub @ new \<and>
        (\<forall>u \<in> set new. \<exists>h t. lo \<le> h \<and> h < k \<and> tip \<le> h \<and> rec h = Some t \<and> lu_record u = from_slice S t))"

lemma wrote_refl: "wrote S rec tip lo lo lo m m pub pub"
  by (auto simp: wrote_def)

lemma wrote_trans:
  assumes "wrote S rec tip lo j j m m' pub pub'" "wrote S rec tip j k hi m' m'' pub' pub''"
  shows "wrote S rec tip lo k hi m m'' pub pub''"
proof -
  have "rec h \<noteq> None \<and> m'' h = rec h" if "lo \<le> h" "h < k" for h
    using assms that unfolding wrote_def by (cases "h < j") (metis linorder_not_less)+
  moreover have "m'' h = m h \<or> lo \<le> h \<and> h < hi \<and> rec h \<noteq> None \<and> m'' h = rec h" for h
    using assms unfolding wrote_def by (metis order_trans order_less_le_trans)
  moreover have "\<exists>new. pub'' = pub @ new \<and>
      (\<forall>u \<in> set new. \<exists>h t. lo \<le> h \<and> h < k \<and> tip \<le> h \<and> rec h = Some t \<and> lu_record u = from_slice S t)"
  proof -
    obtain xs ys where e: "pub' = pub @ xs" "pub'' = pub' @ ys"
      and x: "\<forall>u \<in> set xs. \<exists>h t. lo \<le> h \<and> h < j \<and> tip \<le> h \<and> rec h = Some t \<and> lu_record u = from_slice S t"
      and y: "\<forall>u \<in> set ys. \<exists>h t. j \<le> h \<and> h < k \<and> tip \<le> h \<and> rec h = Some t \<and> lu_record u = from_slice S t"
      and b: "lo \<le> j" "j \<le> k"
      using assms unfolding wrote_def by blast
    have "\<exists>h t. lo \<le> h \<and> h < k \<and> tip \<le> h \<and> rec h = Some t \<and> lu_record u = from_slice S t"
      if u: "u \<in> set xs \<union> set ys" for u
    proof (cases "u \<in> set xs")
      case True
      with x b(2) show ?thesis by (meson order_less_le_trans)
    next
      case False
      with u y b(1) show ?thesis by (meson UnE order_trans)
    qed
    with e show ?thesis by auto
  qed
  ultimately show ?thesis using assms unfolding wrote_def by auto
qed

lemma wrote_one:
  assumes "rec h = Some t" "m' = m(h \<mapsto> t)"
    and "pub' = pub \<or> tip \<le> h \<and> (\<exists>b. pub' = pub @ [\<lparr>lu_block = b, lu_record = from_slice S t\<rparr>])"
  shows "wrote S rec tip h (Suc h) (Suc h) m m' pub pub'"
proof -
  have "\<exists>new. pub' = pub @ new \<and>
      (\<forall>u \<in> set new. \<exists>k r. h \<le> k \<and> k < Suc h \<and> tip \<le> k \<and> rec k = Some r \<and> lu_record u = from_slice S r)"
    using assms(3)
  proof
    assume "tip \<le> h \<and> (\<exists>b. pub' = pub @ [\<lparr>lu_block = b, lu_record = from_slice S t\<rparr>])"
    then obtain b where "tip \<le> h" "pub' = pub @ [\<lparr>lu_block = b, lu_record = from_slice S t\<rparr>]" by blast
    with assms(1) show ?thesis
      by (intro exI [of _ "[\<lparr>lu_block = b, lu_record = from_slice S t\<rparr>]"] conjI) (auto intro!: exI [of _ h])
  qed simp
  moreover have "h \<le> k \<and> k < Suc h \<longleftrightarrow> k = h" for k by auto
  ultimately show ?thesis using assms(1,2) by (simp add: wrote_def)
qed

text \<open>The hold of the loop at height \<open>a\<close>, and the first height still to be written.\<close>

definition held :: "(u64 \<Rightarrow> block_fetch) \<Rightarrow> u64 \<Rightarrow> fetched_block option \<Rightarrow> bool" where
  "held results a pending \<longleftrightarrow>
     (case pending of
        None \<Rightarrow> True
      | Some p \<Rightarrow> 0 < a \<and> results (a - 1) = Blk p \<and> fb_reward_staking_tx p \<noteq> None)"

definition first_open :: "u64 \<Rightarrow> 'a option \<Rightarrow> u64" where
  "first_open a pending = (case pending of None \<Rightarrow> a | Some _ \<Rightarrow> a - 1)"

text \<open>One turn of the loop, by the way it ends.\<close>

lemma p_fill_loop_ConsE:
  assumes "p_fill_loop E cfg up listening results clk tip (h # hs) pending run st = (r, run', st')"
  obtains
    (missing) "results h \<in> {Blk_parked, Blk_none}" "r \<noteq> Fill_done" "run' = run" "st' = st"
  | (unreleased) fb where "results h = Blk fb"
      "release_pending E cfg up listening (clk h) tip pending fb run st = (r, run', st')" "r \<noteq> Fill_done"
  | (hold) fb run1 st1 where "results h = Blk fb"
      "release_pending E cfg up listening (clk h) tip pending fb run st = (Fill_done, run1, st1)"
      "fb_reward_staking_tx fb \<noteq> None"
      "p_fill_loop E cfg up listening results clk tip hs (Some fb) run1 st1 = (r, run', st')"
  | (cut) fb run1 st1 where "results h = Blk fb"
      "release_pending E cfg up listening (clk h) tip pending fb run st = (Fill_done, run1, st1)"
      "fb_reward_staking_tx fb = None"
      "emit E listening (clk h) tip fb EMPTY_ARRAY run1 st1 = (False, run', st')" "r = Fill_cut"
  | (emitted) fb run1 st1 run2 st2 where "results h = Blk fb"
      "release_pending E cfg up listening (clk h) tip pending fb run st = (Fill_done, run1, st1)"
      "fb_reward_staking_tx fb = None"
      "emit E listening (clk h) tip fb EMPTY_ARRAY run1 st1 = (True, run2, st2)"
      "p_fill_loop E cfg up listening results clk tip hs None run2 st2 = (r, run', st')"
  using assms
  by (auto split: block_fetch.splits prod.splits fill_end.splits if_splits bool.splits
      intro: missing unreleased hold cut emitted)

context storage_engine
begin

lemma emit_wrote:
  assumes "storage_wf wf st" "emit E listening now tip fb rewards run st = (ok, run', st')"
    and "rec (fb_height fb) = Some (encode (block_elements fb rewards))"
  shows "storage_wf wf st'"
    and "wrote (en_ser E) rec tip (fb_height fb) (if ok then Suc (fb_height fb) else fb_height fb)
      (Suc (fb_height fb)) (stored content st) (stored content st') (pr_published run) (pr_published run')"
proof -
  let ?h = "fb_height fb" and ?es = "block_elements fb rewards"
  obtain q s where p: "put E ?h (fb_id fb) (fb_tx_ids fb) ?es st = (q, s)"
    by (cases "put E ?h (fb_id fb) (fb_tx_ids fb) ?es st")
  note P = put_outcome [OF assms(1) p]
  have s: "st' = s" using assms(2) p by (cases q) (auto simp: emit_def store_block_def Let_def)
  then show "storage_wf wf st'" using P by blast
  have frame: "stored content s = stored content st \<or> stored content s = (stored content st)(?h \<mapsto> encode ?es)"
    using P by (cases q) (auto split: storage_error.splits)
  show "wrote (en_ser E) rec tip ?h (if ok then Suc ?h else ?h) (Suc ?h)
      (stored content st) (stored content st') (pr_published run) (pr_published run')"
  proof (cases q)
    case (Inl e)
    then have "ok = False" "run' = run" using assms(2) p by (auto simp: emit_def store_block_def)
    with frame s assms(3) show ?thesis by (auto simp: wrote_def split: if_splits)
  next
    case (Inr u)
    then have ok: "ok" and st: "stored content st' = (stored content st)(?h \<mapsto> encode ?es)"
      using assms(2) p P s by (auto simp: emit_def store_block_def Let_def)
    have pub: "pr_published run' = pr_published run \<or> tip \<le> ?h \<and>
        (\<exists>b. pr_published run' = pr_published run @ [\<lparr>lu_block = b, lu_record = from_slice (en_ser E) (encode ?es)\<rparr>])"
      using assms(2) p Inr
      by (auto simp: emit_def store_block_def announce_def Let_def split: if_splits option.splits)
    from wrote_one [where rec = rec, OF assms(3) st pub] ok show ?thesis by simp
  qed
qed

lemma release_wrote:
  assumes "storage_wf wf st" "release_pending E cfg up listening now tip pending fb run st = (r, run', st')"
    and "held results a pending" "results a = Blk fb" "\<And>h b. results h = Blk b \<Longrightarrow> fb_height b = h"
  shows "storage_wf wf st' \<and>
    (\<exists>hi \<le> a. wrote (en_ser E) (settled (en_ser E) cfg up results) tip (first_open a pending)
       (if r = Fill_done then a else first_open a pending) hi
       (stored content st) (stored content st') (pr_published run) (pr_published run'))"
proof (cases pending)
  case None
  with assms(1,2) show ?thesis
    by (auto simp: release_pending_def first_open_def intro!: wrote_refl exI [of _ a])
next
  case (Some p)
  with assms(3) have a: "0 < a" "results (a - 1) = Blk p" "fb_reward_staking_tx p \<noteq> None"
    by (auto simp: held_def)
  then have hp: "fb_height p = a - 1" "Suc (a - 1) = a" using assms(5) by auto
  show ?thesis
  proof (cases "resolve_reward (en_ser E) cfg up p (fb_kind fb)")
    case (Rw rewards)
    obtain ok run1 st1 where e: "emit E listening now tip p rewards run st = (ok, run1, st1)"
      by (cases "emit E listening now tip p rewards run st") auto
    have "settled (en_ser E) cfg up results (fb_height p) = Some (encode (block_elements p rewards))"
      using settled_proposal [of results "a - 1" p fb] a hp assms(4) Rw by simp
    from emit_wrote [where rec = "settled (en_ser E) cfg up results", OF assms(1) e this] hp Some Rw e assms(2)
    show ?thesis by (auto simp: release_pending_def first_open_def split: if_splits)
  qed (use assms(1,2) Some hp in \<open>auto simp: release_pending_def first_open_def
      intro!: wrote_refl exI [of _ "a - 1"]\<close>)
qed

text \<open>A turn that releases the hold, and one that also writes its own block.\<close>

lemma released_wrote:
  assumes "storage_wf wf st" "held results a pending" "\<And>h b. results h = Blk b \<Longrightarrow> fb_height b = h" "results a = Blk fb"
    and "release_pending E cfg up listening now tip pending fb run st = (Fill_done, run1, st1)"
  shows "storage_wf wf st1"
    and "wrote (en_ser E) (settled (en_ser E) cfg up results) tip (first_open a pending) a a
      (stored content st) (stored content st1) (pr_published run) (pr_published run1)"
  using release_wrote [where results = results, OF assms(1,5,2,4,3)] by (auto simp: wrote_def)

lemma emitted_wrote:
  assumes "storage_wf wf st" "held results a pending" "\<And>h b. results h = Blk b \<Longrightarrow> fb_height b = h" "results a = Blk fb"
    and "release_pending E cfg up listening now tip pending fb run st = (Fill_done, run1, st1)"
    and "fb_reward_staking_tx fb = None" "emit E listening now tip fb EMPTY_ARRAY run1 st1 = (ok, run2, st2)"
  shows "storage_wf wf st2"
    and "wrote (en_ser E) (settled (en_ser E) cfg up results) tip (first_open a pending) (if ok then Suc a else a) (Suc a)
      (stored content st) (stored content st2) (pr_published run) (pr_published run2)"
proof -
  let ?rec = "settled (en_ser E) cfg up results"
  have h: "fb_height fb = a" using assms(3,4) .
  then have "?rec (fb_height fb) = Some (encode (block_elements fb EMPTY_ARRAY))"
    using assms(4,6) by (simp add: settled_def)
  note M = emit_wrote [where rec = ?rec, OF released_wrote(1) [OF assms(1-5)] assms(7) this, unfolded h]
  show "storage_wf wf st2" by (rule M(1))
  show "wrote (en_ser E) ?rec tip (first_open a pending) (if ok then Suc a else a) (Suc a)
      (stored content st) (stored content st2) (pr_published run) (pr_published run2)"
    by (rule wrote_trans [OF released_wrote(2) [OF assms(1-5)] M(2)])
qed

lemma p_fill_loop_wrote:
  assumes "\<And>h b. results h = Blk b \<Longrightarrow> fb_height b = h"
    and "storage_wf wf st" "held results a pending"
    and "p_fill_loop E cfg up listening results clk tip [a..<a + n] pending run st = (r, run', st')"
  shows "storage_wf wf st' \<and>
    (\<exists>k hi. hi \<le> a + n \<and>
       wrote (en_ser E) (settled (en_ser E) cfg up results) tip (first_open a pending) k hi
         (stored content st) (stored content st') (pr_published run) (pr_published run') \<and>
       (r = Fill_done \<longrightarrow> k = hi \<and> (k = a + n \<or>
          Suc k = a + n \<and> (\<exists>p. results k = Blk p \<and> fb_reward_staking_tx p \<noteq> None))))"
  using assms(2-)
proof (induction n arbitrary: a pending run st)
  case 0
  then have e: "st' = st" "run' = run" by auto
  show ?case
    using 0 e by (intro conjI exI [of _ "first_open a pending"])
      (auto simp: first_open_def held_def split: option.splits intro: wrote_refl)
next
  case (Suc n)
  let ?rec = "settled (en_ser E) cfg up results" and ?lo = "first_open a pending"
  have lo: "?lo \<le> a" by (simp add: first_open_def split: option.splits)
  have hs: "[a..<a + Suc n] = a # [Suc a..<Suc a + n]" by (simp add: upt_rec)
  have go: ?case
    if w: "storage_wf wf s" and h: "held results (Suc a) pend"
      and l: "p_fill_loop E cfg up listening results clk tip [Suc a..<Suc a + n] pend rn s = (r, run', st')"
      and W: "wrote (en_ser E) ?rec tip ?lo (first_open (Suc a) pend) (first_open (Suc a) pend)
         (stored content st) (stored content s) (pr_published run) (pr_published rn)" for pend rn s
  proof -
    from Suc.IH [OF w h l] obtain k hi where K: "storage_wf wf st'" "hi \<le> Suc a + n"
      "wrote (en_ser E) ?rec tip (first_open (Suc a) pend) k hi
         (stored content s) (stored content st') (pr_published rn) (pr_published run')"
      "r = Fill_done \<longrightarrow> k = hi \<and> (k = Suc a + n \<or>
          Suc k = Suc a + n \<and> (\<exists>p. results k = Blk p \<and> fb_reward_staking_tx p \<noteq> None))"
      by blast
    from K(1,2,4) wrote_trans [OF W K(3)] show ?thesis
      by (intro conjI, simp) (rule exI [of _ k], rule exI [of _ hi], auto)
  qed
  from Suc.prems(3) [unfolded hs] show ?case
  proof (cases rule: p_fill_loop_ConsE)
    case missing
    with Suc.prems(1) lo show ?thesis by (auto intro!: wrote_refl exI [of _ ?lo])
  next
    case (unreleased fb)
    from release_wrote [where results = results, OF Suc.prems(1) unreleased(2) Suc.prems(2) unreleased(1) assms(1)]
    obtain hi where "storage_wf wf st'" "hi \<le> a" "wrote (en_ser E) ?rec tip ?lo ?lo hi
        (stored content st) (stored content st') (pr_published run) (pr_published run')"
      using unreleased(3) by auto
    with unreleased(3) show ?thesis by (intro conjI exI [of _ ?lo] exI [of _ hi]) auto
  next
    case (hold fb run1 st1)
    note R = released_wrote [where results = results, OF Suc.prems(1,2) assms(1) hold(1,2)]
    from go [OF R(1) _ hold(4)] hold(1,3) R(2) show ?thesis by (simp add: held_def first_open_def)
  next
    case (cut fb run1 st1)
    note W = emitted_wrote [where results = results, OF Suc.prems(1,2) assms(1) cut(1-4)]
    with cut(5) show ?thesis by (intro conjI exI [of _ a] exI [of _ "Suc a"]) auto
  next
    case (emitted fb run1 st1 run2 st2)
    note W = emitted_wrote [where results = results, OF Suc.prems(1,2) assms(1) emitted(1-4)]
    from go [OF W(1) _ emitted(5)] W(2) show ?thesis by (simp add: held_def first_open_def)
  qed
qed

lemma p_fill_range_wrote:
  assumes "storage_wf wf st" "a \<le> Suc b"
    and "p_fill_range E C cfg up listening clk a b tip run st = (r, run', st')"
  shows "storage_wf wf st' \<and>
    (\<exists>k hi. hi \<le> Suc b \<and>
       wrote (en_ser E) (settled (en_ser E) cfg up (p_fetch_block (en_ser E) C cfg up)) tip a k hi
         (stored content st) (stored content st') (pr_published run) (pr_published run') \<and>
       (r = Fill_done \<longrightarrow> k = hi \<and> (k = Suc b \<or>
          k = b \<and> (\<exists>p. p_fetch_block (en_ser E) C cfg up b = Blk p \<and> fb_reward_staking_tx p \<noteq> None))))"
proof -
  have hs: "heights a b = [a..<a + (Suc b - a)]" and n: "a + (Suc b - a) = Suc b"
    using assms(2) by (simp_all add: heights_def)
  have held: "held results a None" for results by (simp add: held_def)
  have lo: "first_open a (None :: fetched_block option) = a" by (simp add: first_open_def)
  have "fb_height fb = h" if "p_fetch_block (en_ser E) C cfg up h = Blk fb" for h fb
    using p_fetch_block_height [OF that] .
  from p_fill_loop_wrote [OF this assms(1) held assms(3) [unfolded p_fill_range_def hs], unfolded n lo]
  show ?thesis by (metis Suc_inject)
qed

end

section \<open>A reference chain\<close>

text \<open>
  A two-block chain for the concrete instances: a reward proposal at height 7 and the commit
  that resolves it at height 8, served by an upstream that knows both.
\<close>

definition ref_p_raw :: "u64 \<Rightarrow> bytes" where
  "ref_p_raw h = map char_of [0, 0, 0, 0, 0, if h = 7 then 0 else 2 :: nat]"

definition ref_p_json :: "u64 \<Rightarrow> json" where
  "ref_p_json h =
     JObj ([(''id'', JStr (block_id_of ref_crypto (ref_p_raw h))), (''height'', JNum (PosInt h))] @
       (if h = 7 then [(''tx'', JObj [(''unsignedTx'', JObj [(''txID'', JStr ''stake'')])])] else []))"

definition ref_p_hex :: "u64 \<Rightarrow> json" where
  "ref_p_hex h = JStr (''0x'' @ ref_hex_encode (ref_p_raw h))"

definition ref_utxos :: json where
  "ref_utxos = JArr [JStr ''utxo'']"

definition ref_p_up :: upstream where
  "ref_p_up req attempt =
     Net_reply 200 None (Some (JObj [(''result'',
       if jget_str req ''method'' = Some ''platform.getRewardUTXOs'' then JObj [(''utxos'', ref_utxos)]
       else JObj [(''block'',
         let h = (case jpointer req [''params'', ''height''] of Some (JNum (PosInt n)) \<Rightarrow> n | _ \<Rightarrow> 0)
         in if jpointer req [''params'', ''encoding''] = Some (JStr ''json'') then ref_p_json h else ref_p_hex h)])]))"

definition ref_fb :: "u64 \<Rightarrow> fetched_block" where
  "ref_fb h = \<lparr>fb_height = h, fb_bytes_json = print_json (ref_p_hex h), fb_json = print_json (ref_p_json h),
     fb_id = sha256 ref_crypto (ref_p_raw h), fb_tx_ids = [], fb_timestamp = None,
     fb_kind = (if h = 7 then Proposal else Commit),
     fb_reward_staking_tx = (if h = 7 then Some ''stake'' else None)\<rparr>"

lemma plain_ref_p: "h \<le> u64_max \<Longrightarrow> plain (ref_p_json h)" "plain (ref_p_hex h)" "plain ref_utxos"
  by (simp_all add: ref_p_json_def ref_p_hex_def ref_utxos_def)

lemma verify_ref:
  assumes "h \<le> u64_max"
  shows "verify ref_serde ref_crypto (ref_p_hex h) (ref_p_json h) (Some h) = Inr (ref_fb h)"
proof -
  have hex: "hexnc_decode ref_crypto (''0x'' @ ref_hex_encode (ref_p_raw h)) = Inr (ref_p_raw h)"
    using ref_cr.hexnc_round_trip [of "ref_p_raw h"] by (simp add: ref_crypto_def)
  have kind: "block_kind (ref_p_raw h) = (if h = 7 then Proposal else Commit)"
    by (simp add: block_kind_def ref_p_raw_def TYPE_ID_OFFSET_def span_in_def slice_of_def from_be_bytes_def Let_def)
  have "extract_tx_ids ref_crypto (ref_p_json h) = []"
    by (simp add: extract_tx_ids_def block_txs_def ref_p_json_def jget_arr_def jget_str_def List.map_filter_simps)
  moreover have "reward_staking_tx (ref_p_json h) = (if h = 7 then Some ''stake'' else None)"
    by (simp add: reward_staking_tx_def ref_p_json_def jget_str_def)
  ultimately show ?thesis
    using hex kind plain_ref_p(1) [OF assms] plain_ref_p(2) [of h]
    by (auto simp: ref_cr.verify_iff ref_fb_def ref_p_json_def [of h] ref_p_hex_def jget_str_def jget_u64_def
        ref_serde_def ref_to_vec_def)
qed

lemma fetch_ref: "h \<le> u64_max \<Longrightarrow> p_fetch_block ref_serde ref_crypto ref_cfg ref_p_up h = Blk (ref_fb h)"
  by (simp add: p_fetch_block_def fetch_block_encoding_def p_fetch_rpc_def P_RPC_MAX_ATTEMPTS_def numeral_3_eq_3
      ref_p_up_def rpc_body_def jget_str_def is_throttled_def rpc_result_def verify_ref)

lemma mem_put_next:
  assumes "length es = arity (st_chain st)" "st_store st = Some s" "ms_min s \<le> h"
  shows "\<exists>st'. put mem_engines h hash txs es st = (Inr (), st') \<and> st_chain st' = st_chain st"
  using assms by (simp add: put_def put_record_def put_index_def and_step_def mem_engines_def mem_blockstore_def mem_fjall_def)

lemma mem_put_first_floor:
  "length es = arity c \<Longrightarrow>
     \<exists>s. st_store (mem_put h hash txs es (mem_fresh c)) = Some s \<and> ms_min s = h \<and>
       st_chain (mem_put h hash txs es (mem_fresh c)) = c"
  by (simp add: mem_put_def put_def put_record_def put_index_def and_step_def mem_engines_def
      mem_blockstore_def mem_fjall_def mem_fresh_def put_floor_def)

lemma emit_ok:
  assumes "put E (fb_height fb) (fb_id fb) (fb_tx_ids fb) (block_elements fb rewards) st = (Inr (), st')"
  shows "\<exists>run'. emit E listening now tip fb rewards run st = (True, run', st') \<and>
    pr_published run' = (if fb_height fb \<ge> tip
      then announce (en_ser E) listening (fb_json fb) (block_elements fb rewards) (pr_published run)
      else pr_published run)"
  using assms by (simp add: emit_def store_block_def Let_def)

lemma ref_rewards: "resolve_reward ref_serde ref_cfg ref_p_up (ref_fb 7) Commit = Rw (print_json ref_utxos)"
  using plain_ref_p(3)
  by (simp add: resolve_reward_def ref_fb_def fetch_reward_utxos_def p_fetch_rpc_def P_RPC_MAX_ATTEMPTS_def
      numeral_3_eq_3 ref_p_up_def rpc_body_def jget_str_def is_throttled_def rpc_result_def ref_serde_def ref_to_vec_def)

definition ref_run :: p_run where
  "ref_run = \<lparr>pr_progress = progress_new Chain_P 0, pr_behind_tip = 0, pr_published = []\<rparr>"

lemma ref_fill:
  "\<exists>run' st'. p_fill_range mem_engines ref_crypto ref_cfg ref_p_up True (\<lambda>_. 0) 7 8 8 ref_run (mem_fresh Chain_P) =
     (Fill_done, run', st') \<and> pr_published run' \<noteq> []"
proof -
  have hs: "heights 7 8 = [7, 8]" by (simp add: heights_def upt_rec)
  have ser: "en_ser mem_engines = ref_serde" by (simp add: mem_engines_def)
  have small: "7 \<le> u64_max" "8 \<le> u64_max" by (simp_all add: u64_max_def)
  have fb: "fb_reward_staking_tx (ref_fb 7) = Some ''stake''" "fb_kind (ref_fb 8) = Commit"
    "fb_reward_staking_tx (ref_fb 8) = None" "fb_height (ref_fb 7) = 7" "fb_height (ref_fb 8) = 8"
    "fb_json (ref_fb 8) = print_json (ref_p_json 8)"
    by (simp_all add: ref_fb_def)
  let ?es = "block_elements (ref_fb 7) (print_json ref_utxos)"
  define s7 where "s7 = mem_put 7 (fb_id (ref_fb 7)) (fb_tx_ids (ref_fb 7)) ?es (mem_fresh Chain_P)"
  have len: "length (block_elements x y) = arity Chain_P" for x y by (simp add: block_elements_def)
  obtain run7 where e7: "emit mem_engines True 0 8 (ref_fb 7) (print_json ref_utxos) ref_run (mem_fresh Chain_P) = (True, run7, s7)"
    using emit_ok mem_put_first [OF len] fb unfolding s7_def by metis
  obtain s where s: "st_store s7 = Some s" "ms_min s = 7" "st_chain s7 = Chain_P"
    using mem_put_first_floor [OF len] unfolding s7_def by metis
  then obtain s8 where p8: "put mem_engines 8 (fb_id (ref_fb 8)) (fb_tx_ids (ref_fb 8)) (block_elements (ref_fb 8) EMPTY_ARRAY) s7 = (Inr (), s8)"
    using mem_put_next [of "block_elements (ref_fb 8) EMPTY_ARRAY" s7 s 8 "fb_id (ref_fb 8)" "fb_tx_ids (ref_fb 8)"] len
    by auto
  then obtain run8 where e8: "emit mem_engines True 0 8 (ref_fb 8) EMPTY_ARRAY run7 s7 = (True, run8, s8)"
    "pr_published run8 = announce ref_serde True (print_json (ref_p_json 8)) (block_elements (ref_fb 8) EMPTY_ARRAY) (pr_published run7)"
    using emit_ok [of mem_engines "ref_fb 8" EMPTY_ARRAY s7 s8 True 0 8 run7] fb ser by auto
  have "to_vec ref_serde (ref_p_json 8) = Some (print_json (ref_p_json 8))"
    using plain_ref_p(1) [OF small(2)] by (simp add: ref_serde_def ref_to_vec_def)
  then have "from_slice ref_serde (print_json (ref_p_json 8)) = Some (ref_p_json 8)"
    using ref.parse_print plain_ref_p(1) [OF small(2)] by blast
  then have "pr_published run8 \<noteq> []" using e8(2) by (simp add: announce_def)
  then show ?thesis
    using fetch_ref [OF small(1)] fetch_ref [OF small(2)] fb e7 e8(1) ref_rewards
    by (simp add: p_fill_range_def hs ser release_pending_def)
qed

section \<open>Guarantees\<close>

text \<open>
  C19. The cross-check accepts exactly consistent records. A record passes when, and only when,
  its bytes are a hex string whose hash, in CB58, is the identifier its JSON reports, the JSON
  has a height and it is the one asked for (if one was), and both halves serialise; what is
  kept is then the identifier, height, kind and transactions of those very bytes and that
  JSON. In particular the identifier derived from the bytes always decodes.
\<close>

theorem verify_exact:
  assumes "crypto_laws C"
  shows "verify S C bv jv want = Inr fb \<longleftrightarrow>
     (\<exists>hex b. bv = JStr hex \<and> hexnc_decode C hex = Inr b \<and> jget_str jv ''id'' = Some (block_id_of C b) \<and>
        jget_u64 jv ''height'' = Some (fb_height fb) \<and> want \<in> {None, Some (fb_height fb)} \<and>
        to_vec S bv = Some (fb_bytes_json fb) \<and> to_vec S jv = Some (fb_json fb) \<and>
        fb_id fb = sha256 C b \<and> fb_kind fb = block_kind b \<and> fb_tx_ids fb = extract_tx_ids C jv \<and>
        fb_timestamp fb = jget_u64 jv ''time'' \<and> fb_reward_staking_tx fb = reward_staking_tx jv)"
  by (rule crypto_laws.verify_iff [OF assms])

theorem verify_exact_witness:
  "verify ref_serde ref_crypto (ref_p_hex 8) (ref_p_json 8) (Some 8) = Inr (ref_fb 8) \<and>
   fb_id (ref_fb 8) = sha256 ref_crypto (ref_p_raw 8) \<and>
   verify ref_serde ref_crypto (ref_p_hex 7) (ref_p_json 8) (Some 8) \<noteq> Inr (ref_fb 8)"
proof -
  have bad: "hexnc_decode ref_crypto (''0x'' @ ref_hex_encode (ref_p_raw 7)) = Inr (ref_p_raw 7)"
    using ref_cr.hexnc_round_trip [of "ref_p_raw 7"] by (simp add: ref_crypto_def)
  have "sha256 ref_crypto (ref_p_raw 7) \<noteq> sha256 ref_crypto (ref_p_raw 8)"
    by (simp add: sha256_def ref_crypto_def ref_digest_def ref_p_raw_def)
  with verify_exact [OF ref_cr.crypto_laws_axioms, of ref_serde "ref_p_hex 7" "ref_p_json 8" "Some 8" "ref_fb 8"] bad
  show ?thesis using verify_ref [of 8] by (auto simp: u64_max_def ref_fb_def ref_p_hex_def)
qed

text \<open>
  C4. A P-chain run writes what its fetches determine and nothing else. The run stores the
  heights from its start in order; each carries the record its own fetches determine. A reward
  proposal is written only once the next height decided it, and with what that decision minted: with
  the reward outputs fetched for its staking transaction after a commit, with none after an abort,
  and not at all when the next block is neither. Nothing outside the range or beyond the height where it stopped changes; and a run that completes
  stored the whole range, except possibly a last height that is a reward proposal, which is
  left unwritten.
\<close>

theorem p_fill_run_settled:
  assumes "storage_engine E content ok view" "storage_wf ok st" "a \<le> Suc b"
    and "p_fill_range E C cfg up listening clk a b tip run st = (r, run', st')"
  shows "let fetch = p_fetch_block (en_ser E) C cfg up; rec = settled (en_ser E) cfg up fetch in
    storage_wf ok st' \<and>
    (\<exists>k hi. a \<le> k \<and> k \<le> hi \<and> hi \<le> Suc k \<and> hi \<le> Suc b \<and>
       (\<forall>h. a \<le> h \<and> h < k \<longrightarrow> rec h \<noteq> None \<and> stored content st' h = rec h) \<and>
       (\<forall>h. stored content st' h = stored content st h \<or>
          a \<le> h \<and> h < hi \<and> rec h \<noteq> None \<and> stored content st' h = rec h) \<and>
       (r = Fill_done \<longrightarrow> k = hi \<and>
          (k = Suc b \<or> k = b \<and> (\<exists>p. fetch b = Blk p \<and> fb_reward_staking_tx p \<noteq> None)))) \<and>
    (\<forall>h p staking_tx. stored content st' h \<noteq> stored content st h \<and> fetch h = Blk p \<and> fb_reward_staking_tx p = Some staking_tx \<longrightarrow>
       (\<exists>nx. fetch (Suc h) = Blk nx \<and>
          (fb_kind nx = Abort \<and> stored content st' h = Some (encode (block_elements p EMPTY_ARRAY)) \<or>
           fb_kind nx = Commit \<and> (\<exists>utxos rewards. fetch_reward_utxos cfg up staking_tx = Got utxos \<and>
             to_vec (en_ser E) utxos = Some rewards \<and> stored content st' h = Some (encode (block_elements p rewards))))))"
proof -
  let ?fetch = "p_fetch_block (en_ser E) C cfg up"
  have decided: "\<exists>nx. ?fetch (Suc h) = Blk nx \<and>
      (fb_kind nx = Abort \<and> t = encode (block_elements p EMPTY_ARRAY) \<or>
       fb_kind nx = Commit \<and> (\<exists>utxos rewards. fetch_reward_utxos cfg up staking_tx = Got utxos \<and>
         to_vec (en_ser E) utxos = Some rewards \<and> t = encode (block_elements p rewards)))"
    if "settled (en_ser E) cfg up ?fetch h = Some t" "?fetch h = Blk p" "fb_reward_staking_tx p = Some staking_tx" for h p staking_tx t
    using that by (auto simp: settled_def minted_def split: block_fetch.splits if_splits rpc_fetch.splits)
  from storage_engine.p_fill_range_wrote [OF assms] obtain k hi where "storage_wf ok st'" "hi \<le> Suc b"
    "wrote (en_ser E) (settled (en_ser E) cfg up (p_fetch_block (en_ser E) C cfg up)) tip a k hi
         (stored content st) (stored content st') (pr_published run) (pr_published run')"
    "r = Fill_done \<longrightarrow> k = hi \<and> (k = Suc b \<or> k = b \<and>
       (\<exists>p. p_fetch_block (en_ser E) C cfg up b = Blk p \<and> fb_reward_staking_tx p \<noteq> None))"
    by blast
  note W = this [unfolded wrote_def]
  have changed: "settled (en_ser E) cfg up ?fetch h = stored content st' h \<and> stored content st' h \<noteq> None"
    if "stored content st' h \<noteq> stored content st h" for h using W(3) that by metis
  show ?thesis
    unfolding Let_def
  proof (intro conjI allI impI, goal_cases)
    case 2
    show ?case using W by (intro exI [of _ k] exI [of _ hi]) auto
  next
    case (3 h p staking_tx)
    then obtain t where "settled (en_ser E) cfg up ?fetch h = Some t" "stored content st' h = Some t"
      using changed [of h] by auto
    with 3 decided [of h t p staking_tx] show ?case by simp
  qed (rule W(1))
qed

theorem p_fill_run_settled_witness:
  "\<exists>run' st'. p_fill_range mem_engines ref_crypto ref_cfg ref_p_up True (\<lambda>_. 0) 7 8 8 ref_run (mem_fresh Chain_P) =
     (Fill_done, run', st') \<and>
     stored mem_content st' 7 = Some (encode [print_json (ref_p_json 7), print_json (ref_p_hex 7), print_json ref_utxos]) \<and>
     stored mem_content st' 8 = Some (encode [print_json (ref_p_json 8), print_json (ref_p_hex 8), EMPTY_ARRAY])"
proof -
  have ser: "en_ser mem_engines = ref_serde" by (simp add: mem_engines_def)
  let ?rec = "settled ref_serde ref_cfg ref_p_up (p_fetch_block ref_serde ref_crypto ref_cfg ref_p_up)"
  have "7 \<le> u64_max" "8 \<le> u64_max" by (simp_all add: u64_max_def)
  note f = this [THEN fetch_ref]
  have r: "?rec 7 = Some (encode (block_elements (ref_fb 7) (print_json ref_utxos)))"
    "?rec 8 = Some (encode (block_elements (ref_fb 8) EMPTY_ARRAY))"
    using f ref_rewards settled_proposal [of "p_fetch_block ref_serde ref_crypto ref_cfg ref_p_up" 7 "ref_fb 7" "ref_fb 8"]
    by (auto simp: settled_def ref_fb_def)
  obtain run' st' where run: "p_fill_range mem_engines ref_crypto ref_cfg ref_p_up True (\<lambda>_. 0) 7 8 8 ref_run
      (mem_fresh Chain_P) = (Fill_done, run', st')" using ref_fill by blast
  from p_fill_run_settled [OF mem.storage_engine_axioms mem_fresh_wf _ run] obtain k where
    "7 \<le> k" "k = Suc 8 \<or> k = 8 \<and> (\<exists>p. p_fetch_block ref_serde ref_crypto ref_cfg ref_p_up 8 = Blk p \<and> fb_reward_staking_tx p \<noteq> None)"
    "\<forall>h. 7 \<le> h \<and> h < k \<longrightarrow> ?rec h \<noteq> None \<and> stored mem_content st' h = ?rec h"
    unfolding ser Let_def by auto
  with f have "stored mem_content st' 7 = ?rec 7" "stored mem_content st' 8 = ?rec 8" by (auto simp: ref_fb_def)
  with run r show ?thesis by (auto simp: block_elements_def ref_fb_def)
qed

text \<open>
  What the P-chain fans out is what it stored. Everything a run publishes to subscribers
  belongs to a height of the run at or above the tip, and carries exactly the record that is
  in the store at that height when the run ends.
\<close>

lemma tip_announcements_stored:
  assumes "storage_engine E content ok view" "storage_wf ok st" "a \<le> Suc b"
    and "p_fill_range E C cfg up listening clk a b tip run st = (r, run', st')"
  shows "\<exists>new. pr_published run' = pr_published run @ new \<and>
    (\<forall>u \<in> set new. \<exists>h t. a \<le> h \<and> h \<le> b \<and> tip \<le> h \<and> stored content st' h = Some t \<and>
       lu_record u = from_slice (en_ser E) t)"
proof -
  from storage_engine.p_fill_range_wrote [OF assms] obtain k hi where "hi \<le> Suc b"
    "wrote (en_ser E) (settled (en_ser E) cfg up (p_fetch_block (en_ser E) C cfg up)) tip a k hi
         (stored content st) (stored content st') (pr_published run) (pr_published run')"
    by blast
  then obtain new where e: "pr_published run' = pr_published run @ new"
    and n: "\<forall>u \<in> set new. \<exists>h t. a \<le> h \<and> h < k \<and> tip \<le> h \<and>
      settled (en_ser E) cfg up (p_fetch_block (en_ser E) C cfg up) h = Some t \<and> lu_record u = from_slice (en_ser E) t"
    and w: "\<And>h. a \<le> h \<Longrightarrow> h < k \<Longrightarrow>
      stored content st' h = settled (en_ser E) cfg up (p_fetch_block (en_ser E) C cfg up) h"
    and le: "k \<le> Suc b"
    unfolding wrote_def by auto
  have "\<exists>h t. a \<le> h \<and> h \<le> b \<and> tip \<le> h \<and> stored content st' h = Some t \<and>
      lu_record u = from_slice (en_ser E) t" if u: "u \<in> set new" for u
  proof -
    from n u obtain h t where h: "a \<le> h" "h < k" "tip \<le> h" "lu_record u = from_slice (en_ser E) t"
      "settled (en_ser E) cfg up (p_fetch_block (en_ser E) C cfg up) h = Some t" by blast
    with w [OF h(1,2)] le show ?thesis by (intro exI [of _ h] exI [of _ t]) simp
  qed
  with e show ?thesis by blast
qed

text \<open>
  A pass that ends on an undecided reward proposal takes no rest. When the next height is
  the tip, its block is a reward proposal and the tip was read within the poll interval, the
  pass fetches it, writes nothing and asks to run again at once, so the loop repeats the two
  fetches without a pause until the tip is next polled.
\<close>

lemma unresolved_proposal_respins:
  assumes "\<not> tip_stale cfg now (ps_tip_read_at s)"
    and "next_height (is_empty (ps_storage s)) (max_contiguous_height E (ps_storage s)) cfg (ps_tip s) = ps_tip s"
    and "p_fetch_block (en_ser E) C cfg up (ps_tip s) = Blk p" "fb_reward_staking_tx p \<noteq> None"
    and "ps_tip s \<le> u64_max"
  shows "\<exists>s'. p_ingest_pass E C cfg up listening now clk s = (Pass_again, s') \<and>
    ps_storage s' = ps_storage s \<and> ps_tip s' = ps_tip s \<and> ps_tip_read_at s' = ps_tip_read_at s"
proof -
  have "min (ps_tip s) (sat_add (ps_tip s) (FILL_CHUNK - 1)) = ps_tip s"
    using sat_add_ge [OF assms(5)] by (simp add: min_def)
  moreover have "heights (ps_tip s) (ps_tip s) = [ps_tip s]" by (simp add: heights_def)
  ultimately show ?thesis
    using assms(1-4)
    by (simp add: p_ingest_pass_def p_fill_pass_def p_fill_range_def release_pending_def Let_def split: prod.splits)
qed

lemma unresolved_proposal_respins_instance:
  "let s = \<lparr>ps_storage = mem_fresh Chain_P, ps_tip = 7, ps_tip_read_at = Some 0, ps_run = ref_run, ps_backfill_count = 0\<rparr>
   in \<exists>s'. p_ingest_pass mem_engines ref_crypto ref_cfg ref_p_up False 1 (\<lambda>_. 1) s = (Pass_again, s') \<and>
        ps_storage s' = mem_fresh Chain_P"
proof -
  let ?s = "\<lparr>ps_storage = mem_fresh Chain_P, ps_tip = 7, ps_tip_read_at = Some 0, ps_run = ref_run, ps_backfill_count = 0\<rparr>"
  have "\<not> tip_stale ref_cfg 1 (ps_tip_read_at ?s)"
    by (simp add: tip_stale_def ref_cfg_def from_secs_def nanos_per_sec_def)
  moreover have "next_height (is_empty (ps_storage ?s)) (max_contiguous_height mem_engines (ps_storage ?s)) ref_cfg (ps_tip ?s) = ps_tip ?s"
    by (simp add: next_height_def is_empty_def mem_fresh_def ref_cfg_def)
  moreover have "p_fetch_block (en_ser mem_engines) ref_crypto ref_cfg ref_p_up (ps_tip ?s) = Blk (ref_fb 7)"
    using fetch_ref [of 7] by (simp add: mem_engines_def u64_max_def)
  ultimately show ?thesis
    using unresolved_proposal_respins [of ref_cfg 1 ?s mem_engines ref_crypto ref_p_up "ref_fb 7" False "\<lambda>_. 1"]
    by (auto simp: ref_fb_def u64_max_def)
qed

end
