(* ===== verification/Platform_Rpc.thy ===== *)
theory Platform_Rpc
  imports Platform_Ingest Eth_Rpc
begin

text \<open>
  The \<open>platform.*\<close> methods (\<open>platform/rpc.rs\<close>): heights as strings or numbers, the rendering of
  a stored height in each encoding, lookups by block and transaction identifier, the tip and
  its timestamp, and subscriptions.

  A method answers \<open>Inl\<close> an error, \<open>Inr None\<close> for a miss (which the HTTP layer turns into 421)
  or \<open>Inr (Some v)\<close>. The decoding of the parameter objects is the server library's, and so is
  the RFC 3339 formatter, which is the parameter \<open>rfc3339\<close>. The main result is the round trip:
  a verified block that was stored is served back in every encoding, by height and by
  identifier, and so is each of its transactions.
\<close>

section \<open>Parameters\<close>

datatype uint64_t = U_num u64 | U_str string

datatype platform_error =
    Not_unsigned string
  | Bad_encoding codec_error
  | Bad_block_id codec_error
  | Bad_tx_id codec_error
  | P_storage storage_error
  | P_block_decode
  | P_record_decode
  | Bytes_not_string
  | Bad_stored_bytes codec_error
  | Timestamp_out_of_range
  | P_unsupported_kind string

fun uint64_get :: "uint64_t \<Rightarrow> platform_error + u64" where
  "uint64_get (U_num n) = Inr n"
| "uint64_get (U_str s) = ok_or (parse_u64 s) (Not_unsigned s)"

record subscribe_params =
  sp_kind :: string
  sp_from :: "uint64_t option"
  sp_to :: "uint64_t option"

record by_height =
  bh_height :: uint64_t
  bh_encoding :: "string option"

record by_block_id =
  bb_block_id :: string
  bb_encoding :: "string option"

record by_tx_id =
  bt_tx_id :: string
  bt_encoding :: "string option"

definition parse_encoding :: "string option \<Rightarrow> platform_error + encoding" where
  "parse_encoding s = map_err Bad_encoding (encoding_parse s)"

section \<open>The tip\<close>

definition p_tip :: "('s, 'd) engines \<Rightarrow> ('s, 'd) storage \<Rightarrow> u64 option" where
  "p_tip E st = (if is_empty st then None else Some (max_contiguous_height E st))"

definition get_height :: "('s, 'd) engines \<Rightarrow> ('s, 'd) storage \<Rightarrow> platform_error + json option" where
  "get_height E st = Inr (map_option (\<lambda>h. JObj [(''height'', JStr (to_dec h))]) (p_tip E st))"

definition stored_block :: "('s, 'd) engines \<Rightarrow> ('s, 'd) storage \<Rightarrow> u64 \<Rightarrow> platform_error + json option" where
  "stored_block E st height =
     and_then (map_err P_storage (deref_view (get_by_height E st height))) (\<lambda>r.
       case r of
         None \<Rightarrow> Inr None
       | Some b \<Rightarrow> and_then (ok_or (from_slice (en_ser E) b) P_block_decode) (\<lambda>v. Inr (Some v)))"

text \<open>The seconds a \<open>SystemTime\<close> can hold are those of a signed 64-bit integer.\<close>

definition epoch_checked_add :: "u64 \<Rightarrow> u64 option" where
  "epoch_checked_add secs = (if secs < 2 ^ 63 then Some secs else None)"

definition get_timestamp ::
  "(u64 \<Rightarrow> string) \<Rightarrow> ('s, 'd) engines \<Rightarrow> ('s, 'd) storage \<Rightarrow> platform_error + json option" where
  "get_timestamp rfc3339 E st =
     (case p_tip E st of
        None \<Rightarrow> Inr None
      | Some tip \<Rightarrow>
          and_then (stored_block E st tip) (\<lambda>r.
            case r of
              None \<Rightarrow> Inr None
            | Some block \<Rightarrow>
                (case jget_u64 block ''time'' of
                   None \<Rightarrow> Inr None
                 | Some secs \<Rightarrow>
                     and_then (ok_or (epoch_checked_add secs) Timestamp_out_of_range) (\<lambda>at.
                       Inr (Some (JObj [(''timestamp'', JStr (rfc3339 at))]))))))"

section \<open>Blocks\<close>

definition render_block ::
  "('s, 'd) engines \<Rightarrow> crypto \<Rightarrow> ('s, 'd) storage \<Rightarrow> u64 \<Rightarrow> encoding \<Rightarrow> platform_error + json option" where
  "render_block E C st height enc =
     (let idx = (if enc = Enc_Json then BLOCK else P_BYTES);
          answer = (\<lambda>block. Inr (Some (JObj [(''block'', block), (''encoding'', JStr (encoding_as_str enc))])))
      in and_then (map_err P_storage (deref_view (get_element E st height idx))) (\<lambda>r.
        case r of
          None \<Rightarrow> Inr None
        | Some b \<Rightarrow>
            and_then (ok_or (from_slice (en_ser E) b) P_record_decode) (\<lambda>v.
              if enc = Enc_Json then answer v
              else and_then (ok_or (as_str v) Bytes_not_string) (\<lambda>hex.
                   and_then (map_err Bad_stored_bytes (hexnc_decode C hex)) (\<lambda>raw.
                     case render_bytes C enc raw of
                       Some s \<Rightarrow> answer (JStr s)
                     | None \<Rightarrow> Inr None)))))"

definition get_block_by_height ::
  "('s, 'd) engines \<Rightarrow> crypto \<Rightarrow> ('s, 'd) storage \<Rightarrow> by_height \<Rightarrow> platform_error + json option" where
  "get_block_by_height E C st p =
     and_then (uint64_get (bh_height p)) (\<lambda>height.
     and_then (parse_encoding (bh_encoding p)) (\<lambda>enc. render_block E C st height enc))"

definition get_block ::
  "('s, 'd) engines \<Rightarrow> crypto \<Rightarrow> ('s, 'd) storage \<Rightarrow> by_block_id \<Rightarrow> platform_error + json option" where
  "get_block E C st p =
     and_then (parse_encoding (bb_encoding p)) (\<lambda>enc.
     and_then (map_err Bad_block_id (cb58_decode C (bb_block_id p))) (\<lambda>raw.
     and_then (map_err P_storage (height_of_hash E st raw)) (\<lambda>r.
       case r of None \<Rightarrow> Inr None | Some height \<Rightarrow> render_block E C st height enc)))"

section \<open>Transactions\<close>

definition get_tx ::
  "('s, 'd) engines \<Rightarrow> crypto \<Rightarrow> ('s, 'd) storage \<Rightarrow> by_tx_id \<Rightarrow> platform_error + json option" where
  "get_tx E C st p =
     and_then (parse_encoding (bt_encoding p)) (\<lambda>enc.
       if enc \<noteq> Enc_Json then Inr None
       else
         and_then (map_err Bad_tx_id (cb58_decode C (bt_tx_id p))) (\<lambda>raw.
         and_then (map_err P_storage (get_tx_location E st raw)) (\<lambda>r.
           case r of
             None \<Rightarrow> Inr None
           | Some (height, idx) \<Rightarrow>
               and_then (stored_block E st height) (\<lambda>b.
                 case b of
                   None \<Rightarrow> Inr None
                 | Some block \<Rightarrow>
                     (case fst (take_nth_tx block idx) of
                        None \<Rightarrow> Inr None
                      | Some tx \<Rightarrow>
                          Inr (Some (JObj [(''tx'', tx), (''encoding'', JStr (encoding_as_str Enc_Json))])))))))"

definition get_tx_status ::
  "('s, 'd) engines \<Rightarrow> crypto \<Rightarrow> ('s, 'd) storage \<Rightarrow> by_tx_id \<Rightarrow> platform_error + json option" where
  "get_tx_status E C st p =
     and_then (map_err Bad_tx_id (cb58_decode C (bt_tx_id p))) (\<lambda>raw.
     and_then (map_err P_storage (get_tx_location E st raw)) (\<lambda>r.
       Inr (if r \<noteq> None then Some (JObj [(''status'', JStr ''Committed'')]) else None)))"

section \<open>Subscribing\<close>

definition PLATFORM_SUB_KINDS :: "sub_kind list" where
  "PLATFORM_SUB_KINDS = [NewBlocks, NewRecords, OldBlocks, OldRecords]"

definition platform_subscribe ::
  "('s, 'd) engines \<Rightarrow> ('s, 'd) storage \<Rightarrow> subscribe_params \<Rightarrow> platform_error + sub_reply" where
  "platform_subscribe E st p =
     (case from_wire (sp_kind p) of
        None \<Rightarrow> Inl (P_unsupported_kind (sp_kind p))
      | Some k \<Rightarrow>
          and_then (transpose_opt (map_option uint64_get (sp_from p))) (\<lambda>f.
          and_then (transpose_opt (map_option uint64_get (sp_to p))) (\<lambda>t.
          Inr (serve_sub E Chain_P st \<lparr>sr_kind = k, sr_from = f, sr_to = t\<rparr> PLATFORM_SUB_KINDS))))"

section \<open>Lemmas\<close>

text \<open>A block all of whose transactions carry an identifier that decodes.\<close>

definition txs_identified :: "crypto \<Rightarrow> json \<Rightarrow> hash32 list \<Rightarrow> bool" where
  "txs_identified C block ids \<longleftrightarrow>
     list_all2 (\<lambda>tx i. \<exists>s. jget_str tx ''id'' = Some s \<and> cb58_decode C s = Inr i) (block_txs block) ids"

lemma extract_tx_ids_eq:
  assumes "txs_identified C block ids"
  shows "extract_tx_ids C block = ids"
proof -
  have "List.map_filter (\<lambda>s. res_ok (cb58_decode C s)) (List.map_filter (\<lambda>tx. jget_str tx ''id'') txs) = ids"
    if "list_all2 (\<lambda>tx i. \<exists>s. jget_str tx ''id'' = Some s \<and> cb58_decode C s = Inr i) txs ids" for txs
    using that by (induction txs ids rule: list_all2_induct) (auto simp: List.map_filter_simps)
  with assms show ?thesis by (simp add: txs_identified_def extract_tx_ids_def)
qed

lemma parse_encoding_as_str [simp]: "parse_encoding (Some (encoding_as_str e)) = Inr e"
  by (simp add: parse_encoding_def encoding_parse_as_str)

text \<open>What each encoding of a block shows: the JSON, or a spelling of its bytes.\<close>

definition rendering :: "crypto \<Rightarrow> encoding \<Rightarrow> json \<Rightarrow> bytes \<Rightarrow> json" where
  "rendering C enc block raw =
     JObj [(''block'', case render_bytes C enc raw of None \<Rightarrow> block | Some s \<Rightarrow> JStr s),
           (''encoding'', JStr (encoding_as_str enc))]"

context healthy_engine
begin

lemma stored_platform_block:
  assumes "storage_wf wf st" "store_block E fb rewards st = (Some h, st')" "tight (en_ser E) rewards"
    and "plain bv" "to_vec (en_ser E) bv = Some (fb_bytes_json fb)"
    and "plain jv" "to_vec (en_ser E) jv = Some (fb_json fb)"
  shows "put E (fb_height fb) (fb_id fb) (fb_tx_ids fb) (block_elements fb rewards) st = (Inr (), st')"
    and "h = fb_height fb"
    and "\<exists>b. deref_view (get_element E st' h BLOCK) = Inr (Some b) \<and> from_slice (en_ser E) b = Some jv"
    and "\<exists>b. deref_view (get_element E st' h P_BYTES) = Inr (Some b) \<and> from_slice (en_ser E) b = Some bv"
proof -
  show p: "put E (fb_height fb) (fb_id fb) (fb_tx_ids fb) (block_elements fb rewards) st = (Inr (), st')"
    and h: "h = fb_height fb"
    using assms(2) by (auto simp: store_block_def split: prod.splits sum.splits)
  have "list_all (tight (en_ser E)) (block_elements fb rewards)"
    using assms(3) print_tight [OF assms(4,5)] print_tight [OF assms(6,7)] by (simp add: block_elements_def)
  note g = get_element_put [OF assms(1) p this]
  show "\<exists>b. deref_view (get_element E st' h BLOCK) = Inr (Some b) \<and> from_slice (en_ser E) b = Some jv"
    using g [of h BLOCK] h parse_print [OF assms(6,7)] by (simp add: block_elements_def get_nth_def BLOCK_def)
  show "\<exists>b. deref_view (get_element E st' h P_BYTES) = Inr (Some b) \<and> from_slice (en_ser E) b = Some bv"
    using g [of h P_BYTES] h parse_print [OF assms(4,5)] by (simp add: block_elements_def get_nth_def P_BYTES_def)
qed

lemma render_block_stored:
  assumes "deref_view (get_element E st h BLOCK) = Inr (Some x)" "from_slice (en_ser E) x = Some jv"
    and "deref_view (get_element E st h P_BYTES) = Inr (Some y)" "from_slice (en_ser E) y = Some (JStr hex)"
    and "hexnc_decode C hex = Inr raw"
  shows "render_block E C st h enc = Inr (Some (rendering C enc jv raw))"
  using assms by (cases enc) (simp_all add: render_block_def rendering_def)

end

section \<open>Guarantees\<close>

text \<open>
  C12. A stored P-chain block is served faithfully. After a record that passed the cross-check
  is stored, asking for it by height (in either spelling of a number) or by the identifier its
  JSON reports gives, in the JSON encoding, the very JSON that was verified, and in each byte
  encoding the spelling of exactly the bytes that hash to its identifier; when its
  transactions have well-formed, distinct identifiers, each is served by its identifier and
  reported as committed.
\<close>

theorem platform_block_is_served:
  assumes "healthy_engine E content ok view" "crypto_laws C" "storage_wf ok st" "plain jv"
    and "verify (en_ser E) C bv jv want = Inr fb" "fb_height fb \<le> u64_max" "tight (en_ser E) rewards"
    and "store_block E fb rewards st = (Some h, st')"
    and "txs_identified C jv ids" "distinct ids" "length ids < 4294967296"
  shows "\<exists>raw. sha256 C raw = fb_id fb \<and> h = fb_height fb \<and>
    (\<forall>enc. \<forall>n \<in> {U_num h, U_str (to_dec h)}.
       get_block_by_height E C st' \<lparr>bh_height = n, bh_encoding = Some (encoding_as_str enc)\<rparr> =
         Inr (Some (rendering C enc jv raw))) \<and>
    (\<forall>enc. get_block E C st' \<lparr>bb_block_id = block_id_of C raw, bb_encoding = Some (encoding_as_str enc)\<rparr> =
       Inr (Some (rendering C enc jv raw))) \<and>
    (\<forall>i < length ids.
       get_tx E C st' \<lparr>bt_tx_id = cb58_encode C (ids ! i), bt_encoding = Some ''json''\<rparr> =
         Inr (Some (JObj [(''tx'', block_txs jv ! i), (''encoding'', JStr ''json'')])) \<and>
       get_tx_status E C st' \<lparr>bt_tx_id = cb58_encode C (ids ! i), bt_encoding = None\<rparr> =
         Inr (Some (JObj [(''status'', JStr ''Committed'')])))"
proof -
  from crypto_laws.verify_iff [OF assms(2), THEN iffD1, OF assms(5)] obtain hex raw where
    v: "bv = JStr hex" "hexnc_decode C hex = Inr raw" "to_vec (en_ser E) bv = Some (fb_bytes_json fb)"
      "to_vec (en_ser E) jv = Some (fb_json fb)" "fb_id fb = sha256 C raw" "fb_tx_ids fb = extract_tx_ids C jv"
    by blast
  have pb: "plain bv" using v(1) by simp
  note S = healthy_engine.stored_platform_block [OF assms(1,3,8,7) pb v(3) assms(4) v(4)]
  note put = S(1) and h = S(2)
  have ids: "fb_tx_ids fb = ids" using v(6) extract_tx_ids_eq [OF assms(9)] by simp
  from S(3,4) obtain x y where
    xy: "deref_view (get_element E st' h BLOCK) = Inr (Some x)" "from_slice (en_ser E) x = Some jv"
      "deref_view (get_element E st' h P_BYTES) = Inr (Some y)" "from_slice (en_ser E) y = Some (JStr hex)"
    using v(1) by blast
  note render = healthy_engine.render_block_stored [OF assms(1) xy v(2)]
  have blk: "stored_block E st' h = Inr (Some jv)"
    using xy by (simp add: stored_block_def get_by_height_def)
  have len: "length ids = length (block_txs jv)"
    using assms(9) by (auto simp: txs_identified_def dest: list_all2_lengthD)
  have by_id: "height_of_hash E st' (sha256 C raw) = Inr (Some h)"
    using healthy_engine.height_of_hash_put [OF assms(1,3) put assms(6)] v(5) h by simp
  have tx: "get_tx_location E st' (ids ! i) = Inr (Some (h, i))" if "i < length ids" for i
    using healthy_engine.get_tx_location_put(1) [OF assms(1,3) put assms(6)] assms(10,11) ids h that by simp
  have dec: "cb58_decode C (cb58_encode C (ids ! i)) = Inr (ids ! i)" if "i < length ids" for i
  proof -
    from assms(9) that len obtain s where "cb58_decode C s = Inr (ids ! i)"
      by (auto simp: txs_identified_def list_all2_conv_all_nth)
    from crypto_laws.cb58_canonical [OF assms(2) this] this show ?thesis by simp
  qed
  have num: "parse_u64 (to_dec h) = Some h" using parse_u64_to_dec assms(6) h by simp
  have js: "parse_encoding (Some ''json'') = Inr Enc_Json" using parse_encoding_as_str [of Enc_Json] by simp
  show ?thesis
  proof (intro exI [of _ raw] conjI allI ballI impI)
    show "get_tx E C st' \<lparr>bt_tx_id = cb58_encode C (ids ! i), bt_encoding = Some ''json''\<rparr> =
         Inr (Some (JObj [(''tx'', block_txs jv ! i), (''encoding'', JStr ''json'')]))" if "i < length ids" for i
      using that tx dec blk js len by (simp add: get_tx_def take_nth_tx_eq get_nth_def)
    show "get_tx_status E C st' \<lparr>bt_tx_id = cb58_encode C (ids ! i), bt_encoding = None\<rparr> =
         Inr (Some (JObj [(''status'', JStr ''Committed'')]))" if "i < length ids" for i
      using that tx dec by (simp add: get_tx_status_def)
  qed (use v(5) h num by_id render crypto_laws.block_id_decodes [OF assms(2)] in
      \<open>auto simp: get_block_by_height_def get_block_def\<close>)
qed

definition ref_tx_json :: json where
  "ref_tx_json = JObj [(''id'', JStr (block_id_of ref_crypto (ref_p_raw 8))), (''height'', JNum (PosInt 8)),
     (''txs'', JArr [JObj [(''id'', JStr (cb58_encode ref_crypto (sha256 ref_crypto ''tx'')))]])]"

theorem platform_block_is_served_witness:
  "\<exists>fb st'. verify ref_serde ref_crypto (ref_p_hex 8) ref_tx_json (Some 8) = Inr fb \<and>
     store_block mem_engines fb EMPTY_ARRAY (mem_fresh Chain_P) = (Some 8, st') \<and>
     get_block_by_height mem_engines ref_crypto st' \<lparr>bh_height = U_num 8, bh_encoding = Some ''json''\<rparr> =
       Inr (Some (JObj [(''block'', ref_tx_json), (''encoding'', JStr ''json'')])) \<and>
     get_tx_status mem_engines ref_crypto st'
       \<lparr>bt_tx_id = cb58_encode ref_crypto (sha256 ref_crypto ''tx''), bt_encoding = None\<rparr> =
       Inr (Some (JObj [(''status'', JStr ''Committed'')]))"
proof -
  let ?ids = "[sha256 ref_crypto ''tx'']"
  have l: "length (sha256 ref_crypto ''tx'') = 32"
    using ref_cr.sha256_length by (simp add: sha256_def)
  have t: "txs_identified ref_crypto ref_tx_json ?ids"
    using ref_cr.cb58_round_trip [OF l]
    by (simp add: txs_identified_def ref_tx_json_def block_txs_def jget_arr_def jget_str_def)
  define fb where "fb = \<lparr>fb_height = 8, fb_bytes_json = print_json (ref_p_hex 8), fb_json = print_json ref_tx_json,
     fb_id = sha256 ref_crypto (ref_p_raw 8), fb_tx_ids = extract_tx_ids ref_crypto ref_tx_json, fb_timestamp = None,
     fb_kind = block_kind (ref_p_raw 8), fb_reward_staking_tx = reward_staking_tx ref_tx_json\<rparr>"
  have pl: "plain ref_tx_json" by (simp add: ref_tx_json_def u64_max_def)
  have hex: "hexnc_decode ref_crypto (''0x'' @ ref_hex_encode (ref_p_raw 8)) = Inr (ref_p_raw 8)"
    using ref_cr.hexnc_round_trip [of "ref_p_raw 8"] by (simp add: ref_crypto_def)
  have v: "verify ref_serde ref_crypto (ref_p_hex 8) ref_tx_json (Some 8) = Inr fb"
    using hex pl plain_ref_p(2) [of 8]
    by (auto simp: ref_cr.verify_iff fb_def ref_p_hex_def jget_str_def jget_u64_def ref_serde_def ref_to_vec_def)
      (auto simp: ref_tx_json_def)
  have "put mem_engines 8 (fb_id fb) (fb_tx_ids fb) (block_elements fb EMPTY_ARRAY) (mem_fresh Chain_P) =
      (Inr (), mem_put 8 (fb_id fb) (fb_tx_ids fb) (block_elements fb EMPTY_ARRAY) (mem_fresh Chain_P))"
    by (rule mem_put_first) (simp add: block_elements_def)
  then obtain st' where s: "store_block mem_engines fb EMPTY_ARRAY (mem_fresh Chain_P) = (Some 8, st')"
    by (auto simp: store_block_def fb_def)
  have ser: "en_ser mem_engines = ref_serde" by (simp add: mem_engines_def)
  have "fb_height fb \<le> u64_max" "tight (en_ser mem_engines) EMPTY_ARRAY"
    using tight_texts by (simp_all add: fb_def u64_max_def ser EMPTY_ARRAY_def)
  from platform_block_is_served [OF mem.healthy_engine_axioms ref_cr.crypto_laws_axioms mem_fresh_wf pl
      v [folded ser] this s t] obtain raw where
    "\<forall>enc. \<forall>n \<in> {U_num 8, U_str (to_dec 8)}.
       get_block_by_height mem_engines ref_crypto st' \<lparr>bh_height = n, bh_encoding = Some (encoding_as_str enc)\<rparr> =
         Inr (Some (rendering ref_crypto enc ref_tx_json raw))"
    "get_tx_status mem_engines ref_crypto st' \<lparr>bt_tx_id = cb58_encode ref_crypto (?ids ! 0), bt_encoding = None\<rparr> =
       Inr (Some (JObj [(''status'', JStr ''Committed'')]))"
    by (auto simp del: encoding_as_str.simps)
  from this(1) [rule_format, of "U_num 8" Enc_Json] this(2) v s show ?thesis by (auto simp: rendering_def)
qed

end
