(* ===== verification/Mirror.thy ===== *)
theory Mirror
  imports Platform_Rpc
begin

text \<open>
  P-chain mirror mode (\<open>platform/mirror.rs\<close>): filling a store from another instance over one
  historical subscription and then following its tip.

  What arrives on the socket is a list of inputs, as for the C-chain session; the answer of the
  upstream's health endpoint is an HTTP reply. The lemmas: whatever an upstream sends, only records
  that pass the cross-check are written; and a stream that carries a range of verified records is
  reproduced byte for byte. The loop of sessions is in the theory \<open>Sessions\<close>.
\<close>

section \<open>Reconnecting\<close>

definition MAX_BACKOFF_MS :: u64 where
  "MAX_BACKOFF_MS = 30000"

definition mirror_attempt :: "bool \<Rightarrow> u32 \<Rightarrow> u32" where
  "mirror_attempt clean attempt = (if clean then 0 else min (attempt + 1) (2 ^ 32 - 1))"

definition mirror_backoff_ms :: "u32 \<Rightarrow> u64" where
  "mirror_backoff_ms attempt = min (sat_mul 500 (2 ^ min attempt 6)) MAX_BACKOFF_MS"

section \<open>One streamed record\<close>

definition notification_payload :: "json \<Rightarrow> json option" where
  "notification_payload v =
     (case jget_str v ''method'' of
        None \<Rightarrow> None
      | Some m \<Rightarrow>
          if m \<noteq> ''platform.subscription'' then None
          else Option.bind (jget v ''params'') (\<lambda>p. jget p ''result''))"

definition persist_record ::
  "('s, 'd) engines \<Rightarrow> crypto \<Rightarrow> json \<Rightarrow> ('s, 'd) storage \<Rightarrow> u64 option \<times> ('s, 'd) storage" where
  "persist_record E C record st =
     (case as_array record of
        None \<Rightarrow> (None, st)
      | Some parts \<Rightarrow>
          if length parts \<noteq> arity Chain_P then (None, st)
          else (case parts of
              [block_json, bytes_json, rewards] \<Rightarrow>
                (case verify_record (en_ser E) C bytes_json block_json of
                   Inl _ \<Rightarrow> (None, st)
                 | Inr fb \<Rightarrow>
                     (case to_vec (en_ser E) rewards of
                        None \<Rightarrow> (None, st)
                      | Some rewards_bytes \<Rightarrow> store_block E fb rewards_bytes st))
            | _ \<Rightarrow> (None, st)))"

section \<open>The historical range\<close>

definition p_upstream_contiguous :: "http_reply \<Rightarrow> u64 option" where
  "p_upstream_contiguous reply =
     (case reply of
        Net_error \<Rightarrow> None
      | Net_reply status hdr body \<Rightarrow>
          if \<not> is_success status then None
          else Option.bind body (\<lambda>v. upstream_blocks_field v Chain_P ''max_contiguous_height''))"

record ('s, 'd) mirror_state =
  mi_storage :: "('s, 'd) storage"
  mi_behind_tip :: u64
  mi_backfill_count :: u64

datatype mirror_end =
    M_health
  | M_current
  | M_connect
  | M_done
  | M_ended u64
  | M_idle
  | M_bad_record
  | M_closed
  | M_open

fun mirror_stream ::
  "('s, 'd) engines \<Rightarrow> crypto \<Rightarrow> u64 \<Rightarrow> (nat \<Rightarrow> instant) \<Rightarrow> nat \<Rightarrow> ws_input list \<Rightarrow> backfill_progress \<Rightarrow>
     ('s, 'd) mirror_state \<Rightarrow> mirror_end \<times> backfill_progress \<times> ('s, 'd) mirror_state" where
  "mirror_stream E C target clk n [] prog ms = (M_open, prog, ms)"
| "mirror_stream E C target clk n (In_idle # is) prog ms = (M_idle, prog, ms)"
| "mirror_stream E C target clk n (In_end # is) prog ms = (M_ended target, prog, ms)"
| "mirror_stream E C target clk n (In_frame frame # is) prog ms =
     (case notification_payload frame of
        None \<Rightarrow> mirror_stream E C target clk (Suc n) is prog ms
      | Some rec \<Rightarrow>
          (case persist_record E C rec (mi_storage ms) of
             (None, st') \<Rightarrow> (M_bad_record, prog, ms\<lparr>mi_storage := st'\<rparr>)
           | (Some height, st') \<Rightarrow>
               let behind = target - height;
                   ms' = ms\<lparr>mi_storage := st', mi_behind_tip := behind\<rparr>;
                   prog' = snd (snd (observe (clk n) height target behind prog))
               in if height \<ge> target then (M_done, snd (caught_up (clk n) height prog'), ms')
                  else mirror_stream E C target clk (Suc n) is prog' ms'))"

definition mirror_from :: "('s, 'd) engines \<Rightarrow> ingest_cfg \<Rightarrow> ('s, 'd) storage \<Rightarrow> u64" where
  "mirror_from E cfg st =
     (if is_empty st then (case cfg_backfill_floor cfg of None \<Rightarrow> 0 | Some f \<Rightarrow> f)
      else sat_add (max_contiguous_height E st) 1)"

definition mirror_bootstrap ::
  "('s, 'd) engines \<Rightarrow> crypto \<Rightarrow> ingest_cfg \<Rightarrow> http_reply \<Rightarrow> bool \<Rightarrow> (nat \<Rightarrow> instant) \<Rightarrow> ws_input list \<Rightarrow>
     ('s, 'd) mirror_state \<Rightarrow> mirror_end \<times> ('s, 'd) mirror_state" where
  "mirror_bootstrap E C cfg health connected clk is ms =
     (case p_upstream_contiguous health of
        None \<Rightarrow> (M_health, ms)
      | Some target \<Rightarrow>
          let from = mirror_from E cfg (mi_storage ms) in
          if from > target then (M_current, ms)
          else
            let count = sat_add (target - from) 1;
                ms' = ms\<lparr>mi_backfill_count := (mi_backfill_count ms + 1) mod 2 ^ 64\<rparr>;
                prog = snd (snd (observe (clk 0) (from - 1) target count (progress_new Chain_P (cfg_progress_period cfg))))
            in if \<not> connected then (M_connect, ms')
               else (case mirror_stream E C target clk 1 is prog ms' of (r, _, ms'') \<Rightarrow> (r, ms'')))"

section \<open>Following the tip\<close>

fun follow_stream ::
  "('s, 'd) engines \<Rightarrow> crypto \<Rightarrow> ws_input list \<Rightarrow> ('s, 'd) mirror_state \<Rightarrow> mirror_end \<times> ('s, 'd) mirror_state" where
  "follow_stream E C [] ms = (M_open, ms)"
| "follow_stream E C (In_idle # is) ms = (M_idle, ms)"
| "follow_stream E C (In_end # is) ms = (M_closed, ms)"
| "follow_stream E C (In_frame frame # is) ms =
     (case notification_payload frame of
        None \<Rightarrow> follow_stream E C is ms
      | Some rec \<Rightarrow>
          (case persist_record E C rec (mi_storage ms) of
             (None, st') \<Rightarrow> follow_stream E C is (ms\<lparr>mi_storage := st'\<rparr>)
           | (Some _, st') \<Rightarrow> follow_stream E C is (ms\<lparr>mi_storage := st', mi_behind_tip := 0\<rparr>)))"

definition follow_tip ::
  "('s, 'd) engines \<Rightarrow> crypto \<Rightarrow> bool \<Rightarrow> ws_input list \<Rightarrow> ('s, 'd) mirror_state \<Rightarrow> mirror_end \<times> ('s, 'd) mirror_state" where
  "follow_tip E C connected is ms = (if connected then follow_stream E C is ms else (M_connect, ms))"

section \<open>Lemmas\<close>

text \<open>A record that passes the cross-check at its height.\<close>

definition checked_record :: "serde \<Rightarrow> crypto \<Rightarrow> u64 \<Rightarrow> bytes \<Rightarrow> bool" where
  "checked_record S C h rec \<longleftrightarrow>
     (\<exists>bv jv fb rewards. verify_record S C bv jv = Inr fb \<and> fb_height fb = h \<and>
        rec = encode (block_elements fb rewards))"

definition only_checked :: "serde \<Rightarrow> crypto \<Rightarrow> (u64 \<rightharpoonup> bytes) \<Rightarrow> (u64 \<rightharpoonup> bytes) \<Rightarrow> bool" where
  "only_checked S C m m' \<longleftrightarrow>
     (\<forall>h. m' h = m h \<or> (\<exists>rec. m' h = Some rec \<and> checked_record S C h rec))"

lemma only_checked_refl [simp]: "only_checked S C m m"
  by (simp add: only_checked_def)

lemma only_checked_trans: "only_checked S C m m' \<Longrightarrow> only_checked S C m' m'' \<Longrightarrow> only_checked S C m m''"
  unfolding only_checked_def by metis

context storage_engine
begin

lemma store_block_outcome:
  assumes "storage_wf wf st" "store_block E fb rewards st = (r, st')"
  shows "storage_wf wf st'"
    and "stored content st' = stored content st \<or>
      stored content st' = (stored content st)(fb_height fb \<mapsto> encode (block_elements fb rewards))"
    and "r \<noteq> None \<Longrightarrow> r = Some (fb_height fb) \<and>
      stored content st' = (stored content st)(fb_height fb \<mapsto> encode (block_elements fb rewards))"
    and "r = None \<Longrightarrow> \<exists>e. put E (fb_height fb) (fb_id fb) (fb_tx_ids fb) (block_elements fb rewards) st = (Inl e, st')"
    and "st_chain st' = st_chain st"
proof -
  obtain q s where p: "put E (fb_height fb) (fb_id fb) (fb_tx_ids fb) (block_elements fb rewards) st = (q, s)"
    by (cases "put E (fb_height fb) (fb_id fb) (fb_tx_ids fb) (block_elements fb rewards) st")
  have e: "s = st'" "r = (case q of Inl _ \<Rightarrow> None | Inr _ \<Rightarrow> Some (fb_height fb))"
    using assms(2) p by (auto simp: store_block_def split: sum.splits)
  note P = put_outcome [OF assms(1) p, unfolded e(1)]
  show "storage_wf wf st'" "st_chain st' = st_chain st" using P by blast+
  show "stored content st' = stored content st \<or>
      stored content st' = (stored content st)(fb_height fb \<mapsto> encode (block_elements fb rewards))"
    using P by (cases q) (auto split: storage_error.splits)
  show "r \<noteq> None \<Longrightarrow> r = Some (fb_height fb) \<and>
      stored content st' = (stored content st)(fb_height fb \<mapsto> encode (block_elements fb rewards))"
    using P e(2) by (cases q) auto
  show "r = None \<Longrightarrow> \<exists>e. put E (fb_height fb) (fb_id fb) (fb_tx_ids fb) (block_elements fb rewards) st = (Inl e, st')"
    using p e by (cases q) auto
qed

lemma persist_record_checked:
  assumes "storage_wf wf st" "persist_record E C rec st = (r, st')"
  shows "storage_wf wf st' \<and> only_checked (en_ser E) C (stored content st) (stored content st')"
proof (cases "st' = st")
  case False
  then obtain bv jv fb rb where "verify_record (en_ser E) C bv jv = Inr fb" "store_block E fb rb st = (r, st')"
    using assms(2) by (auto simp: persist_record_def split: option.splits if_splits list.splits sum.splits)
  with store_block_outcome(1,2) [OF assms(1)] show ?thesis
    unfolding only_checked_def checked_record_def by (metis fun_upd_apply)
qed (use assms(1) in simp)

lemma mirror_stream_checked:
  assumes "storage_wf wf (mi_storage ms)" "mirror_stream E C target clk n is prog ms = (r, prog', ms')"
  shows "storage_wf wf (mi_storage ms') \<and>
    only_checked (en_ser E) C (stored content (mi_storage ms)) (stored content (mi_storage ms'))"
  using assms
proof (induction "is" arbitrary: n prog ms)
  case (Cons i "is")
  show ?case
  proof (cases i)
    case (In_frame frame)
    show ?thesis
    proof (cases "notification_payload frame")
      case None
      with Cons In_frame show ?thesis by simp
    next
      case (Some rec)
      obtain q st where p: "persist_record E C rec (mi_storage ms) = (q, st)"
        by (cases "persist_record E C rec (mi_storage ms)")
      note P = persist_record_checked [OF Cons.prems(1) p]
      show ?thesis
      proof (cases "\<exists>h. q = Some h \<and> h < target")
        case True
        then obtain h where h: "q = Some h" "h < target" by blast
        let ?ms = "ms\<lparr>mi_storage := st, mi_behind_tip := target - h\<rparr>"
        have "mirror_stream E C target clk (Suc n) is
            (snd (snd (observe (clk n) h target (target - h) prog))) ?ms = (r, prog', ms')"
          using Cons.prems(2) In_frame Some p h by (simp add: Let_def)
        from Cons.IH [OF _ this] P show ?thesis by (auto intro: only_checked_trans)
      next
        case False
        then have "mi_storage ms' = st"
          using Cons.prems(2) In_frame Some p by (auto simp: Let_def split: option.splits if_splits)
        with P show ?thesis by simp
      qed
    qed
  qed (use Cons.prems in auto)
qed simp

lemma follow_stream_checked:
  assumes "storage_wf wf (mi_storage ms)" "follow_stream E C is ms = (r, ms')"
  shows "storage_wf wf (mi_storage ms') \<and>
    only_checked (en_ser E) C (stored content (mi_storage ms)) (stored content (mi_storage ms'))"
  using assms
proof (induction "is" arbitrary: ms)
  case (Cons i "is")
  show ?case
  proof (cases i)
    case (In_frame frame)
    show ?thesis
    proof (cases "notification_payload frame")
      case None
      with Cons In_frame show ?thesis by simp
    next
      case (Some rec)
      obtain q st where p: "persist_record E C rec (mi_storage ms) = (q, st)"
        by (cases "persist_record E C rec (mi_storage ms)")
      note P = persist_record_checked [OF Cons.prems(1) p]
      obtain ms1 where m: "follow_stream E C is ms1 = (r, ms')" "mi_storage ms1 = st"
        using Cons.prems(2) In_frame Some p by (cases q) auto
      from Cons.IH [OF _ m(1)] m(2) P show ?thesis by (auto intro: only_checked_trans)
    qed
  qed (use Cons.prems in auto)
qed simp

lemma mirror_bootstrap_checked:
  assumes "storage_wf wf (mi_storage ms)" "mirror_bootstrap E C cfg health connected clk is ms = (r, ms')"
  shows "storage_wf wf (mi_storage ms') \<and>
    only_checked (en_ser E) C (stored content (mi_storage ms)) (stored content (mi_storage ms'))"
proof (cases "mi_storage ms' = mi_storage ms")
  case False
  then obtain target prog prog' where
    "mirror_stream E C target clk 1 is prog (ms\<lparr>mi_backfill_count := (mi_backfill_count ms + 1) mod 2 ^ 64\<rparr>) = (r, prog', ms')"
    using assms(2) by (auto simp: mirror_bootstrap_def Let_def split: option.splits if_splits prod.splits)
  from mirror_stream_checked [OF _ this] assms(1) show ?thesis by simp
qed (use assms(1) in simp)

end

subsection \<open>Replaying a verified store\<close>

text \<open>A record as P-chain ingest writes it: three serialised values whose halves agree.\<close>

definition replayable :: "serde \<Rightarrow> crypto \<Rightarrow> u64 \<Rightarrow> bytes \<Rightarrow> bool" where
  "replayable S C h rec \<longleftrightarrow>
     (\<exists>jv bv rv fb rewards. plain jv \<and> plain bv \<and> plain rv \<and> verify_record S C bv jv = Inr fb \<and>
        fb_height fb = h \<and> to_vec S rv = Some rewards \<and> rec = encode (block_elements fb rewards))"

text \<open>The write of a record at a height was refused by the store.\<close>

definition write_failed ::
  "('s, 'd) engines \<Rightarrow> u64 \<Rightarrow> bytes \<Rightarrow> ('s, 'd) storage \<Rightarrow> ('s, 'd) storage \<Rightarrow> bool" where
  "write_failed E h rec st st' \<longleftrightarrow>
     (\<exists>fb rewards e. rec = encode (block_elements fb rewards) \<and>
        put E h (fb_id fb) (fb_tx_ids fb) (block_elements fb rewards) st = (Inl e, st'))"

text \<open>Two stores differ by the heights from \<open>a\<close> to below \<open>h\<close>, which the second has from \<open>m\<close>.\<close>

definition copied ::
  "('s \<Rightarrow> u64 \<rightharpoonup> bytes) \<Rightarrow> (u64 \<rightharpoonup> bytes) \<Rightarrow> u64 \<Rightarrow> u64 \<Rightarrow> ('s, 'd) storage \<Rightarrow> ('s, 'd) storage \<Rightarrow> bool" where
  "copied content m a h st st' \<longleftrightarrow>
     (\<forall>k. stored content st' k = (if a \<le> k \<and> k < h then m k else stored content st k))"

text \<open>
  The outcome of a replay: all of the range is copied, or all of it below the height whose record
  the store refused.
\<close>

definition mirrored ::
  "('s, 'd) engines \<Rightarrow> ('s \<Rightarrow> u64 \<rightharpoonup> bytes) \<Rightarrow> (u64 \<rightharpoonup> bytes) \<Rightarrow> u64 \<Rightarrow> u64 \<Rightarrow> ('s, 'd) storage \<Rightarrow>
     mirror_end \<Rightarrow> ('s, 'd) storage \<Rightarrow> bool" where
  "mirrored E content m a b st r st' \<longleftrightarrow>
     r = M_done \<and> copied content m a (Suc b) st st' \<or>
     r = M_bad_record \<and>
       (\<exists>h rec s. a \<le> h \<and> h \<le> b \<and> m h = Some rec \<and> copied content m a h st s \<and> write_failed E h rec s st')"

lemma copied_empty [simp]: "copied content m a a st st"
  by (auto simp: copied_def)

lemma copied_Cons:
  assumes "stored content st1 = (stored content st)(a \<mapsto> rec)" "m a = Some rec" "a < h"
  shows "copied content m a h st s \<longleftrightarrow> copied content m (Suc a) h st1 s"
proof -
  have "(if a \<le> k \<and> k < h then m k else stored content st k) =
      (if Suc a \<le> k \<and> k < h then m k else stored content st1 k)" for k
    using assms by (cases "k = a") auto
  then show ?thesis by (simp add: copied_def)
qed

lemma mirrored_Cons:
  assumes "stored content st1 = (stored content st)(a \<mapsto> rec)" "m a = Some rec" "a \<le> b"
    and "mirrored E content m (Suc a) b st1 r st'"
  shows "mirrored E content m a b st r st'"
proof -
  have eq: "copied content m a h st s \<longleftrightarrow> copied content m (Suc a) h st1 s" if "a < h" for h s
    using assms(1,2) that by (rule copied_Cons)
  from assms(4) show ?thesis
    unfolding mirrored_def using eq [of "Suc b" st'] assms(3) by (metis Suc_le_lessD eq le_imp_less_Suc less_imp_le)
qed

text \<open>
  The inputs of a session that carries a replay: frames without a payload, and in their order the
  records of the heights.
\<close>

fun carries :: "serde \<Rightarrow> (u64 \<rightharpoonup> bytes) \<Rightarrow> ws_input list \<Rightarrow> u64 list \<Rightarrow> bool" where
  "carries S m is [] = True"
| "carries S m (In_frame f # is) (h # hs) =
     (case notification_payload f of
        None \<Rightarrow> carries S m is (h # hs)
      | Some v \<Rightarrow> from_slice S (the (m h)) = Some v \<and> carries S m is hs)"
| "carries S m _ (h # hs) = False"

text \<open>A streamed record only touches the height its own JSON reports.\<close>

definition payload_height :: "json \<Rightarrow> u64 option" where
  "payload_height v = (case as_array v of Some (jv # _) \<Rightarrow> jget_u64 jv ''height'' | _ \<Rightarrow> None)"

lemma verify_any_height: "verify S C bv jv (Some h) = Inr fb \<Longrightarrow> verify_record S C bv jv = Inr fb"
  by (auto simp: verify_record_def verify_def Let_def split: option.splits sum.splits if_splits)

lemma verify_texts:
  "verify S C bv jv w = Inr fb \<Longrightarrow> to_vec S bv = Some (fb_bytes_json fb) \<and> to_vec S jv = Some (fb_json fb)"
  by (auto simp: verify_def Let_def split: option.splits sum.splits if_splits)

context storage_engine
begin

lemma replayable_parts:
  assumes "replayable (en_ser E) C h rec"
  obtains jv bv rv fb rewards where "verify_record (en_ser E) C bv jv = Inr fb" "fb_height fb = h"
    "to_vec (en_ser E) rv = Some rewards" "rec = encode (block_elements fb rewards)"
    "from_slice (en_ser E) rec = Some (JArr [jv, bv, rv])"
proof -
  from assms obtain jv bv rv fb rewards where R: "plain jv" "plain bv" "plain rv"
    "verify_record (en_ser E) C bv jv = Inr fb" "fb_height fb = h" "to_vec (en_ser E) rv = Some rewards"
    "rec = encode (block_elements fb rewards)" by (auto simp: replayable_def)
  note T = verify_texts [OF R(4) [unfolded verify_record_def]]
  have "from_slice (en_ser E) rec = Some (JArr [jv, bv, rv])"
    unfolding R(7) encode_eq_array_text block_elements_def
  proof (rule parse_array)
    show "list_all (tight (en_ser E)) [fb_json fb, fb_bytes_json fb, rewards]"
      using T R(1-3,6) print_tight by simp
    show "map (from_slice (en_ser E)) [fb_json fb, fb_bytes_json fb, rewards] = map Some [jv, bv, rv]"
      using T R(1-3,6) parse_print by simp
  qed
  with R(4-7) show thesis by (rule that)
qed

lemma persist_replayable:
  assumes "storage_wf wf st" "replayable (en_ser E) C h rec" "from_slice (en_ser E) rec = Some v"
    and "persist_record E C v st = (r, st')"
  shows "(r = Some h \<and> stored content st' = (stored content st)(h \<mapsto> rec) \<and> st_chain st' = st_chain st) \<or>
    (r = None \<and> write_failed E h rec st st')"
proof -
  obtain jv bv rv fb rewards where R: "verify_record (en_ser E) C bv jv = Inr fb" "fb_height fb = h"
    "to_vec (en_ser E) rv = Some rewards" "rec = encode (block_elements fb rewards)"
    "from_slice (en_ser E) rec = Some (JArr [jv, bv, rv])"
    using assms(2) by (rule replayable_parts)
  have "v = JArr [jv, bv, rv]" using assms(3) R(5) by simp
  then have "store_block E fb rewards st = (r, st')"
    using assms(4) R(1,3) by (simp add: persist_record_def)
  from store_block_outcome(3,4,5) [OF assms(1) this] R(2,4) show ?thesis
    by (cases r) (auto simp: write_failed_def)
qed

lemma mirror_stream_replays:
  assumes "storage_wf wf (mi_storage ms)" "a \<le> b"
    and "\<And>h. a \<le> h \<Longrightarrow> h \<le> b \<Longrightarrow> \<exists>rec. m h = Some rec \<and> replayable (en_ser E) C h rec"
    and "carries (en_ser E) m is (heights a b)"
    and "mirror_stream E C b clk n is prog ms = (r, prog', ms')"
  shows "mirrored E content m a b (mi_storage ms) r (mi_storage ms')"
  using assms
proof (induction "is" arbitrary: a n prog ms)
  case Nil
  then show ?case by (simp add: heights_Cons)
next
  case (Cons i "is")
  have hs: "heights a b = a # heights (Suc a) b" using Cons.prems(2) by (rule heights_Cons)
  obtain f where f: "i = In_frame f" using Cons.prems(4) hs by (cases i) simp_all
  show ?case
  proof (cases "notification_payload f")
    case None
    then show ?thesis using Cons.IH [of ms a "Suc n" prog] Cons.prems f hs by simp
  next
    case (Some v)
    obtain rec where rec: "m a = Some rec" "replayable (en_ser E) C a rec" using Cons.prems(2,3) by blast
    have v: "from_slice (en_ser E) rec = Some v" "carries (en_ser E) m is (heights (Suc a) b)"
      using Cons.prems(4) hs f Some rec(1) by simp_all
    obtain q st where p: "persist_record E C v (mi_storage ms) = (q, st)"
      by (cases "persist_record E C v (mi_storage ms)")
    note w = persist_record_checked [OF Cons.prems(1) p, THEN conjunct1]
    from persist_replayable [OF Cons.prems(1) rec(2) v(1) p] show ?thesis
    proof
      assume "q = None \<and> write_failed E a rec (mi_storage ms) st"
      then have "r = M_bad_record" "write_failed E a rec (mi_storage ms) (mi_storage ms')"
        using Cons.prems(5) f Some p by auto
      with rec(1) Cons.prems(2) show ?thesis unfolding mirrored_def by (metis copied_empty order_refl)
    next
      assume q: "q = Some a \<and> stored content st = (stored content (mi_storage ms))(a \<mapsto> rec) \<and>
        st_chain st = st_chain (mi_storage ms)"
      then have st: "stored content st = (stored content (mi_storage ms))(a \<mapsto> rec)" by simp
      show ?thesis
      proof (cases "b \<le> a")
        case True
        with Cons.prems(2) have "a = b" by simp
        then have "r = M_done" "mi_storage ms' = st" using Cons.prems(5) f Some p q by (auto simp: Let_def)
        then show ?thesis
          using copied_Cons [where m = m, OF st rec(1), of "Suc a" st] \<open>a = b\<close> by (simp add: mirrored_def)
      next
        case False
        have "mirror_stream E C b clk (Suc n) is (snd (snd (observe (clk n) a b (b - a) prog)))
            (ms\<lparr>mi_storage := st, mi_behind_tip := b - a\<rparr>) = (r, prog', ms')"
          using Cons.prems(5) f Some p q False by (simp add: Let_def)
        from Cons.IH [OF _ _ _ v(2) this] w False Cons.prems(3)
        have "mirrored E content m (Suc a) b st r (mi_storage ms')" by simp
        from mirrored_Cons [where m = m, OF st rec(1) Cons.prems(2) this] show ?thesis .
      qed
    qed
  qed
qed

lemma persist_record_frame:
  assumes "storage_wf wf st" "persist_record E C v st = (r, st')" "payload_height v \<noteq> Some k"
  shows "stored content st' k = stored content st k"
proof (cases "st' = st")
  case False
  then obtain jv bv rv fb rb where v: "as_array v = Some [jv, bv, rv]" "verify_record (en_ser E) C bv jv = Inr fb"
    "store_block E fb rb st = (r, st')"
    using assms(2) by (auto simp: persist_record_def split: option.splits if_splits list.splits sum.splits)
  from v(2) have "jget_u64 jv ''height'' = Some (fb_height fb)"
    by (auto simp: verify_record_def verify_def Let_def split: option.splits sum.splits if_splits)
  then show ?thesis
    using store_block_outcome(2) [OF assms(1) v(3)] assms(3) v(1) by (auto simp: payload_height_def)
qed simp

lemma follow_stream_frame:
  assumes "storage_wf wf (mi_storage ms)" "follow_stream E C is ms = (r, ms')"
    and "\<And>f v. In_frame f \<in> set is \<Longrightarrow> notification_payload f = Some v \<Longrightarrow> payload_height v \<noteq> Some k"
  shows "stored content (mi_storage ms') k = stored content (mi_storage ms) k"
  using assms
proof (induction "is" arbitrary: ms)
  case (Cons i "is")
  have later: "stored content (mi_storage ms') k = stored content (mi_storage ms1) k"
    if "storage_wf wf (mi_storage ms1)" "follow_stream E C is ms1 = (r, ms')" for ms1
  proof (rule Cons.IH [OF that])
    show "payload_height v \<noteq> Some k" if "In_frame f \<in> set is" "notification_payload f = Some v" for f v
      using Cons.prems(3) [of f v] that by simp
  qed
  show ?case
  proof (cases i)
    case (In_frame frame)
    show ?thesis
    proof (cases "notification_payload frame")
      case None
      with Cons.prems In_frame later show ?thesis by simp
    next
      case (Some v)
      obtain q st where p: "persist_record E C v (mi_storage ms) = (q, st)"
        by (cases "persist_record E C v (mi_storage ms)")
      have "payload_height v \<noteq> Some k" using Cons.prems(3) [of frame v] In_frame Some by simp
      note P = persist_record_frame [OF Cons.prems(1) p this] persist_record_checked [OF Cons.prems(1) p]
      obtain ms1 where m: "follow_stream E C is ms1 = (r, ms')" "mi_storage ms1 = st"
        using Cons.prems(2) In_frame Some p by (cases q) auto
      from later [OF _ m(1)] m(2) P show ?thesis by simp
    qed
  qed (use Cons.prems in auto)
qed simp

end

section \<open>A reference stream\<close>

definition sub_frame :: "json \<Rightarrow> json" where
  "sub_frame v = JObj [(''jsonrpc'', JStr ''2.0''), (''method'', JStr ''platform.subscription''),
     (''params'', JObj [(''subscription'', JNum (PosInt 1)), (''result'', v)])]"

lemma sub_frame_payload [simp]: "notification_payload (sub_frame v) = Some v"
  by (simp add: sub_frame_def notification_payload_def jget_str_def)

definition ref_record :: bytes where
  "ref_record = encode (block_elements (ref_fb 8) EMPTY_ARRAY)"

definition ref_record_json :: json where
  "ref_record_json = JArr [ref_p_json 8, ref_p_hex 8, JArr []]"

lemma ref_record_replayable: "replayable ref_serde ref_crypto 8 ref_record"
proof -
  have "8 \<le> u64_max" by (simp add: u64_max_def)
  note pl = plain_ref_p(1) [OF this] and v = verify_ref [OF this]
  note verify_any_height [OF v]
  moreover have "to_vec ref_serde (JArr []) = Some EMPTY_ARRAY" using ref.print_empty_array by (simp add: EMPTY_ARRAY_def)
  moreover have "fb_height (ref_fb 8) = 8" by (simp add: ref_fb_def)
  ultimately show ?thesis
    using pl plain_ref_p(2) [of 8] unfolding replayable_def ref_record_def
    by (intro exI [of _ "ref_p_json 8"] exI [of _ "ref_p_hex 8"] exI [of _ "JArr []"] exI [of _ "ref_fb 8"]
        exI [of _ EMPTY_ARRAY]) simp
qed

lemma ref_record_print: "ref_record = print_json ref_record_json" "plain ref_record_json"
  using plain_ref_p(1) [of 8] plain_ref_p(2) [of 8]
  by (simp_all add: ref_record_def ref_record_json_def encode_eq_array_text block_elements_def ref_fb_def
      EMPTY_ARRAY_def array_text_def u64_max_def)

lemma ref_record_parses: "from_slice ref_serde ref_record = Some ref_record_json" "tight ref_serde ref_record"
  using ref.parse_print [OF ref_record_print(2)] ref.print_tight [OF ref_record_print(2)] ref_record_print
  by (simp_all add: ref_serde_def ref_to_vec_def)

definition ref_mirror :: "(mem_store, mem_db) storage \<Rightarrow> (mem_store, mem_db) mirror_state" where
  "ref_mirror st = \<lparr>mi_storage = st, mi_behind_tip = 0, mi_backfill_count = 0\<rparr>"

lemma ref_persist:
  "persist_record mem_engines ref_crypto ref_record_json (mem_fresh Chain_P) =
     (Some 8, mem_put 8 (fb_id (ref_fb 8)) (fb_tx_ids (ref_fb 8)) (block_elements (ref_fb 8) EMPTY_ARRAY) (mem_fresh Chain_P))"
proof -
  have "8 \<le> u64_max" by (simp add: u64_max_def)
  note verify_any_height [OF verify_ref [OF this]]
  moreover have "to_vec ref_serde (JArr []) = Some EMPTY_ARRAY" using ref.print_empty_array by (simp add: EMPTY_ARRAY_def)
  moreover have "length (block_elements (ref_fb 8) EMPTY_ARRAY) = arity Chain_P" by (simp add: block_elements_def)
  from mem_put_first [OF this] have "put mem_engines 8 (fb_id (ref_fb 8)) (fb_tx_ids (ref_fb 8)) (block_elements (ref_fb 8) EMPTY_ARRAY)
      (mem_fresh Chain_P) = (Inr (), mem_put 8 (fb_id (ref_fb 8)) (fb_tx_ids (ref_fb 8)) (block_elements (ref_fb 8) EMPTY_ARRAY) (mem_fresh Chain_P))" .
  ultimately show ?thesis
    by (simp add: persist_record_def ref_record_json_def mem_engines_def store_block_def ref_fb_def [of 8])
qed

section \<open>Guarantees\<close>

text \<open>
  Following the tip does not close gaps. Heights the upstream accepted after the bootstrap
  target was read and before the live subscription was in place are not sent again, and
  whatever else is sent, a height that no streamed record reports keeps its state: such a
  height stays missing until the session ends and a new bootstrap starts at the frontier.
\<close>

lemma follow_leaves_gap:
  assumes "storage_engine E content ok view" "storage_wf ok (mi_storage ms)"
    and "follow_tip E C connected is ms = (r, ms')"
    and "\<forall>f v. In_frame f \<in> set is \<and> notification_payload f = Some v \<longrightarrow> payload_height v \<noteq> Some g"
  shows "stored content (mi_storage ms') g = stored content (mi_storage ms) g"
  using storage_engine.follow_stream_frame [OF assms(1,2), of C "is" r ms' g] assms(3,4)
  by (auto simp: follow_tip_def split: if_splits)

lemma follow_leaves_gap_instance:
  "\<exists>ms'. follow_tip mem_engines ref_crypto True [In_frame (sub_frame ref_record_json), In_end]
       (ref_mirror (mem_fresh Chain_P)) = (M_closed, ms') \<and>
     stored mem_content (mi_storage ms') 7 = None \<and> mi_behind_tip ms' = 0"
proof -
  have "payload_height ref_record_json = Some 8"
    by (simp add: payload_height_def ref_record_json_def ref_p_json_def jget_u64_def)
  then have g: "\<forall>f v. In_frame f \<in> set [In_frame (sub_frame ref_record_json), In_end] \<and> notification_payload f = Some v \<longrightarrow>
      payload_height v \<noteq> Some 7" by auto
  obtain ms' where m: "follow_tip mem_engines ref_crypto True [In_frame (sub_frame ref_record_json), In_end]
       (ref_mirror (mem_fresh Chain_P)) = (M_closed, ms')" "mi_behind_tip ms' = 0"
    using ref_persist by (auto simp: follow_tip_def ref_mirror_def)
  have "storage_wf mem_wf (mi_storage (ref_mirror (mem_fresh Chain_P)))" by (simp add: ref_mirror_def)
  from follow_leaves_gap [OF mem.storage_engine_axioms this m(1) g] m show ?thesis
    by (auto simp: ref_mirror_def stored_def mem_fresh_def)
qed

end
