(* ===== verification/Bulk.thy ===== *)
theory Bulk
  imports Subscribe Health
begin

text \<open>
  The bulk export \<open>GET /blocks\<close> (\<open>bulk.rs\<close>): which store a request means, the parsing of its
  query, the admission of a range and the body, which is produced frame by frame as the
  client reads it, one block and one newline at a time.

  A body is unfolded against the store as it is at each poll; its fuel is two frames per block
  and one poll for the end. The parsing of a chain name is \<open>clap\<close>'s case-insensitive match
  against the names of the variants.
\<close>

section \<open>Stores\<close>

record ('s, 'd) bulk_stores =
  bu_by_chain :: "(chain \<times> ('s, 'd) storage) list"
  bu_default :: "chain option"

definition bulk_stores_new :: "('s, 'd) chain_serve list \<Rightarrow> ('s, 'd) bulk_stores" where
  "bulk_stores_new cs =
     \<lparr>bu_by_chain = map (\<lambda>c. (cs_chain c, cs_storage c)) cs,
      bu_default = (case find (\<lambda>c. c = Chain_C) (map cs_chain cs) of
          Some c \<Rightarrow> Some c
        | None \<Rightarrow> (case cs of [] \<Rightarrow> None | c # _ \<Rightarrow> Some (cs_chain c)))\<rparr>"

definition bulk_stores_get :: "('s, 'd) bulk_stores \<Rightarrow> chain option \<Rightarrow> ('s, 'd) storage option" where
  "bulk_stores_get ss c =
     (case (case c of Some x \<Rightarrow> Some x | None \<Rightarrow> bu_default ss) of
        None \<Rightarrow> None
      | Some want \<Rightarrow> map_option snd (find (\<lambda>cs. fst cs = want) (bu_by_chain ss)))"

section \<open>The query\<close>

datatype bulk_error =
    Bad_height string
  | Unknown_chain string
  | Missing_from
  | Chain_not_mirrored "chain option"
  | From_outside u64 u64 u64
  | To_before_from u64 u64
  | To_past_tip u64 u64
  | Too_many_blocks u64 u64

record bulk_range =
  ra_from :: u64
  ra_to :: "u64 option"
  ra_chain :: "chain option"

definition parse_height :: "string \<Rightarrow> bulk_error + u64" where
  "parse_height s =
     ok_or (case (case strip_prefix ''0x'' s of Some h \<Rightarrow> Some h | None \<Rightarrow> strip_prefix ''0X'' s) of
              Some hex \<Rightarrow> from_str_radix 16 hex
            | None \<Rightarrow> parse_u64 s) (Bad_height s)"

definition parse_chain :: "string \<Rightarrow> bulk_error + chain" where
  "parse_chain s = ok_or (find (\<lambda>c. eq_ignore_ascii_case (chain_as_str c) s) all_chains) (Unknown_chain s)"

text \<open>One \<open>key=value\<close> pair; a later pair replaces an earlier one.\<close>

definition parse_pair ::
  "string \<Rightarrow> u64 option \<times> u64 option \<times> chain option \<Rightarrow> bulk_error + u64 option \<times> u64 option \<times> chain option" where
  "parse_pair p acc =
     (case acc of (from, to, ch) \<Rightarrow>
       (case split_once (CHR ''='') p of
          None \<Rightarrow> Inr acc
        | Some (key, val) \<Rightarrow>
            if key = ''from'' then and_then (parse_height val) (\<lambda>h. Inr (Some h, to, ch))
            else if key = ''to'' then and_then (parse_height val) (\<lambda>h. Inr (from, Some h, ch))
            else if key = ''chain'' then and_then (parse_chain val) (\<lambda>c. Inr (from, to, Some c))
            else Inr acc))"

fun parse_pairs ::
  "string list \<Rightarrow> u64 option \<times> u64 option \<times> chain option \<Rightarrow> bulk_error + u64 option \<times> u64 option \<times> chain option" where
  "parse_pairs [] acc = Inr acc"
| "parse_pairs (p # ps) acc = and_then (parse_pair p acc) (parse_pairs ps)"

definition parse_range :: "string \<Rightarrow> bulk_error + bulk_range" where
  "parse_range query =
     and_then (parse_pairs (split_char (CHR ''&'') query) (None, None, None)) (\<lambda>(from, to, ch).
       and_then (ok_or from Missing_from) (\<lambda>f. Inr \<lparr>ra_from = f, ra_to = to, ra_chain = ch\<rparr>))"

section \<open>Admission\<close>

datatype ('s, 'd) bulk_reply =
    Bulk_refused nat bulk_error
  | Bulk_stream "('s, 'd) storage" u64 u64

definition bulk_admit ::
  "('s, 'd) engines \<Rightarrow> ('s, 'd) storage \<Rightarrow> u64 \<Rightarrow> u64 \<Rightarrow> u64 option \<Rightarrow> ('s, 'd) bulk_reply" where
  "bulk_admit E st max_blocks from to_opt =
     (let mn = min_height E st; contiguous = max_contiguous_height E st in
      if from < mn \<or> from > contiguous then Bulk_refused 416 (From_outside from mn contiguous)
      else
        let to_r = (case to_opt of
              Some t \<Rightarrow>
                if t < from then Inl (Bulk_refused 400 (To_before_from t from))
                else if t > contiguous then Inl (Bulk_refused 416 (To_past_tip t contiguous))
                else Inr t
            | None \<Rightarrow> Inr (min (sat_add from (max_blocks - 1)) contiguous))
        in case to_r of
             Inl r \<Rightarrow> r
           | Inr to \<Rightarrow>
               let count = sat_add (to - from) 1
               in if count > max_blocks then Bulk_refused 400 (Too_many_blocks count max_blocks)
                  else Bulk_stream st from to)"

definition bulk_serve_range ::
  "('s, 'd) engines \<Rightarrow> ('s, 'd) bulk_stores \<Rightarrow> u64 \<Rightarrow> string \<Rightarrow> ('s, 'd) bulk_reply" where
  "bulk_serve_range E ss max_blocks query =
     (case parse_range query of
        Inl e \<Rightarrow> Bulk_refused 400 e
      | Inr r \<Rightarrow>
          (case bulk_stores_get ss (ra_chain r) of
             None \<Rightarrow> Bulk_refused 400 (Chain_not_mirrored (ra_chain r))
           | Some st \<Rightarrow> bulk_admit E st max_blocks (ra_from r) (ra_to r)))"

section \<open>The body\<close>

text \<open>One poll of the body: the next frame and state, or the end.\<close>

definition bulk_poll ::
  "('s, 'd) engines \<Rightarrow> ('s, 'd) storage \<Rightarrow> u64 \<Rightarrow> u64 \<times> bool \<Rightarrow> (bytes \<times> u64 \<times> bool) option" where
  "bulk_poll E st to s =
     (case s of (height, newline_owed) \<Rightarrow>
       if newline_owed then Some ([CHR 0x0A], sat_add height 1, False)
       else if height > to then None
       else (case deref_view (get_by_height E st height) of
           Inr (Some b) \<Rightarrow> Some (b, height, True)
         | _ \<Rightarrow> None))"

fun bulk_body ::
  "nat \<Rightarrow> ('s, 'd) engines \<Rightarrow> (nat \<Rightarrow> ('s, 'd) storage) \<Rightarrow> nat \<Rightarrow> u64 \<Rightarrow> u64 \<times> bool \<Rightarrow> bytes list option" where
  "bulk_body 0 E sts n to s = None"
| "bulk_body (Suc fuel) E sts n to s =
     (case bulk_poll E (sts n) to s of
        None \<Rightarrow> Some []
      | Some (frame, s') \<Rightarrow> map_option (Cons frame) (bulk_body fuel E sts (Suc n) to s'))"

section \<open>Lemmas\<close>

lemma split_char_none: "c \<notin> set s \<Longrightarrow> split_char c s = [s]"
  by (induction s) auto

lemma split_char_append: "c \<notin> set a \<Longrightarrow> split_char c (a @ c # b) = a # split_char c b"
  by (induction a) auto

lemma format_radix_digits:
  assumes "2 \<le> r" "x \<in> set (format_radix r n)"
  shows "\<exists>d < r. x = from_digit d"
  using assms
proof (induction r n rule: format_radix.induct)
  case (1 r n)
  show ?case
  proof (cases "r < 2 \<or> n < r")
    case True
    then have "format_radix r n = [from_digit n]" by (subst format_radix.simps) simp
    with 1(2,3) True show ?thesis by auto
  next
    case False
    then have "format_radix r n = format_radix r (n div r) @ [from_digit (n mod r)]"
      by (subst format_radix.simps) simp
    then have "x \<in> set (format_radix r (n div r)) \<or> x = from_digit (n mod r)" using 1(3) by auto
    moreover have "n mod r < r" using 1(2) by simp
    ultimately show ?thesis using 1(1) [OF False 1(2)] by blast
  qed
qed


lemma numeral_text:
  assumes "2 \<le> r" "r \<le> 16" "c \<in> {CHR ''&'', CHR ''='', CHR ''x'', CHR ''X''}"
  shows "c \<notin> set (format_radix r n)"
proof
  assume "c \<in> set (format_radix r n)"
  then obtain d where d: "d < r" "c = from_digit d" using format_radix_digits [OF assms(1)] by blast
  then have "(of_char c :: nat) = (if d < 10 then d + 48 else d + 87)"
    using assms(2) by (simp add: from_digit_def)
  with assms(3) d(1) assms(2) show False by (auto split: if_splits)
qed

lemma strip_0x_numeral:
  assumes "2 \<le> r" "r \<le> 16"
  shows "strip_prefix ''0x'' (format_radix r n) = None" "strip_prefix ''0X'' (format_radix r n) = None"
proof -
  have "CHR ''x'' \<notin> set (format_radix r n)" "CHR ''X'' \<notin> set (format_radix r n)"
    using numeral_text [OF assms] by auto
  then show "strip_prefix ''0x'' (format_radix r n) = None" "strip_prefix ''0X'' (format_radix r n) = None"
    by (auto simp: strip_prefix_Some_iff intro: option.exhaust [of "strip_prefix ''0x'' (format_radix r n)"]
        option.exhaust [of "strip_prefix ''0X'' (format_radix r n)"])
qed

lemma parse_height_dec: "n \<le> u64_max \<Longrightarrow> parse_height (to_dec n) = Inr n"
  using strip_0x_numeral [of 10 n] parse_u64_to_dec [of n] by (simp add: parse_height_def to_dec_def)

lemma parse_height_hex: "n \<le> u64_max \<Longrightarrow> parse_height (''0x'' @ to_hex n) = Inr n"
  using from_str_radix_to_hex by (simp add: parse_height_def)

lemma parse_chain_as_str: "parse_chain (chain_as_str c) = Inr c"
  by (cases c) (simp_all add: parse_chain_def all_chains_def eq_ignore_ascii_case_def to_ascii_lowercase_def)

lemma parse_pair_eq:
  "CHR ''='' \<notin> set key \<Longrightarrow> parse_pair (key @ CHR ''='' # val) (f, t, c) =
     (if key = ''from'' then and_then (parse_height val) (\<lambda>h. Inr (Some h, t, c))
      else if key = ''to'' then and_then (parse_height val) (\<lambda>h. Inr (f, Some h, c))
      else if key = ''chain'' then and_then (parse_chain val) (\<lambda>x. Inr (f, t, Some x))
      else Inr (f, t, c))"
  by (simp add: parse_pair_def split_once_append)

lemma bulk_admit_iff:
  assumes "max_contiguous_height E st < u64_max"
  shows "bulk_admit E st mx a t = Bulk_stream st' a' b \<longleftrightarrow>
    st' = st \<and> a' = a \<and> min_height E st \<le> a \<and> a \<le> b \<and> b \<le> max_contiguous_height E st \<and> b - a < mx \<and>
    b = (case t of Some x \<Rightarrow> x | None \<Rightarrow> min (a + (mx - 1)) (max_contiguous_height E st))"
proof -
  have c: "sat_add (x - a) (Suc 0) = Suc (x - a)" if "x \<le> max_contiguous_height E st" for x
    using that assms sat_add_Suc [of "x - a"] by simp
  have m: "min (sat_add a (mx - 1)) (max_contiguous_height E st) = min (a + (mx - 1)) (max_contiguous_height E st)"
    using assms by (simp add: sat_add_def min_def)
  show ?thesis
    unfolding bulk_admit_def Let_def m
    by (cases t) (auto simp: c Suc_le_eq not_less split: if_splits)
qed

context healthy_engine
begin

lemma bulk_body_blocks:
  assumes "\<And>n. storage_wf wf (sts n)" "b < u64_max"
    and "\<And>n h. a \<le> h \<Longrightarrow> h \<le> b \<Longrightarrow> spec_element (en_ser E) (stored content (sts n)) h BLOCK = Inr (Some (blk h))"
    and "2 * (Suc b - a) < fuel"
  shows "bulk_body fuel E sts n b (a, False) = Some (concat (map (\<lambda>h. [blk h, [CHR 0x0A]]) (heights a b)))"
  using assms(3,4)
proof (induction "Suc b - a" arbitrary: a n fuel)
  case 0
  then obtain fuel' where "fuel = Suc fuel'" by (cases fuel) auto
  with 0 show ?case by (simp add: bulk_poll_def heights_empty)
next
  case (Suc x)
  then have ab: "a \<le> b" by simp
  obtain fuel' where f: "fuel = Suc (Suc fuel')" "2 * (Suc b - Suc a) < fuel'"
    using Suc.prems(2) ab by (cases fuel; cases "fuel - 1") auto
  have "deref_view (get_by_height E (sts n) a) = Inr (Some (blk a))"
    using get_element_total [OF assms(1)] Suc.prems(1) [of a n] ab by (simp add: get_by_height_def)
  moreover have "sat_add a 1 = Suc a" using ab assms(2) by (simp add: sat_add_def)
  moreover have "bulk_body fuel' E sts (Suc (Suc n)) b (Suc a, False) =
      Some (concat (map (\<lambda>h. [blk h, [CHR 0x0A]]) (heights (Suc a) b)))"
    using Suc.hyps(2) Suc.prems(1) f(2) by (intro Suc.hyps(1)) auto
  ultimately show ?case
    using ab by (simp add: f(1) bulk_poll_def heights_Cons)
qed

end

text \<open>A request as a client writes it.\<close>

definition render_query :: "bulk_range \<Rightarrow> string" where
  "render_query r =
     ''from='' @ to_dec (ra_from r) @
     (case ra_to r of None \<Rightarrow> [] | Some t \<Rightarrow> ''&to='' @ to_dec t) @
     (case ra_chain r of None \<Rightarrow> [] | Some c \<Rightarrow> ''&chain='' @ chain_as_str c)"

definition numbered :: "bulk_range \<Rightarrow> bool" where
  "numbered r \<longleftrightarrow> ra_from r \<le> u64_max \<and> (\<forall>t. ra_to r = Some t \<longrightarrow> t \<le> u64_max)"

lemma split_query:
  "split_char (CHR ''&'') (render_query r) =
     (''from='' @ to_dec (ra_from r)) #
     (case ra_to r of None \<Rightarrow> [] | Some t \<Rightarrow> [''to='' @ to_dec t]) @
     (case ra_chain r of None \<Rightarrow> [] | Some c \<Rightarrow> [''chain='' @ chain_as_str c])"
proof -
  have d: "CHR ''&'' \<notin> set (to_dec n)" for n
    using numeral_text [of 10 "CHR ''&''" n] by (simp add: to_dec_def)
  have k: "CHR ''&'' \<notin> set (''from='' @ to_dec n)" "CHR ''&'' \<notin> set (''to='' @ to_dec n)" for n
    using d by auto
  have c: "CHR ''&'' \<notin> set (''chain='' @ chain_as_str c)" for c by (cases c) auto
  note split = split_char_append [OF k(1)] split_char_append [OF k(2)] split_char_none [OF k(1)]
    split_char_none [OF k(2)] split_char_none [OF c]
  show ?thesis
    by (cases "ra_to r"; cases "ra_chain r")
      (use split in \<open>simp_all add: render_query_def del: split_char.simps\<close>)
qed

lemma parse_render_query:
  assumes "numbered r"
  shows "parse_range (render_query r) = Inr r"
proof -
  have p: "parse_pair (''from='' @ v) (f, t, c) = and_then (parse_height v) (\<lambda>h. Inr (Some h, t, c))"
    "parse_pair (''to='' @ v) (f, t, c) = and_then (parse_height v) (\<lambda>h. Inr (f, Some h, c))"
    "parse_pair (''chain='' @ v) (f, t, c) = and_then (parse_chain v) (\<lambda>x. Inr (f, t, Some x))" for v f t c
    using parse_pair_eq [of "''from''" v f t c] parse_pair_eq [of "''to''" v f t c]
      parse_pair_eq [of "''chain''" v f t c] by simp_all
  have h: "parse_height (to_dec (ra_from r)) = Inr (ra_from r)"
    "ra_to r = Some t \<Longrightarrow> parse_height (to_dec t) = Inr t" for t
    using assms parse_height_dec by (auto simp: numbered_def)
  have two: "[x] @ [y] = [x, y]" for x y :: string by simp
  show ?thesis
    unfolding parse_range_def split_query
    by (cases "ra_to r"; cases "ra_chain r")
      (use h in \<open>simp_all add: p two parse_chain_as_str del: append_Cons chain_as_str.simps\<close>)
qed

section \<open>Guarantees\<close>

text \<open>
  C26. An export is complete. When a request is answered with a stream, its range lies between
  the earliest stored height and the contiguous tip and has at most the configured number of
  blocks; and while the store only gains records, reading the body to its end yields exactly
  one line per height of the range, in order, each the stored block, and then the body ends.
\<close>

theorem bulk_export_complete:
  assumes "healthy_engine E content ok view" "\<forall>n. storage_wf ok (sts n)"
    and "\<forall>n. stored content (sts 0) \<subseteq>\<^sub>m stored content (sts n)"
    and "0 < a \<or> stored content (sts 0) (min_height E (sts 0)) \<noteq> None"
    and "\<forall>h r. stored content (sts 0) h = Some r \<longrightarrow> well_stored (en_ser E) r"
    and "max_contiguous_height E (sts 0) < u64_max"
    and "bulk_serve_range E ss mx query = Bulk_stream (sts 0) a b"
  shows "min_height E (sts 0) \<le> a \<and> a \<le> b \<and> b \<le> max_contiguous_height E (sts 0) \<and> b - a < mx \<and>
    (\<exists>blk. (\<forall>h. a \<le> h \<and> h \<le> b \<longrightarrow> replay_item (en_ser E) OldBlocks (stored content (sts 0)) h = Some (blk h)) \<and>
       map_option concat (bulk_body (Suc (2 * (Suc b - a))) E sts 0 b (a, False)) =
         Some (concat (map (\<lambda>h. blk h @ [CHR 0x0A]) (heights a b))))"
proof -
  have sl: "serde_laws (en_ser E)" using assms(1) by (simp add: healthy_engine_def storage_engine_def)
  obtain t where "bulk_admit E (sts 0) mx a t = Bulk_stream (sts 0) a b"
  proof -
    from assms(7) obtain st f t where "bulk_admit E st mx f t = Bulk_stream (sts 0) a b"
      by (auto simp: bulk_serve_range_def split: sum.splits option.splits)
    moreover from this have "st = sts 0 \<and> f = a"
      by (auto simp: bulk_admit_def Let_def split: option.splits if_splits)
    ultimately show thesis using that by blast
  qed
  from this [unfolded bulk_admit_iff [OF assms(6)]] have r: "min_height E (sts 0) \<le> a" "a \<le> b"
    "b \<le> max_contiguous_height E (sts 0)" "b - a < mx" by blast+
  define blk where "blk h = the (replay_item (en_ser E) OldBlocks (stored content (sts 0)) h)" for h
  have item: "\<exists>rc. stored content (sts 0) h = Some rc \<and>
      replay_item (en_ser E) OldBlocks (stored content (sts 0)) h = Some (blk h)" if H: "a \<le> h" "h \<le> b" for h
  proof -
    obtain rc where rc: "stored content (sts 0) h = Some rc"
      using healthy_engine.contiguous_present [OF assms(1) spec [OF assms(2), of 0] assms(4) r(1) H(1)] r(3) H by auto
    with serde_laws.well_stored_item [OF sl, of "stored content (sts 0)" h rc OldBlocks] assms(5) show ?thesis by (auto simp: blk_def)
  qed
  have "spec_element (en_ser E) (stored content (sts n)) h BLOCK = Inr (Some (blk h))" if "a \<le> h" "h \<le> b" for n h
  proof -
    from item [OF that] obtain rc where rc: "stored content (sts 0) h = Some rc"
      "replay_item (en_ser E) OldBlocks (stored content (sts 0)) h = Some (blk h)" by blast
    then have "stored content (sts n) h = Some rc" using assms(3) by (auto simp: map_le_def dom_def)
    with rc show ?thesis
      by (auto simp: replay_item_def wants_record_def spec_element_def split: sum.splits option.splits)
  qed
  then have "bulk_body (Suc (2 * (Suc b - a))) E sts 0 b (a, False) =
      Some (concat (map (\<lambda>h. [blk h, [CHR 0x0A]]) (heights a b)))"
    using assms(2,6) r(3) by (intro healthy_engine.bulk_body_blocks [OF assms(1)]) auto
  moreover have "concat (concat (map (\<lambda>h. [blk h, [CHR 0x0A]]) hs)) = concat (map (\<lambda>h. blk h @ [CHR 0x0A]) hs)" for hs
    by (induction hs) auto
  ultimately show ?thesis using r item by (auto simp del: bulk_body.simps)
qed

theorem bulk_export_complete_witness:
  "let st = mem_put 7 ''hash'' [] [''{}'', ''[]''] (mem_fresh Chain_C);
       ss = bulk_stores_new [\<lparr>cs_chain = Chain_C, cs_storage = st, cs_behind_tip = 0, cs_identity = [], cs_data_dir = []\<rparr>]
   in bulk_serve_range mem_engines ss 10 ''from=7'' = Bulk_stream st 7 7 \<and>
      map_option concat (bulk_body 3 mem_engines (\<lambda>_. st) 0 7 (7, False)) = Some (''{}'' @ [CHR 0x0A])"
proof -
  let ?es = "[''{}'', ''[]'']"
  define st where "st = mem_put 7 ''hash'' [] ?es (mem_fresh Chain_C)"
  define ss where "ss = bulk_stores_new [\<lparr>cs_chain = Chain_C, cs_storage = st, cs_behind_tip = 0, cs_identity = [], cs_data_dir = []\<rparr>]"
  have t: "tight ref_serde (encode ?es)" "utf8_valid (encode ?es)" "utf8_valid ''{}''" "utf8_valid ''[]''"
    by code_simp+
  have ws: "well_stored ref_serde (encode ?es)"
    using t tight_texts by (auto simp: well_stored_def sendable_def intro!: exI [of _ ?es])
  have st: "st = \<lparr>st_chain = Chain_C, st_store = Some \<lparr>ms_min = 7, ms_blocks = [(7, encode ?es)]\<rparr>,
      st_db = fold mem_insert (index_batch 7 ''hash'' []) [], st_anchor_floor = None\<rparr>"
    by (simp add: st_def mem_put_def put_def put_record_def put_index_def and_step_def mem_engines_def
        mem_blockstore_def mem_fjall_def mem_fresh_def put_floor_def)
  have h: "min_height mem_engines st = 7" "max_contiguous_height mem_engines st = 7"
    by (simp_all add: st max_contiguous_height_def min_height_def mem_engines_def mem_blockstore_def)
  have w: "storage_wf mem_wf st" by (simp add: st storage_wf_def mem_wf_def)
  have m: "stored mem_content st = [7 \<mapsto> encode ?es]" by (auto simp: st stored_def mem_content_def)
  have "render_query \<lparr>ra_from = 7, ra_to = None, ra_chain = None\<rparr> = ''from=7''"
    by code_simp
  then have "parse_range ''from=7'' = Inr \<lparr>ra_from = 7, ra_to = None, ra_chain = None\<rparr>"
    using parse_render_query [of "\<lparr>ra_from = 7, ra_to = None, ra_chain = None\<rparr>"] by (simp add: numbered_def u64_max_def)
  then have serve: "bulk_serve_range mem_engines ss 10 ''from=7'' = Bulk_stream st 7 7"
    by (simp add: bulk_serve_range_def ss_def bulk_stores_get_def bulk_stores_new_def bulk_admit_def h sat_add_def u64_max_def)
  have el: "element ref_serde (encode ?es) 0 = Inr (Some ''{}'')"
    using mem.element_encode [of ?es 0] tight_texts by (simp add: mem_engines_def get_nth_def)
  have item: "replay_item ref_serde OldBlocks (stored mem_content st) 7 = Some ''{}''"
    using el by (simp add: m replay_item_def wants_record_def spec_element_def BLOCK_def)
  have ser: "en_ser mem_engines = ref_serde" by (simp add: mem_engines_def)
  have all: "\<forall>h r. stored mem_content st h = Some r \<longrightarrow> well_stored (en_ser mem_engines) r"
    using ws by (simp add: m ser)
  have u: "max_contiguous_height mem_engines st < u64_max" by (simp add: h u64_max_def)
  have c: "0 < (7 :: nat) \<or> stored mem_content st (min_height mem_engines st) \<noteq> None" by simp
  obtain blk where "\<forall>h. 7 \<le> h \<and> h \<le> 7 \<longrightarrow> replay_item ref_serde OldBlocks (stored mem_content st) h = Some (blk h)"
    "map_option concat (bulk_body (Suc (2 * (Suc 7 - 7))) mem_engines (\<lambda>_. st) 0 7 (7, False)) =
       Some (concat (map (\<lambda>h. blk h @ [CHR 0x0A]) (heights 7 7)))"
    using bulk_export_complete [where sts = "\<lambda>_. st", OF mem.healthy_engine_axioms _ _ c all u serve] w
    unfolding ser by auto
  with item have "map_option concat (bulk_body 3 mem_engines (\<lambda>_. st) 0 7 (7, False)) = Some (''{}'' @ [CHR 0x0A])"
    by (simp add: heights_def numeral_3_eq_3 del: bulk_body.simps)
  with serve show ?thesis by (simp add: st_def ss_def Let_def del: bulk_body.simps)
qed

text \<open>
  Every request a client can write is understood: printing a range with its optional end
  and chain as a query and parsing it gives the range back.
\<close>

lemma bulk_query_round_trip:
  assumes "numbered r"
  shows "parse_range (render_query r) = Inr r"
  using assms by (rule parse_render_query)

text \<open>
  An empty store is exported as a success. A store that has never been written reports 0 as
  its earliest height and as its tip, so a request for height 0 is not refused like every
  other one: it is answered with a stream whose body ends at once.
\<close>

lemma empty_store_exports_nothing:
  assumes "is_empty st" "0 < mx"
  shows "bulk_admit E st mx 0 None = Bulk_stream st 0 0 \<and> bulk_body 1 E (\<lambda>_. st) 0 0 (0, False) = Some [] \<and>
    (\<forall>a > 0. bulk_admit E st mx a None = Bulk_refused 416 (From_outside a 0 0))"
  using assms
  by (auto simp: bulk_admit_def min_height_def max_contiguous_height_def is_empty_def bulk_poll_def sat_add_def
      u64_max_def get_by_height_def get_element_def deref_view_def Let_def)

end
