(* ===== verification/Middleware.thy ===== *)
theory Middleware
  imports Platform_Rpc
begin

text \<open>
  The status rewrite of the HTTP layer (\<open>middleware.rs\<close>) and what it makes of the answers of
  the JSON-RPC methods. The envelope around a method's answer is the server library's; the
  locale \<open>jsonrpc_envelope\<close> states what JSON-RPC prescribes of it (a success carries the answer
  as \<open>result\<close>, a failure carries no \<open>result\<close>), and it is interpreted on the standard envelope.
\<close>

section \<open>The rewrite\<close>

definition is_result_null :: "serde \<Rightarrow> bytes \<Rightarrow> bool" where
  "is_result_null S b =
     (case from_slice S b of
        None \<Rightarrow> False
      | Some v \<Rightarrow> jget v ''result'' = Some JNull)"

text \<open>The body is \<open>None\<close> when it cannot be buffered.\<close>

definition not_found_421 :: "serde \<Rightarrow> nat \<Rightarrow> bytes option \<Rightarrow> nat \<times> bytes" where
  "not_found_421 S status body =
     (case body of
        None \<Rightarrow> (status, [])
      | Some b \<Rightarrow> (if is_result_null S b then 421 else status, b))"

section \<open>Envelopes\<close>

text \<open>An answer serialises as its value, a miss as null.\<close>

definition answer_json :: "json option \<Rightarrow> json" where
  "answer_json r = (case r of None \<Rightarrow> JNull | Some v \<Rightarrow> v)"

locale jsonrpc_envelope = serde_laws S
  for S :: serde +
  fixes ok_env :: "json \<Rightarrow> json \<Rightarrow> json" and err_env :: "json \<Rightarrow> 'e \<Rightarrow> json"
  assumes ok_result: "jget (ok_env i v) ''result'' = Some v"
    and err_result: "jget (err_env i e) ''result'' = None"
    and ok_plain: "plain i \<Longrightarrow> plain v \<Longrightarrow> plain (ok_env i v)"
    and err_plain: "plain i \<Longrightarrow> plain (err_env i e)"
begin

lemma rewrite_ok:
  assumes "plain i" "plain v" "to_vec S (ok_env i v) = Some b"
  shows "not_found_421 S 200 (Some b) = (if v = JNull then 421 else 200, b)"
  using parse_print [OF ok_plain [OF assms(1,2)] assms(3)]
  by (simp add: not_found_421_def is_result_null_def ok_result)

lemma rewrite_err:
  assumes "plain i" "to_vec S (err_env i e) = Some b"
  shows "not_found_421 S 200 (Some b) = (200, b)"
  using parse_print [OF err_plain [OF assms(1)] assms(2)]
  by (simp add: not_found_421_def is_result_null_def err_result)

lemma status_exact:
  assumes "plain i" "\<And>v. r = Inr (Some v) \<Longrightarrow> plain v"
    and "to_vec S (case r of Inl e \<Rightarrow> err_env i e | Inr a \<Rightarrow> ok_env i (answer_json a)) = Some b"
  shows "not_found_421 S 200 (Some b) = (if \<exists>a. r = Inr a \<and> answer_json a = JNull then 421 else 200, b)"
proof (cases r)
  case (Inl e)
  with rewrite_err [OF assms(1)] assms(3) show ?thesis by simp
next
  case (Inr a)
  then have "plain (answer_json a)" using assms(2) by (cases a) (simp_all add: answer_json_def)
  from rewrite_ok [OF assms(1) this] Inr assms(3) show ?thesis by simp
qed

end

definition std_ok :: "json \<Rightarrow> json \<Rightarrow> json" where
  "std_ok i v = JObj [(''jsonrpc'', JStr ''2.0''), (''id'', i), (''result'', v)]"

definition std_err :: "json \<Rightarrow> string \<Rightarrow> json" where
  "std_err i msg = JObj [(''jsonrpc'', JStr ''2.0''), (''id'', i),
     (''error'', JObj [(''code'', JNum (NegInt (-32000))), (''message'', JStr msg)])]"

interpretation std: jsonrpc_envelope ref_serde std_ok std_err
  by unfold_locales (simp_all add: std_ok_def std_err_def)

section \<open>Guarantees\<close>

text \<open>
  C36. A request is redirected exactly when it is a miss. Over any JSON-RPC envelope, the answer
  of a method leaves the rewrite with status 421 when the method had nothing (or a null) to
  answer, and with 200 when it answered or failed; the body is passed on as it is.
\<close>

theorem misdirected_iff_miss:
  assumes "jsonrpc_envelope S ok_env err_env" "plain i" "\<forall>v. r = Inr (Some v) \<longrightarrow> plain v"
    and "to_vec S (case r of Inl e \<Rightarrow> err_env i e | Inr a \<Rightarrow> ok_env i (answer_json a)) = Some b"
  shows "not_found_421 S 200 (Some b) = (if r = Inr None \<or> r = Inr (Some JNull) then 421 else 200, b)"
proof -
  have "(\<exists>a. r = Inr a \<and> answer_json a = JNull) \<longleftrightarrow> r = Inr None \<or> r = Inr (Some JNull)"
    by (auto simp: answer_json_def split: option.splits)
  with jsonrpc_envelope.status_exact [OF assms(1,2) _ assms(4)] assms(3) show ?thesis by simp
qed

theorem misdirected_iff_miss_witness:
  "\<exists>b. to_vec ref_serde (std_ok (JNum (PosInt 1)) JNull) = Some b \<and> not_found_421 ref_serde 200 (Some b) = (421, b)"
proof -
  have pl: "plain (JNum (PosInt 1))" by (simp add: u64_max_def)
  then have "plain (std_ok (JNum (PosInt 1)) JNull)" by (simp add: std_ok_def)
  then obtain b where b: "to_vec ref_serde (std_ok (JNum (PosInt 1)) JNull) = Some b"
    using ref.print_total by blast
  with misdirected_iff_miss [OF std.jsonrpc_envelope_axioms pl, of "Inr None" b] show ?thesis
    by (auto simp: answer_json_def)
qed

end
