(* ===== verification/Conn.thy ===== *)
theory Conn
  imports Upstream
begin

text \<open>
  Idle connections (\<open>conn.rs\<close>): the wrapper that closes a connection on which no bytes have
  moved for a while. A poll of the wrapper asks the wrapped stream first; its answer is the
  poll's input, together with the time. A timer is ready when its deadline has come.

  The connection is a state machine over polls with a clock that does not go back; its
  reachable states carry the trace of the polls and their results, and the invariant, by rule
  induction, is that the deadline is the last activity plus the interval.
\<close>

section \<open>The wrapper\<close>

record reaper =
  re_interval :: duration
  re_deadline :: instant

type_synonym idle_timeout = "reaper option"

datatype io_result = Io_ok nat | Io_error string | Io_pending

datatype poll_result = Ready_ok nat | Ready_error string | Poll_pending | Ready_timed_out

datatype io_op = Op_read | Op_write | Op_flush | Op_shutdown

definition idle_new :: "duration option \<Rightarrow> instant \<Rightarrow> idle_timeout" where
  "idle_new idle now = map_option (\<lambda>d. \<lparr>re_interval = d, re_deadline = now + d\<rparr>) idle"

definition reset_timeout :: "instant \<Rightarrow> idle_timeout \<Rightarrow> idle_timeout" where
  "reset_timeout now it = map_option (\<lambda>r. r\<lparr>re_deadline := now + re_interval r\<rparr>) it"

definition idle_expired :: "instant \<Rightarrow> idle_timeout \<Rightarrow> bool" where
  "idle_expired now it = (case it of None \<Rightarrow> False | Some r \<Rightarrow> re_deadline r \<le> now)"

fun poll_read :: "instant \<Rightarrow> io_result \<Rightarrow> idle_timeout \<Rightarrow> poll_result \<times> idle_timeout" where
  "poll_read now (Io_ok n) it = (Ready_ok n, reset_timeout now it)"
| "poll_read now (Io_error e) it = (Ready_error e, it)"
| "poll_read now Io_pending it = (if idle_expired now it then Ready_timed_out else Poll_pending, it)"

definition pass_through :: "io_result \<Rightarrow> poll_result" where
  "pass_through r = (case r of Io_ok n \<Rightarrow> Ready_ok n | Io_error e \<Rightarrow> Ready_error e | Io_pending \<Rightarrow> Poll_pending)"

definition poll_write :: "instant \<Rightarrow> io_result \<Rightarrow> idle_timeout \<Rightarrow> poll_result \<times> idle_timeout" where
  "poll_write now r it =
     (case r of
        Io_ok _ \<Rightarrow> (pass_through r, reset_timeout now it)
      | Io_pending \<Rightarrow> if idle_expired now it then (Ready_timed_out, it) else (pass_through r, it)
      | Io_error _ \<Rightarrow> (pass_through r, it))"

definition poll_flush :: "io_result \<Rightarrow> idle_timeout \<Rightarrow> poll_result \<times> idle_timeout" where
  "poll_flush r it = (pass_through r, it)"

definition poll_shutdown :: "io_result \<Rightarrow> idle_timeout \<Rightarrow> poll_result \<times> idle_timeout" where
  "poll_shutdown r it = (pass_through r, it)"

section \<open>A connection as a state machine\<close>

fun conn_poll :: "io_op \<Rightarrow> instant \<Rightarrow> io_result \<Rightarrow> idle_timeout \<Rightarrow> poll_result \<times> idle_timeout" where
  "conn_poll Op_read now r it = poll_read now r it"
| "conn_poll Op_write now r it = poll_write now r it"
| "conn_poll Op_flush now r it = poll_flush r it"
| "conn_poll Op_shutdown now r it = poll_shutdown r it"

record poll_event =
  pe_at :: instant
  pe_op :: io_op
  pe_inner :: io_result
  pe_out :: poll_result

text \<open>The runs of a connection accepted at \<open>t0\<close>: its trace, the clock and the wrapper's state.\<close>

inductive conn_run ::
  "duration option \<Rightarrow> instant \<Rightarrow> poll_event list \<Rightarrow> instant \<Rightarrow> idle_timeout \<Rightarrow> bool"
  for idle :: "duration option" and t0 :: instant where
  accepted: "conn_run idle t0 [] t0 (idle_new idle t0)"
| polled: "conn_run idle t0 tr t it \<Longrightarrow> t \<le> now \<Longrightarrow> conn_poll op now r it = (out, it') \<Longrightarrow>
     conn_run idle t0 (tr @ [\<lparr>pe_at = now, pe_op = op, pe_inner = r, pe_out = out\<rparr>]) now it'"

text \<open>The time bytes last moved in either direction.\<close>

definition is_activity :: "poll_event \<Rightarrow> bool" where
  "is_activity e \<longleftrightarrow> pe_op e \<in> {Op_read, Op_write} \<and> (\<exists>n. pe_out e = Ready_ok n)"

definition last_active :: "instant \<Rightarrow> poll_event list \<Rightarrow> instant" where
  "last_active t0 tr = foldl (\<lambda>t e. if is_activity e then pe_at e else t) t0 tr"

section \<open>Lemmas\<close>

lemma last_active_snoc [simp]:
  "last_active t0 (tr @ [e]) = (if is_activity e then pe_at e else last_active t0 tr)"
  by (simp add: last_active_def)

lemma conn_poll_activity:
  assumes "conn_poll op now r it = (out, it')"
  shows "it' = (if op \<in> {Op_read, Op_write} \<and> (\<exists>n. out = Ready_ok n) then reset_timeout now it else it)"
  using assms
  by (cases op; cases r)
    (auto simp: poll_write_def poll_flush_def poll_shutdown_def pass_through_def split: if_splits)

lemma conn_poll_timed_out:
  assumes "conn_poll op now r it = (out, it')"
  shows "out = Ready_timed_out \<longleftrightarrow> op \<in> {Op_read, Op_write} \<and> r = Io_pending \<and> idle_expired now it"
  using assms
  by (cases op; cases r)
    (auto simp: poll_write_def poll_flush_def poll_shutdown_def pass_through_def split: if_splits)

lemma conn_run_deadline:
  assumes "conn_run idle t0 tr t it"
  shows "it = map_option (\<lambda>d. \<lparr>re_interval = d, re_deadline = last_active t0 tr + d\<rparr>) idle \<and>
    last_active t0 tr \<le> t"
  using assms
proof induction
  case accepted
  show ?case by (simp add: idle_new_def last_active_def)
next
  case (polled tr t it now op r out it')
  note it' = conn_poll_activity [OF polled.hyps(3)]
  show ?case
    using polled.IH polled.hyps(2) unfolding it'
    by (cases idle) (auto simp: is_activity_def reset_timeout_def)
qed

section \<open>Guarantees\<close>

text \<open>
  C37. Only silent connections are closed, and every silent one that is polled is. In every run
  of a connection, a poll ends it as timed out exactly when idle closing is enabled, the poll
  is a read or a write that has nothing to do, and at least the interval has passed since
  bytes last moved in either direction (or since it was accepted).
\<close>

theorem reaped_iff_idle:
  assumes "conn_run idle t0 (tr @ [e]) now it"
  shows "pe_out e = Ready_timed_out \<longleftrightarrow>
    pe_op e \<in> {Op_read, Op_write} \<and> pe_inner e = Io_pending \<and>
    (\<exists>d. idle = Some d \<and> last_active t0 tr + d \<le> pe_at e)"
  using assms
proof (cases rule: conn_run.cases)
  case (polled tr' t it0 op r out)
  from conn_run_deadline [OF polled(2)] conn_poll_timed_out [OF polled(4)] polled(1) show ?thesis
    by (cases idle) (auto simp: idle_expired_def)
qed simp

theorem reaped_iff_idle_witness:
  "\<exists>it. conn_run (Some 10) 5 [\<lparr>pe_at = 8, pe_op = Op_write, pe_inner = Io_ok 3, pe_out = Ready_ok 3\<rparr>,
      \<lparr>pe_at = 18, pe_op = Op_read, pe_inner = Io_pending, pe_out = Ready_timed_out\<rparr>] 18 it \<and>
    last_active 5 [\<lparr>pe_at = 8, pe_op = Op_write, pe_inner = Io_ok 3, pe_out = Ready_ok 3\<rparr>] + 10 \<le> 18"
proof -
  let ?w = "\<lparr>pe_at = 8, pe_op = Op_write, pe_inner = Io_ok 3, pe_out = Ready_ok 3\<rparr>"
  let ?r = "\<lparr>pe_at = 18, pe_op = Op_read, pe_inner = Io_pending, pe_out = Ready_timed_out\<rparr>"
  have "conn_run (Some 10) 5 ([] @ [?w]) 8 (Some \<lparr>re_interval = 10, re_deadline = 18\<rparr>)"
    by (rule conn_run.polled [OF conn_run.accepted])
      (simp_all add: poll_write_def pass_through_def reset_timeout_def idle_new_def)
  then have run: "conn_run (Some 10) 5 ([?w] @ [?r]) 18 (Some \<lparr>re_interval = 10, re_deadline = 18\<rparr>)"
    by (intro conn_run.polled [where tr = "[?w]" and t = 8 and it = "Some \<lparr>re_interval = 10, re_deadline = 18\<rparr>"])
      (simp_all add: idle_expired_def)
  from reaped_iff_idle [OF run] run show ?thesis by auto
qed

end
