(* ===== verification/Config_Tree.thy ===== *)
theory Config_Tree
  imports Complex_Main Upstream "HOL-Library.Monad_Syntax" "HOL-Library.Sublist"
begin

text \<open>
  The document behind the configuration (\<open>config.rs\<close>): every override layer edits the parsed
  TOML tree before it is read into typed structs. Here are the tree, the write at a dotted path
  (\<open>set_path\<close>) and the crates the module calls, as a record of parameters.

  The contract of a document is the locale \<open>document\<close>: a successful write is read back, and it
  changes nothing at a path that neither extends the written one nor is a prefix of it. Its
  client is a sequence of writes, of which the last one at a path wins; the interpretation is
  \<open>set_path\<close> on the tree.
\<close>

section \<open>Values\<close>

text \<open>A floating-point number by its value; a finite one is a rational.\<close>

datatype f64 = F_nan | F_inf | F_neg_inf | F_fin rat

definition f64_is_finite :: "f64 \<Rightarrow> bool" where
  "f64_is_finite x = (case x of F_fin _ \<Rightarrow> True | _ \<Rightarrow> False)"

definition f64_lt_zero :: "f64 \<Rightarrow> bool" where
  "f64_lt_zero x = (case x of F_neg_inf \<Rightarrow> True | F_fin q \<Rightarrow> q < 0 | _ \<Rightarrow> False)"

definition f64_gt_zero :: "f64 \<Rightarrow> bool" where
  "f64_gt_zero x = (case x of F_inf \<Rightarrow> True | F_fin q \<Rightarrow> 0 < q | _ \<Rightarrow> False)"

text \<open>
  \<open>toml::Value\<close>. A table is an association list with distinct keys; the order of its entries is
  never observed.
\<close>

datatype toml =
    T_str string
  | T_int int
  | T_float f64
  | T_bool bool
  | T_datetime string
  | T_arr "toml list"
  | T_tbl "(string \<times> toml) list"

type_synonym table = "(string \<times> toml) list"

definition i64_max :: int where
  "i64_max = 9223372036854775807"

definition as_table :: "toml \<Rightarrow> table option" where
  "as_table v = (case v of T_tbl t \<Rightarrow> Some t | _ \<Rightarrow> None)"

definition as_bool :: "toml \<Rightarrow> bool option" where
  "as_bool v = (case v of T_bool b \<Rightarrow> Some b | _ \<Rightarrow> None)"

definition tbl_get :: "table \<Rightarrow> string \<Rightarrow> toml option" where
  "tbl_get t k = map_of t k"

fun tbl_insert :: "string \<Rightarrow> toml \<Rightarrow> table \<Rightarrow> table" where
  "tbl_insert k v [] = [(k, v)]"
| "tbl_insert k v (e # t) = (if fst e = k then (k, v) # t else e # tbl_insert k v t)"

section \<open>Libraries\<close>

text \<open>
  What the module takes from outside the repository: reading and printing TOML, how the
  derived deserialisers read a struct from anything but a table and an enumeration from
  anything but a string, the \<open>parse_duration\<close> crate, the socket-address parser (an address is
  its canonical text), and the two floating-point conversions, \<open>as f64\<close> of an integer and
  \<open>Duration::from_secs_f64(rps.recip())\<close>, which panics where it is \<open>None\<close>.
\<close>

record libs =
  l_parse :: "string \<Rightarrow> table option"
  l_pretty :: "table \<Rightarrow> string option"
  l_other_fields :: "string list \<Rightarrow> toml \<Rightarrow> (string \<Rightarrow> toml option) option"
  l_other_variant :: "toml \<Rightarrow> string option"
  l_duration :: "string \<Rightarrow> duration option"
  l_addr :: "string \<Rightarrow> string option"
  l_f64_of_int :: "int \<Rightarrow> f64"
  l_interval :: "f64 \<Rightarrow> duration option"

section \<open>Writing at a path\<close>

datatype tree_error = Empty_key | Not_a_table string | Empty_segment

fun set_path :: "table \<Rightarrow> string list \<Rightarrow> toml \<Rightarrow> tree_error + table" where
  "set_path tbl [] v = Inl Empty_key"
| "set_path tbl [k] v = Inr (tbl_insert k v tbl)"
| "set_path tbl (k # k' # rest) v =
     (case (case tbl_get tbl k of None \<Rightarrow> T_tbl [] | Some e \<Rightarrow> e) of
        T_tbl sub \<Rightarrow>
          and_then (set_path sub (k' # rest) v) (\<lambda>sub'. Inr (tbl_insert k (T_tbl sub') tbl))
      | _ \<Rightarrow> Inl (Not_a_table k))"

fun lookup_path :: "table \<Rightarrow> string list \<Rightarrow> toml option" where
  "lookup_path tbl [] = None"
| "lookup_path tbl [k] = tbl_get tbl k"
| "lookup_path tbl (k # k' # rest) =
     (case tbl_get tbl k of Some (T_tbl sub) \<Rightarrow> lookup_path sub (k' # rest) | _ \<Rightarrow> None)"

text \<open>The dotted key of an override, split into its segments.\<close>

definition key_path :: "string \<Rightarrow> tree_error + string list" where
  "key_path key =
     (let path = split_char (CHR ''.'') key
      in if [] \<in> set path then Inl Empty_segment else Inr path)"

section \<open>Documents\<close>

lemma and_then_assoc: "and_then (and_then m f) g = and_then m (\<lambda>x. and_then (f x) g)"
  by (cases m) auto

text \<open>Two paths are apart when neither is a prefix of the other.\<close>

definition apart :: "string list \<Rightarrow> string list \<Rightarrow> bool" where
  "apart p q \<longleftrightarrow> \<not> prefix p q \<and> \<not> prefix q p"

locale document =
  fixes look :: "'doc \<Rightarrow> string list \<Rightarrow> 'v option"
    and put :: "'doc \<Rightarrow> string list \<Rightarrow> 'v \<Rightarrow> 'e + 'doc"
  assumes put_read: "put d p v = Inr d' \<Longrightarrow> look d' p = Some v"
    and put_frame: "put d p v = Inr d' \<Longrightarrow> apart p q \<Longrightarrow> look d' q = look d q"
begin

fun put_all :: "'doc \<Rightarrow> (string list \<times> 'v) list \<Rightarrow> 'e + 'doc" where
  "put_all d [] = Inr d"
| "put_all d (w # ws) = and_then (put d (fst w) (snd w)) (\<lambda>d'. put_all d' ws)"

lemma put_all_append: "put_all d (ws @ us) = and_then (put_all d ws) (\<lambda>d'. put_all d' us)"
  by (induction ws arbitrary: d) (auto simp: and_then_assoc)

lemma put_all_frame:
  "put_all d ws = Inr d' \<Longrightarrow> \<forall>w\<in>set ws. apart (fst w) q \<Longrightarrow> look d' q = look d q"
  by (induction ws arbitrary: d) (auto simp: and_then_Inr_iff put_frame)

lemma put_all_last:
  assumes "put_all d (ws @ (p, v) # us) = Inr d'" and "\<forall>w\<in>set us. apart (fst w) p"
  shows "look d' p = Some v"
proof -
  from assms(1) obtain d1 d2
    where "put d1 p v = Inr d2" "put_all d2 us = Inr d'"
    by (auto simp: put_all_append and_then_Inr_iff)
  with put_read put_all_frame assms(2) show ?thesis by metis
qed

end

section \<open>The tree is a document\<close>

lemma tbl_get_insert [simp]: "tbl_get (tbl_insert k v t) j = (if j = k then Some v else tbl_get t j)"
  by (induction k v t rule: tbl_insert.induct) (auto simp: tbl_get_def)

lemma lookup_path_Cons:
  "q \<noteq> [] \<Longrightarrow> lookup_path t (k # q) =
     (case tbl_get t k of Some (T_tbl sub) \<Rightarrow> lookup_path sub q | _ \<Rightarrow> None)"
  by (cases q) auto

lemma set_path_read: "set_path t p v = Inr t' \<Longrightarrow> lookup_path t' p = Some v"
  by (induction t p v arbitrary: t' rule: set_path.induct)
    (auto simp: and_then_Inr_iff split: toml.splits)

lemma lookup_path_empty [simp]: "lookup_path [] q = None"
  by (cases "([] :: table, q)" rule: lookup_path.cases) (auto simp: tbl_get_def)

lemma set_path_frame: "set_path t p v = Inr t' \<Longrightarrow> apart p q \<Longrightarrow> lookup_path t' q = lookup_path t q"
proof (induction t p v arbitrary: t' q rule: set_path.induct)
  case (3 tbl k k' rest v)
  then obtain sub sub' where
    s: "(case tbl_get tbl k of None \<Rightarrow> T_tbl [] | Some e \<Rightarrow> e) = T_tbl sub"
       "set_path sub (k' # rest) v = Inr sub'" "t' = tbl_insert k (T_tbl sub') tbl"
    by (auto simp: and_then_Inr_iff split: toml.splits)
  show ?case
  proof (cases q)
    case (Cons j qs)
    show ?thesis
    proof (cases "j = k \<and> qs \<noteq> []")
      case True
      with Cons 3(3) have "apart (k' # rest) qs" by (simp add: apart_def)
      with 3(1)[OF s(1) s(2)] have "lookup_path sub' qs = lookup_path sub qs" .
      with True Cons s show ?thesis
        by (auto simp: lookup_path_Cons split: option.splits)
    next
      case False
      with Cons 3(3) have "j \<noteq> k" by (auto simp: apart_def)
      with Cons s(3) show ?thesis by (cases qs) auto
    qed
  qed simp
next
  case (2 tbl k v)
  then show ?case by (cases "(tbl, q)" rule: lookup_path.cases) (auto simp: apart_def)
qed simp

interpretation tree: document lookup_path set_path
  by unfold_locales (auto intro: set_path_read set_path_frame)

end
