(* ===== verification/Config_Schema.thy ===== *)
theory Config_Schema
  imports Config_Tree
begin

text \<open>
  The schema of the configuration file (\<open>config.rs\<close>): the structs every layer is read into,
  with every key optional, the two scalar types with readers of their own (a duration and a
  backfill floor), and the derived deserialisers, which refuse a key the struct does not have.

  The lemmas say what a successful read of the document means for each key: what a chain's
  table says about it is what the typed struct holds.
\<close>

section \<open>Enumerations\<close>

datatype log_level = Trace | Debug | Info | Warn | Error

fun log_level_as_str :: "log_level \<Rightarrow> string" where
  "log_level_as_str Trace = ''trace''"
| "log_level_as_str Debug = ''debug''"
| "log_level_as_str Info = ''info''"
| "log_level_as_str Warn = ''warn''"
| "log_level_as_str Error = ''error''"

datatype upstream_kind = Avalanchego | Neve

fun upstream_kind_str :: "upstream_kind \<Rightarrow> string" where
  "upstream_kind_str Avalanchego = ''avalanchego''"
| "upstream_kind_str Neve = ''neve''"

definition de_variant :: "libs \<Rightarrow> ('a \<Rightarrow> string) \<Rightarrow> 'a list \<Rightarrow> toml \<Rightarrow> 'a option" where
  "de_variant L name all v =
     do {
       s \<leftarrow> (case v of T_str s \<Rightarrow> Some s | _ \<Rightarrow> l_other_variant L v);
       find (\<lambda>x. name x = s) all
     }"

definition de_network :: "libs \<Rightarrow> toml \<Rightarrow> network option" where
  "de_network L = de_variant L network_as_str [Mainnet, Testnet]"

definition de_log_level :: "libs \<Rightarrow> toml \<Rightarrow> log_level option" where
  "de_log_level L = de_variant L log_level_as_str [Trace, Debug, Info, Warn, Error]"

definition de_upstream_kind :: "libs \<Rightarrow> toml \<Rightarrow> upstream_kind option" where
  "de_upstream_kind L = de_variant L upstream_kind_str [Avalanchego, Neve]"

text \<open>\<open>Chain\<close> as a table key, or as the string it is deserialised from.\<close>

definition chain_of_key :: "string \<Rightarrow> chain option" where
  "chain_of_key s = find (\<lambda>c. chain_as_str c = s) all_chains"

section \<open>Scalars\<close>

definition de_string :: "toml \<Rightarrow> string option" where
  "de_string v = (case v of T_str s \<Rightarrow> Some s | _ \<Rightarrow> None)"

definition de_bool :: "toml \<Rightarrow> bool option" where
  "de_bool v = (case v of T_bool b \<Rightarrow> Some b | _ \<Rightarrow> None)"

text \<open>An unsigned integer with the given maximum, out of a TOML integer.\<close>

definition de_uint :: "nat \<Rightarrow> toml \<Rightarrow> nat option" where
  "de_uint hi v = (case v of T_int i \<Rightarrow> if 0 \<le> i \<and> nat i \<le> hi then Some (nat i) else None | _ \<Rightarrow> None)"

definition u32_max :: nat where
  "u32_max = 4294967295"

definition de_f64 :: "libs \<Rightarrow> toml \<Rightarrow> f64 option" where
  "de_f64 L v = (case v of T_float x \<Rightarrow> Some x | T_int i \<Rightarrow> Some (l_f64_of_int L i) | _ \<Rightarrow> None)"

definition de_addr :: "libs \<Rightarrow> toml \<Rightarrow> string option" where
  "de_addr L v = (case v of T_str s \<Rightarrow> l_addr L s | _ \<Rightarrow> None)"

definition parse_human_duration :: "libs \<Rightarrow> string \<Rightarrow> duration option" where
  "parse_human_duration L s =
     (case parse_u64 s of Some secs \<Rightarrow> Some (from_secs secs) | None \<Rightarrow> l_duration L s)"

definition de_human_duration :: "libs \<Rightarrow> toml \<Rightarrow> duration option" where
  "de_human_duration L v =
     (case v of
        T_str s \<Rightarrow> parse_human_duration L s
      | T_int i \<Rightarrow> if 0 \<le> i then Some (from_secs (nat i)) else None
      | _ \<Rightarrow> None)"

datatype floor_t = Floor_tip | Floor_at u64

fun floor_height :: "floor_t \<Rightarrow> u64 option" where
  "floor_height Floor_tip = None"
| "floor_height (Floor_at h) = Some h"

definition de_floor :: "toml \<Rightarrow> floor_t option" where
  "de_floor v =
     (case v of
        T_str s \<Rightarrow> if eq_ignore_ascii_case s ''tip'' then Some Floor_tip else None
      | T_int i \<Rightarrow> if 0 \<le> i then Some (Floor_at (nat i)) else None
      | _ \<Rightarrow> None)"

section \<open>Structs\<close>

text \<open>
  A struct with \<open>deny_unknown_fields\<close> out of a table: every key must be one of its fields, and
  each field reads its key.
\<close>

definition de_fields :: "libs \<Rightarrow> string list \<Rightarrow> toml \<Rightarrow> (string \<Rightarrow> toml option) option" where
  "de_fields L names v =
     (case v of
        T_tbl t \<Rightarrow> if set (map fst t) \<subseteq> set names then Some (tbl_get t) else None
      | _ \<Rightarrow> l_other_fields L names v)"

definition de_opt :: "(toml \<Rightarrow> 'a option) \<Rightarrow> toml option \<Rightarrow> 'a option option" where
  "de_opt f x = (case x of None \<Rightarrow> Some None | Some v \<Rightarrow> map_option Some (f v))"

record upstream_file =
  uf_kind :: "upstream_kind option"
  uf_base :: "string option"
  uf_token_file :: "string option"
  uf_token_param :: "string option"
  uf_max_rps :: "f64 option"

definition upstream_file_default :: upstream_file where
  "upstream_file_default =
     \<lparr>uf_kind = None, uf_base = None, uf_token_file = None, uf_token_param = None, uf_max_rps = None\<rparr>"

definition de_upstream_file :: "libs \<Rightarrow> toml \<Rightarrow> upstream_file option" where
  "de_upstream_file L v =
     do {
       g \<leftarrow> de_fields L [''kind'', ''base'', ''token_file'', ''token_param'', ''max_rps''] v;
       kind \<leftarrow> de_opt (de_upstream_kind L) (g ''kind'');
       base \<leftarrow> de_opt de_string (g ''base'');
       token_file \<leftarrow> de_opt de_string (g ''token_file'');
       token_param \<leftarrow> de_opt de_string (g ''token_param'');
       max_rps \<leftarrow> de_opt (de_f64 L) (g ''max_rps'');
       Some \<lparr>uf_kind = kind, uf_base = base, uf_token_file = token_file,
              uf_token_param = token_param, uf_max_rps = max_rps\<rparr>
     }"

record server_file =
  sf_addr :: "string option"
  sf_max_connections :: "u32 option"
  sf_idle_timeout :: "duration option"
  sf_max_blocks_per_request :: "u64 option"

definition server_file_default :: server_file where
  "server_file_default =
     \<lparr>sf_addr = None, sf_max_connections = None, sf_idle_timeout = None, sf_max_blocks_per_request = None\<rparr>"

definition de_server_file :: "libs \<Rightarrow> toml \<Rightarrow> server_file option" where
  "de_server_file L v =
     do {
       g \<leftarrow> de_fields L [''addr'', ''max_connections'', ''idle_timeout'', ''max_blocks_per_request''] v;
       addr \<leftarrow> de_opt (de_addr L) (g ''addr'');
       max_connections \<leftarrow> de_opt (de_uint u32_max) (g ''max_connections'');
       idle_timeout \<leftarrow> de_opt (de_human_duration L) (g ''idle_timeout'');
       max_blocks \<leftarrow> de_opt (de_uint u64_max) (g ''max_blocks_per_request'');
       Some \<lparr>sf_addr = addr, sf_max_connections = max_connections,
              sf_idle_timeout = idle_timeout, sf_max_blocks_per_request = max_blocks\<rparr>
     }"

record chain_file =
  cf_enabled :: "bool option"
  cf_rpc_url :: "string option"
  cf_ws_url :: "string option"
  cf_data_dir :: "string option"
  cf_backfill_floor :: "floor_t option"
  cf_request_interval :: "duration option"
  cf_concurrency :: "usize option"
  cf_poll_interval :: "duration option"
  cf_max_wait :: "duration option"
  cf_ws_idle_timeout :: "duration option"
  cf_prefetch_delay_cap :: "duration option"
  cf_ingest_logs :: "bool option"
  cf_join_buffer_cap :: "usize option"
  cf_summary_period :: "duration option"

definition chain_file_default :: chain_file where
  "chain_file_default =
     \<lparr>cf_enabled = None, cf_rpc_url = None, cf_ws_url = None, cf_data_dir = None,
      cf_backfill_floor = None, cf_request_interval = None, cf_concurrency = None,
      cf_poll_interval = None, cf_max_wait = None, cf_ws_idle_timeout = None,
      cf_prefetch_delay_cap = None, cf_ingest_logs = None, cf_join_buffer_cap = None,
      cf_summary_period = None\<rparr>"

definition CHAIN_KEYS :: "string list" where
  "CHAIN_KEYS =
     [''enabled'', ''rpc_url'', ''ws_url'', ''data_dir'', ''backfill_floor'', ''request_interval'',
      ''concurrency'', ''poll_interval'', ''max_wait'', ''ws_idle_timeout'', ''prefetch_delay_cap'',
      ''ingest_logs'', ''join_buffer_cap'', ''summary_period'']"

definition de_chain_file :: "libs \<Rightarrow> toml \<Rightarrow> chain_file option" where
  "de_chain_file L v =
     do {
       g \<leftarrow> de_fields L CHAIN_KEYS v;
       enabled \<leftarrow> de_opt de_bool (g ''enabled'');
       rpc_url \<leftarrow> de_opt de_string (g ''rpc_url'');
       ws_url \<leftarrow> de_opt de_string (g ''ws_url'');
       data_dir \<leftarrow> de_opt de_string (g ''data_dir'');
       backfill_floor \<leftarrow> de_opt de_floor (g ''backfill_floor'');
       request_interval \<leftarrow> de_opt (de_human_duration L) (g ''request_interval'');
       concurrency \<leftarrow> de_opt (de_uint u64_max) (g ''concurrency'');
       poll_interval \<leftarrow> de_opt (de_human_duration L) (g ''poll_interval'');
       max_wait \<leftarrow> de_opt (de_human_duration L) (g ''max_wait'');
       ws_idle_timeout \<leftarrow> de_opt (de_human_duration L) (g ''ws_idle_timeout'');
       prefetch_delay_cap \<leftarrow> de_opt (de_human_duration L) (g ''prefetch_delay_cap'');
       ingest_logs \<leftarrow> de_opt de_bool (g ''ingest_logs'');
       join_buffer_cap \<leftarrow> de_opt (de_uint u64_max) (g ''join_buffer_cap'');
       summary_period \<leftarrow> de_opt (de_human_duration L) (g ''summary_period'');
       Some \<lparr>cf_enabled = enabled, cf_rpc_url = rpc_url, cf_ws_url = ws_url, cf_data_dir = data_dir,
              cf_backfill_floor = backfill_floor, cf_request_interval = request_interval,
              cf_concurrency = concurrency, cf_poll_interval = poll_interval, cf_max_wait = max_wait,
              cf_ws_idle_timeout = ws_idle_timeout, cf_prefetch_delay_cap = prefetch_delay_cap,
              cf_ingest_logs = ingest_logs, cf_join_buffer_cap = join_buffer_cap,
              cf_summary_period = summary_period\<rparr>
     }"

text \<open>\<open>ChainFile::overlay\<close>: a set key of \<open>over\<close> wins; \<open>enabled\<close> is not merged.\<close>

definition or_else :: "'a option \<Rightarrow> 'a option \<Rightarrow> 'a option" where
  "or_else a b = (case a of None \<Rightarrow> b | Some x \<Rightarrow> Some x)"

definition overlay :: "chain_file \<Rightarrow> chain_file \<Rightarrow> chain_file" where
  "overlay this over =
     this\<lparr>cf_rpc_url := or_else (cf_rpc_url over) (cf_rpc_url this),
          cf_ws_url := or_else (cf_ws_url over) (cf_ws_url this),
          cf_data_dir := or_else (cf_data_dir over) (cf_data_dir this),
          cf_backfill_floor := or_else (cf_backfill_floor over) (cf_backfill_floor this),
          cf_request_interval := or_else (cf_request_interval over) (cf_request_interval this),
          cf_concurrency := or_else (cf_concurrency over) (cf_concurrency this),
          cf_poll_interval := or_else (cf_poll_interval over) (cf_poll_interval this),
          cf_max_wait := or_else (cf_max_wait over) (cf_max_wait this),
          cf_ws_idle_timeout := or_else (cf_ws_idle_timeout over) (cf_ws_idle_timeout this),
          cf_prefetch_delay_cap := or_else (cf_prefetch_delay_cap over) (cf_prefetch_delay_cap this),
          cf_ingest_logs := or_else (cf_ingest_logs over) (cf_ingest_logs this),
          cf_join_buffer_cap := or_else (cf_join_buffer_cap over) (cf_join_buffer_cap this),
          cf_summary_period := or_else (cf_summary_period over) (cf_summary_period this)\<rparr>"

text \<open>The per-chain tables: a map from a chain to its table, whose keys must be chains.\<close>

definition de_chains :: "libs \<Rightarrow> toml \<Rightarrow> (chain \<Rightarrow> chain_file option) option" where
  "de_chains L v =
     (case v of
        T_tbl t \<Rightarrow>
          if (\<forall>e\<in>set t. chain_of_key (fst e) \<noteq> None \<and> de_chain_file L (snd e) \<noteq> None)
          then Some (\<lambda>c. Option.bind (tbl_get t (chain_as_str c)) (de_chain_file L))
          else None
      | _ \<Rightarrow> None)"

record config_file =
  fl_network :: "network option"
  fl_log_level :: "log_level option"
  fl_upstream :: "upstream_file option"
  fl_server :: "server_file option"
  fl_defaults :: "chain_file option"
  fl_chains :: "(chain \<Rightarrow> chain_file option) option"

definition deserialize_tree :: "libs \<Rightarrow> table \<Rightarrow> config_file option" where
  "deserialize_tree L tree =
     do {
       g \<leftarrow> de_fields L [''network'', ''log_level'', ''upstream'', ''server'', ''defaults'', ''chains'']
              (T_tbl tree);
       network \<leftarrow> de_opt (de_network L) (g ''network'');
       log_level \<leftarrow> de_opt (de_log_level L) (g ''log_level'');
       upstream \<leftarrow> de_opt (de_upstream_file L) (g ''upstream'');
       server \<leftarrow> de_opt (de_server_file L) (g ''server'');
       defaults \<leftarrow> de_opt (de_chain_file L) (g ''defaults'');
       chains \<leftarrow> de_opt (de_chains L) (g ''chains'');
       Some \<lparr>fl_network = network, fl_log_level = log_level, fl_upstream = upstream,
              fl_server = server, fl_defaults = defaults, fl_chains = chains\<rparr>
     }"

section \<open>What a successful read means\<close>

lemma de_opt_Some_iff:
  "de_opt f x = Some y \<longleftrightarrow> (case x of None \<Rightarrow> y = None | Some v \<Rightarrow> (\<exists>z. f v = Some z \<and> y = Some z))"
  by (auto simp: de_opt_def split: option.splits)

lemma chain_of_key_as_str [simp]: "chain_of_key (chain_as_str c) = Some c"
  by (cases c) (auto simp: chain_of_key_def all_chains_def)

lemma chain_of_key_Some: "chain_of_key s = Some c \<longleftrightarrow> s = chain_as_str c"
  by (cases c) (auto simp: chain_of_key_def all_chains_def split: if_splits)

text \<open>The typed table of a chain, and that of \<open>[chains.<x>]\<close> in a document.\<close>

definition per_chain :: "config_file \<Rightarrow> chain \<Rightarrow> chain_file" where
  "per_chain f c =
     (case Option.bind (fl_chains f) (\<lambda>m. m c) of None \<Rightarrow> chain_file_default | Some cf \<Rightarrow> cf)"

lemma deserialize_chain_table:
  assumes "deserialize_tree L tree = Some f"
    and "lookup_path tree [''chains'', chain_as_str c] = Some v"
  shows "de_chain_file L v = Some (per_chain f c)"
proof -
  from assms(2) obtain t where t: "tbl_get tree ''chains'' = Some (T_tbl t)" "tbl_get t (chain_as_str c) = Some v"
    by (auto split: option.splits toml.splits)
  from assms(1) t(1) obtain m where m: "de_chains L (T_tbl t) = Some m" "fl_chains f = Some m"
    by (auto simp: deserialize_tree_def de_fields_def bind_eq_Some_conv de_opt_Some_iff split: if_splits)
  from t(2) have "(chain_as_str c, v) \<in> set t"
    by (simp add: tbl_get_def map_of_SomeD)
  with m(1) t(2) obtain cf where "de_chain_file L v = Some cf" "m c = Some cf"
    by (force simp: de_chains_def split: if_splits)
  with m(2) show ?thesis by (simp add: per_chain_def)
qed

text \<open>A leaf of a chain's table, read by a key.\<close>

lemma lookup_leaf:
  "lookup_path tree [''chains'', x, k] = Some v \<Longrightarrow>
     \<exists>t. lookup_path tree [''chains'', x] = Some (T_tbl t) \<and> tbl_get t k = Some v"
  by (auto split: option.splits toml.splits)

lemma de_chain_file_read:
  assumes "de_chain_file L (T_tbl t) = Some cf"
  shows "de_opt de_string (tbl_get t ''data_dir'') = Some (cf_data_dir cf)"
    and "de_opt de_floor (tbl_get t ''backfill_floor'') = Some (cf_backfill_floor cf)"
    and "de_opt (de_human_duration L) (tbl_get t ''request_interval'') = Some (cf_request_interval cf)"
    and "de_opt (de_uint u64_max) (tbl_get t ''concurrency'') = Some (cf_concurrency cf)"
    and "de_opt (de_human_duration L) (tbl_get t ''poll_interval'') = Some (cf_poll_interval cf)"
    and "de_opt (de_human_duration L) (tbl_get t ''max_wait'') = Some (cf_max_wait cf)"
    and "de_opt (de_human_duration L) (tbl_get t ''summary_period'') = Some (cf_summary_period cf)"
    and "de_opt de_string (tbl_get t ''rpc_url'') = Some (cf_rpc_url cf)"
    and "de_opt de_string (tbl_get t ''ws_url'') = Some (cf_ws_url cf)"
    and "de_opt (de_human_duration L) (tbl_get t ''ws_idle_timeout'') = Some (cf_ws_idle_timeout cf)"
    and "de_opt (de_human_duration L) (tbl_get t ''prefetch_delay_cap'') = Some (cf_prefetch_delay_cap cf)"
    and "de_opt de_bool (tbl_get t ''ingest_logs'') = Some (cf_ingest_logs cf)"
    and "de_opt (de_uint u64_max) (tbl_get t ''join_buffer_cap'') = Some (cf_join_buffer_cap cf)"
  using assms
  by (auto simp: de_chain_file_def de_fields_def bind_eq_Some_conv split: if_splits)

lemma de_opt_present: "de_opt f (Some v) = Some y \<longleftrightarrow> (\<exists>z. f v = Some z \<and> y = Some z)"
  by (auto simp: de_opt_def)

lemma chain_leaf_read:
  assumes "deserialize_tree L tree = Some f"
    and "lookup_path tree [''chains'', chain_as_str c, k] = Some v"
  obtains t where "tbl_get t k = Some v" "de_chain_file L (T_tbl t) = Some (per_chain f c)"
  using lookup_leaf [OF assms(2)] deserialize_chain_table [OF assms(1)] by blast

end
