(* ===== verification/Config_Layers.thy ===== *)
theory Config_Layers
  imports Config_Schema
begin

text \<open>
  The layers above the configuration file (\<open>config.rs\<close>): which file is read, which chains a run
  serves, and the overrides the environment and the command line write into the document, each
  checked against the schema as it lands.

  The lemmas follow the document through the layers: the layers before \<open>--set\<close> yield some
  document, the \<open>--set\<close> arguments are a sequence of writes to it, and the last write at a path is
  what the typed configuration is read from.
\<close>

section \<open>Text\<close>

text \<open>\<open>str::trim\<close>: the encodings of the characters with the property \<open>White_Space\<close>.\<close>

definition WHITE_SPACE :: "string list" where
  "WHITE_SPACE =
     map (\<lambda>n. [char_of n]) [9, 10, 11, 12, 13, 32 :: nat] @
     map (map char_of) [[194, 133], [194, 160], [225, 154, 128 :: nat]] @
     map (\<lambda>n. [char_of (226 :: nat), char_of (128 :: nat), char_of n]) ([128..<139] @ [168, 169, 175]) @
     map (map char_of) [[226, 129, 159], [227, 128, 128 :: nat]]"

fun strip_any :: "string list \<Rightarrow> string \<Rightarrow> string option" where
  "strip_any [] s = None"
| "strip_any (w # ws) s = (case strip_prefix w s of Some r \<Rightarrow> Some r | None \<Rightarrow> strip_any ws s)"

lemma strip_any_shorter:
  "strip_any ws s = Some r \<Longrightarrow> [] \<notin> set ws \<Longrightarrow> length r < length s"
  by (induction ws s rule: strip_any.induct) (auto simp: strip_prefix_Some_iff split: option.splits)

function trim_front :: "string list \<Rightarrow> string \<Rightarrow> string" where
  "trim_front ws s =
     (if [] \<in> set ws then s
      else case strip_any ws s of None \<Rightarrow> s | Some r \<Rightarrow> trim_front ws r)"
  by pat_completeness auto
termination
  by (relation "measure (\<lambda>(ws, s). length s)") (auto dest: strip_any_shorter)

declare trim_front.simps [simp del]

definition trim_str :: "string \<Rightarrow> string" where
  "trim_str s = rev (trim_front (map rev WHITE_SPACE) (rev (trim_front WHITE_SPACE s)))"

text \<open>Text that begins and ends in a visible ASCII character is its own trimming.\<close>

definition visible :: "char \<Rightarrow> bool" where
  "visible c \<longleftrightarrow> byte_in 33 126 c"

lemma WHITE_SPACE_invisible: "w \<in> set WHITE_SPACE \<Longrightarrow> w \<noteq> [] \<and> \<not> visible (hd w) \<and> \<not> visible (last w)"
proof -
  have "list_all (\<lambda>w. w \<noteq> [] \<and> \<not> visible (hd w) \<and> \<not> visible (last w)) WHITE_SPACE"
    by (auto simp: WHITE_SPACE_def visible_def byte_in_def list_all_iff)
  then show "w \<in> set WHITE_SPACE \<Longrightarrow> w \<noteq> [] \<and> \<not> visible (hd w) \<and> \<not> visible (last w)"
    by (simp add: list_all_iff)
qed

lemma strip_any_None: "\<forall>w\<in>set ws. w \<noteq> [] \<and> hd w \<noteq> c \<Longrightarrow> strip_any ws (c # cs) = None"
proof (induction ws)
  case (Cons w ws)
  then have "strip_prefix w (c # cs) = None" by (cases w) auto
  with Cons show ?case by simp
qed simp

lemma trim_front_visible:
  assumes "\<forall>w\<in>set ws. w \<noteq> [] \<and> \<not> visible (hd w)" "s \<noteq> []" "visible (hd s)"
  shows "trim_front ws s = s"
proof (cases s)
  case (Cons c cs)
  with assms have "strip_any ws s = None" using strip_any_None [of ws c cs] by auto
  then show ?thesis by (subst trim_front.simps) simp
qed (use assms in simp)

lemma trim_str_visible:
  assumes "s \<noteq> []" "visible (hd s)" "visible (last s)"
  shows "trim_str s = s"
proof -
  have "trim_front WHITE_SPACE s = s"
    using assms WHITE_SPACE_invisible by (intro trim_front_visible) auto
  moreover have "trim_front (map rev WHITE_SPACE) (rev s) = rev s"
    using assms WHITE_SPACE_invisible by (intro trim_front_visible) (auto simp: hd_rev)
  ultimately show ?thesis by (simp add: trim_str_def)
qed

text \<open>\<open>str::parse::<bool>\<close>.\<close>

definition parse_bool :: "string \<Rightarrow> bool option" where
  "parse_bool s = (if s = ''true'' then Some True else if s = ''false'' then Some False else None)"

section \<open>Command line and environment\<close>

datatype print_mode = Print_config | Print_example

record cli =
  cl_config :: "string option"
  cl_network :: "network option"
  cl_data_dir :: "string option"
  cl_rpc_addr :: "string option"
  cl_chains :: "chain list"
  cl_mirror_from :: "string option"
  cl_stop_time :: "duration option"
  cl_log_level :: "log_level option"
  cl_ingest_logs :: bool
  cl_set :: "string list"
  cl_print_config :: bool
  cl_print_config_example :: bool
  cl_ws_url :: "string option"
  cl_rpc_url :: "string option"
  cl_p_rpc_url :: "string option"
  cl_p_poll_interval :: "string option"
  cl_request_interval :: "string option"
  cl_p_request_interval :: "string option"
  cl_p_concurrency :: "usize option"
  cl_p_data_dir :: "string option"
  cl_backfill_floor :: "u64 option"
  cl_p_backfill_floor :: "u64 option"
  cl_max_wait :: "string option"
  cl_ws_idle_timeout :: "string option"
  cl_prefetch_delay_cap :: "string option"
  cl_idle_timeout :: "string option"
  cl_max_connections :: "u32 option"
  cl_max_blocks_per_request :: "u64 option"
  cl_summary_period :: "string option"
  cl_join_buffer_cap :: "usize option"

definition DEFAULT_CONFIG_PATH :: string where
  "DEFAULT_CONFIG_PATH = ''/etc/neve/config.toml''"

definition ENV_VARS :: "string list" where
  "ENV_VARS =
     [''NEVE_CONFIG'', ''NEVE_UPSTREAM_TOKEN'', ''NEVE_RPC_URL'', ''NEVE_WS_URL'', ''NEVE_P_RPC_URL'']"

record env =
  en_vars :: "string \<Rightarrow> string option"
  en_default_config :: "string option"

text \<open>The snapshot of the process environment.\<close>

definition env_from_process :: "(string \<Rightarrow> string option) \<Rightarrow> env" where
  "env_from_process var =
     \<lparr>en_vars = (\<lambda>k. if k \<in> set ENV_VARS then var k else None), en_default_config = Some DEFAULT_CONFIG_PATH\<rparr>"

text \<open>The file system: what \<open>read_to_string\<close> gives, and whether a path exists.\<close>

record files =
  fs_read :: "string \<Rightarrow> string option"
  fs_exists :: "string \<Rightarrow> bool"

section \<open>Errors and notices\<close>

datatype origin = From_env string | From_flag string | From_set string string

datatype override_cause = Bad_path tree_error | Schema_violation

datatype cfg_error =
    Read_failed string
  | Bad_file string
  | Chains_not_table
  | Unknown_chain_table
  | Chains_empty
  | All_disabled
  | No_chain
  | Bad_enabled_set chain string
  | Enabled_not_bool chain
  | Idle_chain string chain
  | Override origin override_cause
  | Set_without_value string
  | Out_of_range string
  | Invalid_config
  | Defaults_enabled
  | Same_data_dir chain chain
  | Empty_base
  | Token_file_unreadable string
  | Token_file_empty string
  | Env_token_empty
  | Bad_max_rps f64
  | Interval_panic f64
  | Bad_base string
  | At_least_one string
  | Not_zero string
  | Serialize_failed
  | Render_failed

datatype cap_reason = Cap_configured | Cap_neve | Cap_token | Cap_public

text \<open>The deferred startup lines by what they say.\<close>

datatype notice =
    Deprecated_var string string
  | Deprecated_flag string string
  | Both_token_sources
  | Host_cap "f64 option" cap_reason
  | Off_host chain "string option" "string option"

section \<open>Loading the file\<close>

definition load_tree :: "libs \<Rightarrow> files \<Rightarrow> cli \<Rightarrow> env \<Rightarrow> cfg_error + table" where
  "load_tree L fs cl en =
     (let (path, required) =
            (case (cl_config cl, en_vars en ''NEVE_CONFIG'') of
               (Some p, _) \<Rightarrow> (Some p, True)
             | (None, Some p) \<Rightarrow> (Some p, True)
             | (None, None) \<Rightarrow> (en_default_config en, False))
      in case path of
           None \<Rightarrow> Inr []
         | Some p \<Rightarrow>
             if \<not> required \<and> \<not> fs_exists fs p then Inr []
             else case fs_read fs p of
                    None \<Rightarrow> Inl (Read_failed p)
                  | Some text \<Rightarrow>
                      (case l_parse L text of
                         None \<Rightarrow> Inl (Bad_file p)
                       | Some t \<Rightarrow> if deserialize_tree L t = None then Inl (Bad_file p) else Inr t))"

section \<open>Choosing the chains\<close>

definition enabled_key :: "chain \<Rightarrow> string" where
  "enabled_key c = ''chains.'' @ chain_as_str c @ ''.enabled''"

fun set_enabled_loop :: "chain \<Rightarrow> string list \<Rightarrow> bool option \<Rightarrow> cfg_error + bool option" where
  "set_enabled_loop c [] found = Inr found"
| "set_enabled_loop c (arg # args) found =
     (case split_once (CHR ''='') arg of
        None \<Rightarrow> set_enabled_loop c args found
      | Some (key, raw) \<Rightarrow>
          if trim_str key = enabled_key c
          then (case parse_bool raw of
                  None \<Rightarrow> Inl (Bad_enabled_set c raw)
                | Some b \<Rightarrow> set_enabled_loop c args (Some b))
          else set_enabled_loop c args found)"

definition set_enabled :: "cli \<Rightarrow> chain \<Rightarrow> cfg_error + bool option" where
  "set_enabled cl c = set_enabled_loop c (cl_set cl) None"

definition declared_chains :: "table \<Rightarrow> cfg_error + chain list option" where
  "declared_chains tree =
     (case tbl_get tree ''chains'' of
        None \<Rightarrow> Inr None
      | Some v \<Rightarrow>
          (case as_table v of
             None \<Rightarrow> Inl Chains_not_table
           | Some t \<Rightarrow>
               if \<exists>e\<in>set t. chain_of_key (fst e) = None then Inl Unknown_chain_table
               else Inr (Some (map (\<lambda>e. the (chain_of_key (fst e))) t))))"

definition file_enabled :: "table \<Rightarrow> chain \<Rightarrow> cfg_error + bool" where
  "file_enabled tree c =
     (case Option.bind (Option.bind (Option.bind (Option.bind (tbl_get tree ''chains'') as_table)
             (\<lambda>t. tbl_get t (chain_as_str c))) as_table) (\<lambda>t. tbl_get t ''enabled'') of
        None \<Rightarrow> Inr True
      | Some v \<Rightarrow> ok_or (as_bool v) (Enabled_not_bool c))"

definition chain_on :: "cli \<Rightarrow> table \<Rightarrow> chain list option \<Rightarrow> chain \<Rightarrow> cfg_error + bool" where
  "chain_on cl tree declared c =
     and_then (set_enabled cl c) (\<lambda>e.
       case e of
         Some explicit \<Rightarrow> Inr explicit
       | None \<Rightarrow>
           if (case declared of None \<Rightarrow> True | Some d \<Rightarrow> c \<in> set d)
           then file_enabled tree c else Inr False)"

fun chains_on :: "cli \<Rightarrow> table \<Rightarrow> chain list option \<Rightarrow> chain list \<Rightarrow> cfg_error + chain list" where
  "chains_on cl tree declared [] = Inr []"
| "chains_on cl tree declared (c # cs) =
     and_then (chain_on cl tree declared c) (\<lambda>on.
     and_then (chains_on cl tree declared cs) (\<lambda>rest.
       Inr (if on then c # rest else rest)))"

definition select_chains :: "cli \<Rightarrow> table \<Rightarrow> cfg_error + chain list" where
  "select_chains cl tree =
     (if cl_chains cl \<noteq> [] then map_err (\<lambda>_. No_chain) (normalize_chains (cl_chains cl))
      else and_then (declared_chains tree) (\<lambda>declared.
        if declared = Some [] then Inl Chains_empty
        else and_then (chains_on cl tree declared all_chains) (\<lambda>chains.
          if chains = [] then Inl All_disabled
          else map_err (\<lambda>_. No_chain) (normalize_chains chains))))"

fun reject_sets_for_idle_chains :: "chain list \<Rightarrow> string list \<Rightarrow> cfg_error + unit" where
  "reject_sets_for_idle_chains enabled [] = Inr ()"
| "reject_sets_for_idle_chains enabled (arg # args) =
     (let next = reject_sets_for_idle_chains enabled args
      in case split_once (CHR ''='') arg of
           None \<Rightarrow> next
         | Some (key, _) \<Rightarrow>
             (case split_char (CHR ''.'') (trim_str key) of
                first # name # field # _ \<Rightarrow>
                  if first \<noteq> ''chains'' then next
                  else (case chain_of_key name of
                          None \<Rightarrow> next
                        | Some c \<Rightarrow>
                            if field = ''enabled'' \<or> c \<in> set enabled then next
                            else Inl (Idle_chain key c))
              | _ \<Rightarrow> next))"

section \<open>Overrides\<close>

definition set_checked :: "libs \<Rightarrow> table \<Rightarrow> string \<Rightarrow> toml \<Rightarrow> origin \<Rightarrow> cfg_error + table" where
  "set_checked L tree key v origin =
     and_then (map_err (\<lambda>e. Override origin (Bad_path e))
                 (and_then (key_path key) (\<lambda>path. set_path tree path v))) (\<lambda>tree'.
       if deserialize_tree L tree' = None then Inl (Override origin Schema_violation) else Inr tree')"

fun set_chains :: "libs \<Rightarrow> table \<Rightarrow> string \<Rightarrow> toml \<Rightarrow> origin \<Rightarrow> chain list \<Rightarrow> cfg_error + table" where
  "set_chains L tree name v origin [] = Inr tree"
| "set_chains L tree name v origin (c # cs) =
     and_then (set_checked L tree (''chains.'' @ chain_as_str c @ ''.'' @ name) v origin) (\<lambda>tree'.
       set_chains L tree' name v origin cs)"

definition apply_key :: "libs \<Rightarrow> table \<Rightarrow> string \<Rightarrow> toml \<Rightarrow> origin \<Rightarrow> chain list \<Rightarrow> cfg_error + table" where
  "apply_key L tree key v origin enabled =
     (case strip_prefix ''chains.*.'' key of
        None \<Rightarrow> set_checked L tree key v origin
      | Some name \<Rightarrow> set_chains L tree name v origin enabled)"

definition int_flag :: "nat option \<Rightarrow> string \<Rightarrow> cfg_error + toml option" where
  "int_flag v flag =
     (case v of
        None \<Rightarrow> Inr None
      | Some n \<Rightarrow> if int n \<le> i64_max then Inr (Some (T_int (int n))) else Inl (Out_of_range flag))"

fun env_overrides :: "libs \<Rightarrow> env \<Rightarrow> (string \<times> string) list \<Rightarrow> table \<Rightarrow> notice list \<Rightarrow> cfg_error + table \<times> notice list" where
  "env_overrides L en [] tree ns = Inr (tree, ns)"
| "env_overrides L en ((var, key) # rest) tree ns =
     (case en_vars en var of
        None \<Rightarrow> env_overrides L en rest tree ns
      | Some val \<Rightarrow>
          and_then (set_checked L tree key (T_str val) (From_env var)) (\<lambda>tree'.
            env_overrides L en rest tree' (ns @ [Deprecated_var var key])))"

definition apply_env :: "libs \<Rightarrow> env \<Rightarrow> table \<Rightarrow> notice list \<Rightarrow> cfg_error + table \<times> notice list" where
  "apply_env L en =
     env_overrides L en
       [(''NEVE_RPC_URL'', ''chains.c.rpc_url''), (''NEVE_WS_URL'', ''chains.c.ws_url''),
        (''NEVE_P_RPC_URL'', ''chains.p.rpc_url'')]"

text \<open>The hidden flags, in the order of the table; the integers are converted first.\<close>

definition pending_flags :: "cli \<Rightarrow> cfg_error + (string \<times> string \<times> toml option) list" where
  "pending_flags cl =
     (let text = map_option T_str in
      and_then (int_flag (cl_p_concurrency cl) ''--p-concurrency'') (\<lambda>p_concurrency.
      and_then (int_flag (cl_join_buffer_cap cl) ''--join-buffer-cap'') (\<lambda>join_buffer_cap.
      and_then (int_flag (cl_backfill_floor cl) ''--backfill-floor'') (\<lambda>backfill_floor.
      and_then (int_flag (cl_p_backfill_floor cl) ''--p-backfill-floor'') (\<lambda>p_backfill_floor.
      and_then (int_flag (cl_max_connections cl) ''--max-connections'') (\<lambda>max_connections.
      and_then (int_flag (cl_max_blocks_per_request cl) ''--max-blocks-per-request'') (\<lambda>max_blocks.
      Inr
        [(''--ws-url'', ''chains.c.ws_url'', text (cl_ws_url cl)),
         (''--rpc-url'', ''chains.c.rpc_url'', text (cl_rpc_url cl)),
         (''--p-rpc-url'', ''chains.p.rpc_url'', text (cl_p_rpc_url cl)),
         (''--p-poll-interval'', ''chains.p.poll_interval'', text (cl_p_poll_interval cl)),
         (''--request-interval'', ''chains.c.request_interval'', text (cl_request_interval cl)),
         (''--p-request-interval'', ''chains.p.request_interval'', text (cl_p_request_interval cl)),
         (''--max-wait'', ''chains.*.max_wait'', text (cl_max_wait cl)),
         (''--ws-idle-timeout'', ''chains.*.ws_idle_timeout'', text (cl_ws_idle_timeout cl)),
         (''--prefetch-delay-cap'', ''chains.*.prefetch_delay_cap'', text (cl_prefetch_delay_cap cl)),
         (''--idle-timeout'', ''server.idle_timeout'', text (cl_idle_timeout cl)),
         (''--summary-period'', ''chains.*.summary_period'', text (cl_summary_period cl)),
         (''--p-data-dir'', ''chains.p.data_dir'', text (cl_p_data_dir cl)),
         (''--p-concurrency'', ''chains.p.concurrency'', p_concurrency),
         (''--join-buffer-cap'', ''chains.*.join_buffer_cap'', join_buffer_cap),
         (''--backfill-floor'', ''chains.c.backfill_floor'', backfill_floor),
         (''--p-backfill-floor'', ''chains.p.backfill_floor'', p_backfill_floor),
         (''--max-connections'', ''server.max_connections'', max_connections),
         (''--max-blocks-per-request'', ''server.max_blocks_per_request'', max_blocks)])))))))"

definition suggested_key :: "string \<Rightarrow> string" where
  "suggested_key key =
     (case strip_prefix ''chains.*.'' key of None \<Rightarrow> key | Some name \<Rightarrow> ''defaults.'' @ name)"

fun deprecated_overrides ::
  "libs \<Rightarrow> chain list \<Rightarrow> (string \<times> string \<times> toml option) list \<Rightarrow> table \<Rightarrow> notice list \<Rightarrow> cfg_error + table \<times> notice list" where
  "deprecated_overrides L enabled [] tree ns = Inr (tree, ns)"
| "deprecated_overrides L enabled ((flag, key, val) # rest) tree ns =
     (case val of
        None \<Rightarrow> deprecated_overrides L enabled rest tree ns
      | Some v \<Rightarrow>
          and_then (apply_key L tree key v (From_flag flag) enabled) (\<lambda>tree'.
            deprecated_overrides L enabled rest tree' (ns @ [Deprecated_flag flag (suggested_key key)])))"

definition apply_deprecated_flags ::
  "libs \<Rightarrow> cli \<Rightarrow> chain list \<Rightarrow> table \<Rightarrow> notice list \<Rightarrow> cfg_error + table \<times> notice list" where
  "apply_deprecated_flags L cl enabled tree ns =
     and_then (pending_flags cl) (\<lambda>pending. deprecated_overrides L enabled pending tree ns)"

text \<open>An optional override at a fixed key.\<close>

definition set_if :: "libs \<Rightarrow> string \<Rightarrow> string \<Rightarrow> toml option \<Rightarrow> table \<Rightarrow> cfg_error + table" where
  "set_if L flag key val tree =
     (case val of None \<Rightarrow> Inr tree | Some v \<Rightarrow> set_checked L tree key v (From_flag flag))"

definition apply_flags :: "libs \<Rightarrow> cli \<Rightarrow> chain list \<Rightarrow> table \<Rightarrow> cfg_error + table" where
  "apply_flags L cl enabled tree =
     and_then (set_if L ''--network'' ''network'' (map_option (T_str \<circ> network_as_str) (cl_network cl)) tree) (\<lambda>t1.
     and_then (set_if L ''--log-level'' ''log_level'' (map_option (T_str \<circ> log_level_as_str) (cl_log_level cl)) t1) (\<lambda>t2.
     and_then (set_if L ''--data-dir'' ''defaults.data_dir'' (map_option T_str (cl_data_dir cl)) t2) (\<lambda>t3.
     and_then (set_if L ''--rpc-addr'' ''server.addr'' (map_option T_str (cl_rpc_addr cl)) t3) (\<lambda>t4.
     and_then (if cl_ingest_logs cl
               then apply_key L t4 ''chains.*.ingest_logs'' (T_bool True) (From_flag ''--ingest-logs'') enabled
               else Inr t4) (\<lambda>t5.
     and_then (set_if L ''--mirror-from'' ''upstream.kind''
                 (map_option (\<lambda>_. T_str (upstream_kind_str Neve)) (cl_mirror_from cl)) t5) (\<lambda>t6.
     set_if L ''--mirror-from'' ''upstream.base'' (map_option T_str (cl_mirror_from cl)) t6))))))"

definition parse_scalar :: "libs \<Rightarrow> string \<Rightarrow> toml" where
  "parse_scalar L raw =
     (case Option.bind (l_parse L (''v = '' @ raw)) (\<lambda>t. tbl_get t ''v'') of
        None \<Rightarrow> T_str raw
      | Some v \<Rightarrow> v)"

fun apply_sets :: "libs \<Rightarrow> string list \<Rightarrow> table \<Rightarrow> cfg_error + table" where
  "apply_sets L [] tree = Inr tree"
| "apply_sets L (arg # args) tree =
     (case split_once (CHR ''='') arg of
        None \<Rightarrow> Inl (Set_without_value arg)
      | Some (key, raw) \<Rightarrow>
          and_then (set_checked L tree key (parse_scalar L raw) (From_set key raw)) (apply_sets L args))"

text \<open>The part of \<open>resolve_with\<close> that ends in the typed document.\<close>

definition merge_layers ::
  "libs \<Rightarrow> files \<Rightarrow> cli \<Rightarrow> env \<Rightarrow> cfg_error + config_file \<times> chain list \<times> notice list" where
  "merge_layers L fs cl en =
     and_then (load_tree L fs cl en) (\<lambda>tree.
     and_then (select_chains cl tree) (\<lambda>enabled.
     and_then (reject_sets_for_idle_chains enabled (cl_set cl)) (\<lambda>_.
     and_then (apply_env L en tree []) (\<lambda>(t1, n1).
     and_then (apply_deprecated_flags L cl enabled t1 n1) (\<lambda>(t2, n2).
     and_then (apply_flags L cl enabled t2) (\<lambda>t3.
     and_then (apply_sets L (cl_set cl) t3) (\<lambda>t4.
     and_then (ok_or (deserialize_tree L t4) Invalid_config) (\<lambda>file.
       Inr (file, enabled, n2)))))))))"

end
