(* ===== verification/Config.thy ===== *)
theory Config
  imports Config_Layers
begin

text \<open>
  The resolved configuration (\<open>config.rs\<close>): the built-in defaults of a chain, the upstream with
  its token and its host-wide request cap, the endpoints of every chain, the checks a
  configuration must pass, and the redacted rendering of \<open>--print-config\<close>.

  A \<open>Pacer\<close> behind an \<open>Arc\<close> is represented by its interval: the process has one host pacer, that
  of the upstream, and a chain either shares it or has none.
\<close>

section \<open>Defaults\<close>

record builtin =
  bi_request_interval :: duration
  bi_backfill_floor :: floor_t
  bi_concurrency :: usize
  bi_poll_interval :: duration
  bi_max_wait :: duration
  bi_ws_idle_timeout :: duration
  bi_prefetch_delay_cap :: duration
  bi_ingest_logs :: bool
  bi_join_buffer_cap :: usize
  bi_summary_period :: duration

definition for_chain :: "chain \<Rightarrow> upstream_kind \<Rightarrow> builtin" where
  "for_chain c kind =
     (let mirror = (kind = Neve) in
      \<lparr>bi_request_interval =
         (if mirror then 0
          else case c of Chain_C \<Rightarrow> from_millis 40 | Chain_P \<Rightarrow> from_millis 200),
       bi_backfill_floor = (if \<not> mirror \<and> c = Chain_P then Floor_at 0 else Floor_tip),
       bi_concurrency = 8,
       bi_poll_interval = from_secs 1,
       bi_max_wait = from_secs 3900,
       bi_ws_idle_timeout = from_secs 120,
       bi_prefetch_delay_cap = 0,
       bi_ingest_logs = False,
       bi_join_buffer_cap = 8192,
       bi_summary_period = from_secs 300\<rparr>)"

definition PUBLIC_MAX_RPS :: f64 where
  "PUBLIC_MAX_RPS = F_fin 25"

section \<open>The resolved structs\<close>

datatype token = Token string

fun expose :: "token \<Rightarrow> string" where
  "expose (Token s) = s"

definition show_token :: "token \<Rightarrow> string" where
  "show_token t = ''<redacted>''"

record upstream_cfg =
  up_kind :: upstream_kind
  up_base :: string
  up_token :: "token option"
  up_token_param :: string
  up_token_file :: "string option"
  up_max_rps :: "f64 option"
  up_host_pacer :: "duration option"

record server_cfg =
  sv_addr :: string
  sv_max_connections :: u32
  sv_idle_timeout :: "duration option"
  sv_max_blocks_per_request :: u64

record chain_cfg =
  ch_chain :: chain
  ch_rpc_url :: string
  ch_ws_url :: string
  ch_data_dir :: string
  ch_backfill_floor :: "u64 option"
  ch_request_interval :: duration
  ch_concurrency :: usize
  ch_poll_interval :: duration
  ch_max_wait :: duration
  ch_ws_idle_timeout :: duration
  ch_prefetch_delay_cap :: duration
  ch_ingest_logs :: bool
  ch_join_buffer_cap :: usize
  ch_summary_period :: duration
  ch_subscribe_blocks :: bool
  ch_host_pacer :: "duration option"

record resolved =
  rs_network :: network
  rs_log_level :: log_level
  rs_stop_time :: "duration option"
  rs_upstream :: upstream_cfg
  rs_server :: server_cfg
  rs_chains :: "(chain \<times> chain_cfg) list"
  rs_print :: "print_mode option"
  rs_notices :: "notice list"

section \<open>URLs\<close>

fun contains_str :: "string \<Rightarrow> string \<Rightarrow> bool" where
  "contains_str n [] \<longleftrightarrow> n = []"
| "contains_str n (c # cs) \<longleftrightarrow> strip_prefix n (c # cs) \<noteq> None \<or> contains_str n cs"

definition carries :: "string \<Rightarrow> string option \<Rightarrow> bool" where
  "carries param url =
     (case url of
        None \<Rightarrow> False
      | Some u \<Rightarrow> contains_str (''?'' @ param @ ''='') u \<or> contains_str (''&'' @ param @ ''='') u)"

definition urls_already_carry_a_token :: "config_file \<Rightarrow> bool" where
  "urls_already_carry_a_token f =
     (let param = (case Option.bind (fl_upstream f) uf_token_param of None \<Rightarrow> ''token'' | Some p \<Rightarrow> p);
          has = (\<lambda>c. carries param (cf_rpc_url c) \<or> carries param (cf_ws_url c))
      in (case fl_defaults f of None \<Rightarrow> False | Some d \<Rightarrow> has d) \<or>
         (case fl_chains f of
            None \<Rightarrow> False
          | Some m \<Rightarrow> list_ex (\<lambda>c. case m c of None \<Rightarrow> False | Some cf \<Rightarrow> has cf) all_chains) \<or>
         (case fl_upstream f of None \<Rightarrow> False | Some u \<Rightarrow> carries param (uf_base u)))"

definition derive_ws_url :: "string \<Rightarrow> cfg_error + string" where
  "derive_ws_url base =
     (case strip_prefix ''https://'' base of
        Some rest \<Rightarrow> Inr (''wss://'' @ rest)
      | None \<Rightarrow>
          (case strip_prefix ''http://'' base of
             Some rest \<Rightarrow> Inr (''ws://'' @ rest)
           | None \<Rightarrow>
               if strip_prefix ''ws://'' base \<noteq> None \<or> strip_prefix ''wss://'' base \<noteq> None
               then Inr base else Inl (Bad_base base)))"

definition derive_endpoints :: "upstream_kind \<Rightarrow> string \<Rightarrow> chain \<Rightarrow> cfg_error + string \<times> string" where
  "derive_endpoints kind base c =
     (case kind of
        Avalanchego \<Rightarrow>
          and_then (case ws_path c of
                      Some path \<Rightarrow> and_then (derive_ws_url base) (\<lambda>w. Inr (w @ path))
                    | None \<Rightarrow> Inr []) (\<lambda>ws. Inr (base @ rpc_path c, ws))
      | Neve \<Rightarrow> and_then (derive_ws_url base) (\<lambda>ws. Inr (base, ws)))"

fun split_once_str :: "string \<Rightarrow> string \<Rightarrow> (string \<times> string) option" where
  "split_once_str p [] = (if p = [] then Some ([], []) else None)"
| "split_once_str p (c # cs) =
     (case strip_prefix p (c # cs) of
        Some r \<Rightarrow> Some ([], r)
      | None \<Rightarrow> (case split_once_str p cs of None \<Rightarrow> None | Some (a, b) \<Rightarrow> Some (c # a, b)))"

definition authority :: "string \<Rightarrow> string option" where
  "authority url =
     (let rest = dropWhile (\<lambda>c. c = CHR ''/'')
                   (case split_once_str ''://'' url of None \<Rightarrow> url | Some (_, r) \<Rightarrow> r);
          auth = takeWhile (\<lambda>c. c \<notin> {CHR ''/'', CHR ''?'', CHR ''#''}) rest
      in if auth = [] then None else Some auth)"

definition with_token :: "string \<Rightarrow> string \<Rightarrow> token \<Rightarrow> string" where
  "with_token url param token =
     (if url = [] then []
      else let val = expose token in
        case split_once (CHR ''?'') url of
          None \<Rightarrow> url @ ''?'' @ param @ ''='' @ val
        | Some (_, query) \<Rightarrow>
            if query = [] then url @ param @ ''='' @ val
            else if list_ex (\<lambda>pair. hd (split_char (CHR ''='') pair) = param) (split_char (CHR ''&'') query)
            then url
            else url @ ''&'' @ param @ ''='' @ val)"

text \<open>
  \<open>Path\<close> equality: the components, with repeated and trailing separators and inner dots left out.
\<close>

definition path_components :: "string \<Rightarrow> bool \<times> string list" where
  "path_components s =
     (case split_char (CHR ''/'') s of
        [] \<Rightarrow> (False, [])
      | w # ws \<Rightarrow>
          (s \<noteq> [] \<and> hd s = CHR ''/'',
           (if w = [] then [] else [w]) @ filter (\<lambda>x. x \<noteq> [] \<and> x \<noteq> ''.'') ws))"

definition path_eq :: "string \<Rightarrow> string \<Rightarrow> bool" where
  "path_eq a b \<longleftrightarrow> path_components a = path_components b"

section \<open>Resolution\<close>

definition unwrap_or :: "'a option \<Rightarrow> 'a \<Rightarrow> 'a" where
  "unwrap_or m d = (case m of None \<Rightarrow> d | Some x \<Rightarrow> x)"

definition read_token_file :: "files \<Rightarrow> string \<Rightarrow> cfg_error + token" where
  "read_token_file fs path =
     (case fs_read fs path of
        None \<Rightarrow> Inl (Token_file_unreadable path)
      | Some text \<Rightarrow>
          (let t = trim_str text in if t = [] then Inl (Token_file_empty path) else Inr (Token t)))"

definition resolve_token :: "files \<Rightarrow> string option \<Rightarrow> string option \<Rightarrow> cfg_error + token option" where
  "resolve_token fs token_file env_token =
     (case (token_file, env_token) of
        (Some path, _) \<Rightarrow> and_then (read_token_file fs path) (\<lambda>t. Inr (Some t))
      | (None, Some v) \<Rightarrow>
          (let t = trim_str v in if t = [] then Inl Env_token_empty else Inr (Some (Token t)))
      | (None, None) \<Rightarrow> Inr None)"

definition resolve_cap ::
  "f64 option \<Rightarrow> upstream_kind \<Rightarrow> bool \<Rightarrow> cfg_error + f64 option \<times> cap_reason" where
  "resolve_cap max_rps kind tokened =
     (case max_rps of
        Some rps \<Rightarrow>
          if \<not> f64_is_finite rps \<or> f64_lt_zero rps then Inl (Bad_max_rps rps)
          else Inr (if f64_gt_zero rps then Some rps else None, Cap_configured)
      | None \<Rightarrow>
          (case kind of
             Neve \<Rightarrow> Inr (None, Cap_neve)
           | Avalanchego \<Rightarrow>
               if tokened then Inr (None, Cap_token) else Inr (Some PUBLIC_MAX_RPS, Cap_public)))"

text \<open>The interval of the host pacer.\<close>

definition host_interval :: "libs \<Rightarrow> f64 option \<Rightarrow> cfg_error + duration option" where
  "host_interval L max_rps =
     (case max_rps of
        None \<Rightarrow> Inr None
      | Some rps \<Rightarrow> and_then (ok_or (l_interval L rps) (Interval_panic rps)) (\<lambda>i. Inr (Some i)))"

definition resolve_upstream ::
  "libs \<Rightarrow> files \<Rightarrow> env \<Rightarrow> upstream_file option \<Rightarrow> network \<Rightarrow> bool \<Rightarrow> notice list \<Rightarrow>
   cfg_error + upstream_cfg \<times> notice list" where
  "resolve_upstream L fs en uf net pre_tokened ns =
     (let file = unwrap_or uf upstream_file_default;
          kind = unwrap_or (uf_kind file) Avalanchego;
          base = trim_end_char (CHR ''/'') (unwrap_or (uf_base file) (default_base_url net));
          token_file = uf_token_file file;
          env_token = en_vars en ''NEVE_UPSTREAM_TOKEN'';
          n1 = (if token_file \<noteq> None \<and> env_token \<noteq> None then ns @ [Both_token_sources] else ns)
      in if base = [] then Inl Empty_base
         else and_then (resolve_token fs token_file env_token) (\<lambda>token.
              and_then (resolve_cap (uf_max_rps file) kind (token \<noteq> None \<or> pre_tokened)) (\<lambda>(max_rps, why).
              and_then (host_interval L max_rps) (\<lambda>host_pacer.
              Inr (\<lparr>up_kind = kind, up_base = base, up_token = token,
                    up_token_param = unwrap_or (uf_token_param file) ''token'',
                    up_token_file = token_file, up_max_rps = max_rps, up_host_pacer = host_pacer\<rparr>,
                   n1 @ [Host_cap max_rps why])))))"

definition resolve_server :: "server_file option \<Rightarrow> cfg_error + server_cfg" where
  "resolve_server sf =
     (let file = unwrap_or sf server_file_default;
          max_connections = unwrap_or (sf_max_connections file) 1024;
          max_blocks = unwrap_or (sf_max_blocks_per_request file) 10000;
          idle = unwrap_or (sf_idle_timeout file) (from_secs 60)
      in if max_connections = 0 then Inl (At_least_one ''server.max_connections'')
         else if max_blocks = 0 then Inl (At_least_one ''server.max_blocks_per_request'')
         else Inr \<lparr>sv_addr = unwrap_or (sf_addr file) ''127.0.0.1:8545'',
                   sv_max_connections = max_connections,
                   sv_idle_timeout = (if 0 < idle then Some idle else None),
                   sv_max_blocks_per_request = max_blocks\<rparr>)"

definition host_pacer_for ::
  "chain \<Rightarrow> upstream_cfg \<Rightarrow> string \<Rightarrow> notice list \<Rightarrow> duration option \<times> notice list" where
  "host_pacer_for c up rpc_url ns =
     (case up_host_pacer up of
        None \<Rightarrow> (None, ns)
      | Some pacer \<Rightarrow>
          (let host = authority (up_base up); mine = authority rpc_url
           in if (case (mine, host) of (Some a, Some b) \<Rightarrow> eq_ignore_ascii_case a b | _ \<Rightarrow> False)
              then (Some pacer, ns)
              else (None, ns @ [Off_host c mine host])))"

definition chain_key :: "chain \<Rightarrow> string \<Rightarrow> string" where
  "chain_key c name = ''chains.'' @ chain_as_str c @ ''.'' @ name"

definition resolve_chain ::
  "chain \<Rightarrow> upstream_cfg \<Rightarrow> chain_file \<Rightarrow> chain_file \<Rightarrow> string \<Rightarrow> notice list \<Rightarrow>
   cfg_error + chain_cfg \<times> notice list" where
  "resolve_chain c up defaults per base_dir ns =
     (let b = for_chain c (up_kind up);
          merged = overlay (overlay chain_file_default defaults) per
      in and_then (derive_endpoints (up_kind up) (up_base up) c) (\<lambda>(derived_rpc, derived_ws).
         let rpc = unwrap_or (cf_rpc_url merged) derived_rpc;
             ws = unwrap_or (cf_ws_url merged) derived_ws;
             (host_pacer, ns') = host_pacer_for c up rpc ns;
             tok = (\<lambda>u. case up_token up of None \<Rightarrow> u | Some t \<Rightarrow> with_token u (up_token_param up) t);
             concurrency = unwrap_or (cf_concurrency merged) (bi_concurrency b);
             join_buffer_cap = unwrap_or (cf_join_buffer_cap merged) (bi_join_buffer_cap b);
             summary_period = unwrap_or (cf_summary_period merged) (bi_summary_period b);
             poll_interval = unwrap_or (cf_poll_interval merged) (bi_poll_interval b)
         in if concurrency = 0 then Inl (At_least_one (chain_key c ''concurrency''))
            else if join_buffer_cap = 0 then Inl (At_least_one (chain_key c ''join_buffer_cap''))
            else if summary_period = 0 then Inl (Not_zero (chain_key c ''summary_period''))
            else if poll_interval = 0 then Inl (Not_zero (chain_key c ''poll_interval''))
            else Inr
              (\<lparr>ch_chain = c, ch_rpc_url = tok rpc, ch_ws_url = tok ws,
                ch_data_dir = unwrap_or (cf_data_dir per) (chain_data_dir c base_dir),
                ch_backfill_floor = floor_height (unwrap_or (cf_backfill_floor merged) (bi_backfill_floor b)),
                ch_request_interval = unwrap_or (cf_request_interval merged) (bi_request_interval b),
                ch_concurrency = concurrency, ch_poll_interval = poll_interval,
                ch_max_wait = unwrap_or (cf_max_wait merged) (bi_max_wait b),
                ch_ws_idle_timeout = unwrap_or (cf_ws_idle_timeout merged) (bi_ws_idle_timeout b),
                ch_prefetch_delay_cap = unwrap_or (cf_prefetch_delay_cap merged) (bi_prefetch_delay_cap b),
                ch_ingest_logs = (unwrap_or (cf_ingest_logs merged) (bi_ingest_logs b) \<and> c = Chain_C),
                ch_join_buffer_cap = join_buffer_cap, ch_summary_period = summary_period,
                ch_subscribe_blocks = (up_kind up = Neve), ch_host_pacer = host_pacer\<rparr>, ns')))"

fun resolve_chains ::
  "config_file \<Rightarrow> upstream_cfg \<Rightarrow> chain_file \<Rightarrow> string \<Rightarrow> chain list \<Rightarrow> notice list \<Rightarrow>
   cfg_error + (chain \<times> chain_cfg) list \<times> notice list" where
  "resolve_chains f up defaults base_dir [] ns = Inr ([], ns)"
| "resolve_chains f up defaults base_dir (c # cs) ns =
     and_then (resolve_chain c up defaults (per_chain f c) base_dir ns) (\<lambda>(cfg, ns').
     and_then (resolve_chains f up defaults base_dir cs ns') (\<lambda>(rest, ns'').
       Inr ((c, cfg) # rest, ns'')))"

definition shared_dir :: "(chain \<times> chain_cfg) list \<Rightarrow> (chain \<times> chain) option" where
  "shared_dir cs =
     map_option (\<lambda>(e, o'). (fst e, fst o'))
       (find (\<lambda>(e, o'). fst o' \<noteq> fst e \<and> path_eq (ch_data_dir (snd o')) (ch_data_dir (snd e)))
         (concat (map (\<lambda>e. map (Pair e) cs) cs)))"

definition build ::
  "libs \<Rightarrow> files \<Rightarrow> cli \<Rightarrow> env \<Rightarrow> config_file \<Rightarrow> chain list \<Rightarrow> notice list \<Rightarrow> cfg_error + resolved" where
  "build L fs cl en f enabled ns =
     (let net = unwrap_or (fl_network f) Mainnet in
      and_then (resolve_upstream L fs en (fl_upstream f) net (urls_already_carry_a_token f) ns) (\<lambda>(up, n1).
      and_then (resolve_server (fl_server f)) (\<lambda>srv.
      let defaults = unwrap_or (fl_defaults f) chain_file_default
      in if cf_enabled defaults \<noteq> None then Inl Defaults_enabled
         else let base_dir = unwrap_or (cf_data_dir defaults) (default_data_dir net) in
           and_then (resolve_chains f up defaults base_dir enabled n1) (\<lambda>(cs, n2).
           case shared_dir cs of
             Some (a, b) \<Rightarrow> Inl (Same_data_dir a b)
           | None \<Rightarrow>
               Inr \<lparr>rs_network = net, rs_log_level = unwrap_or (fl_log_level f) Info,
                    rs_stop_time = cl_stop_time cl, rs_upstream = up, rs_server = srv, rs_chains = cs,
                    rs_print = (if cl_print_config_example cl then Some Print_example
                                else if cl_print_config cl then Some Print_config else None),
                    rs_notices = n2\<rparr>))))"

definition resolve_with :: "libs \<Rightarrow> files \<Rightarrow> cli \<Rightarrow> env \<Rightarrow> cfg_error + resolved" where
  "resolve_with L fs cl en =
     and_then (merge_layers L fs cl en) (\<lambda>(f, enabled, ns). build L fs cl en f enabled ns)"

section \<open>Rendering\<close>

definition fmt_duration :: "duration \<Rightarrow> string" where
  "fmt_duration d =
     (let millis = d div 1000000; secs = d div nanos_per_sec
      in if millis = 0 then ''0s''
         else if millis mod 1000 \<noteq> 0 then to_dec millis @ ''ms''
         else if secs mod 3600 = 0 then to_dec (secs div 3600) @ ''h''
         else if secs mod 60 = 0 then to_dec (secs div 60) @ ''m''
         else to_dec secs @ ''s'')"

text \<open>An unsigned integer as a TOML value; TOML integers are signed.\<close>

definition uint_value :: "nat \<Rightarrow> cfg_error + toml" where
  "uint_value n = (if int n \<le> i64_max then Inr (T_int (int n)) else Inl Serialize_failed)"

text \<open>A struct as a table: absent options are skipped, and a field that fails fails the struct.\<close>

fun fields_value :: "(string \<times> (cfg_error + toml) option) list \<Rightarrow> cfg_error + table" where
  "fields_value [] = Inr []"
| "fields_value ((k, v) # fs) =
     (case v of
        None \<Rightarrow> fields_value fs
      | Some r \<Rightarrow> and_then r (\<lambda>x. and_then (fields_value fs) (\<lambda>t. Inr ((k, x) # t))))"

definition redacted_upstream :: "upstream_cfg \<Rightarrow> cfg_error + table" where
  "redacted_upstream up =
     fields_value
       [(''kind'', Some (Inr (T_str (upstream_kind_str (up_kind up))))),
        (''base'', Some (Inr (T_str (redact_url (up_base up))))),
        (''token_param'', Some (Inr (T_str (up_token_param up)))),
        (''max_rps'', map_option (\<lambda>x. Inr (T_float x)) (up_max_rps up)),
        (''token_file'', map_option (\<lambda>p. Inr (T_str p)) (up_token_file up)),
        (''token'', if up_token up \<noteq> None \<and> up_token_file up = None
                   then Some (Inr (T_str ''<redacted, from NEVE_UPSTREAM_TOKEN>'')) else None)]"

definition redacted_server :: "server_cfg \<Rightarrow> cfg_error + table" where
  "redacted_server srv =
     fields_value
       [(''addr'', Some (Inr (T_str (sv_addr srv)))),
        (''max_connections'', Some (uint_value (sv_max_connections srv))),
        (''idle_timeout'', Some (Inr (T_str (fmt_duration (unwrap_or (sv_idle_timeout srv) 0))))),
        (''max_blocks_per_request'', Some (uint_value (sv_max_blocks_per_request srv)))]"

definition redacted_chain :: "chain_cfg \<Rightarrow> cfg_error + table" where
  "redacted_chain cfg =
     fields_value
       [(''rpc_url'', Some (Inr (T_str (redact_url (ch_rpc_url cfg))))),
        (''ws_url'', Some (Inr (T_str (redact_url (ch_ws_url cfg))))),
        (''data_dir'', Some (Inr (T_str (ch_data_dir cfg)))),
        (''backfill_floor'',
           Some (Inr (case ch_backfill_floor cfg of
                        None \<Rightarrow> T_str ''tip''
                      | Some h \<Rightarrow> T_int (if int h \<le> i64_max then int h else i64_max)))),
        (''request_interval'', Some (Inr (T_str (fmt_duration (ch_request_interval cfg))))),
        (''concurrency'', Some (uint_value (ch_concurrency cfg))),
        (''poll_interval'', Some (Inr (T_str (fmt_duration (ch_poll_interval cfg))))),
        (''max_wait'', Some (Inr (T_str (fmt_duration (ch_max_wait cfg))))),
        (''ws_idle_timeout'', Some (Inr (T_str (fmt_duration (ch_ws_idle_timeout cfg))))),
        (''prefetch_delay_cap'', Some (Inr (T_str (fmt_duration (ch_prefetch_delay_cap cfg))))),
        (''ingest_logs'', Some (Inr (T_bool (ch_ingest_logs cfg)))),
        (''join_buffer_cap'', Some (uint_value (ch_join_buffer_cap cfg))),
        (''summary_period'', Some (Inr (T_str (fmt_duration (ch_summary_period cfg)))))]"

fun redacted_chains :: "(chain \<times> chain_cfg) list \<Rightarrow> cfg_error + table" where
  "redacted_chains [] = Inr []"
| "redacted_chains ((c, cfg) # cs) =
     and_then (redacted_chain cfg) (\<lambda>t.
     and_then (redacted_chains cs) (\<lambda>ts. Inr ((chain_as_str c, T_tbl t) # ts)))"

definition redacted_table :: "resolved \<Rightarrow> cfg_error + table" where
  "redacted_table r =
     and_then (redacted_upstream (rs_upstream r)) (\<lambda>up.
     and_then (redacted_server (rs_server r)) (\<lambda>srv.
     and_then (redacted_chains (rs_chains r)) (\<lambda>cs.
       Inr [(''network'', T_str (network_as_str (rs_network r))),
            (''log_level'', T_str (log_level_as_str (rs_log_level r))),
            (''upstream'', T_tbl up), (''server'', T_tbl srv), (''chains'', T_tbl cs)])))"

lemma strip_prefix_shorter: "strip_prefix p (c # cs) = Some r \<Longrightarrow> p \<noteq> [] \<Longrightarrow> length r < Suc (length cs)"
  by (cases p) (auto simp: strip_prefix_Some_iff split: if_splits)

text \<open>\<open>str::replace\<close>, left to right without overlap.\<close>

function replace_str :: "string \<Rightarrow> string \<Rightarrow> string \<Rightarrow> string" where
  "replace_str p q [] = []"
| "replace_str p q (c # cs) =
     (if p = [] then c # cs
      else case strip_prefix p (c # cs) of
        Some r \<Rightarrow> q @ replace_str p q r
      | None \<Rightarrow> c # replace_str p q cs)"
  by pat_completeness auto
termination
  by (relation "measure (\<lambda>(p, q, s). length s)") (auto dest: strip_prefix_shorter)

definition to_redacted_toml :: "libs \<Rightarrow> resolved \<Rightarrow> cfg_error + string" where
  "to_redacted_toml L r =
     and_then (redacted_table r) (\<lambda>t.
     and_then (ok_or (l_pretty L t) Render_failed) (\<lambda>rendered.
       Inr (replace_str (char_of (10 :: nat) # ''token = '' @ [char_of (34 :: nat)])
              (char_of (10 :: nat) # ''#token = '' @ [char_of (34 :: nat)]) rendered)))"

text \<open>
  The hand-written \<open>Debug\<close> of the two structs that hold a credential: the fields they print. Of a chain's
  host pacer the code prints only whether there is one; that the whole of it is kept here makes what is shown to
  be free of the token more.
\<close>

definition debug_upstream :: "upstream_cfg \<Rightarrow>
    upstream_kind \<times> string \<times> string option \<times> string \<times> string option \<times> f64 option \<times> duration option" where
  "debug_upstream up =
     (up_kind up, redact_url (up_base up), map_option show_token (up_token up), up_token_param up,
      up_token_file up, up_max_rps up, up_host_pacer up)"

definition debug_chain :: "chain_cfg \<Rightarrow> chain_cfg" where
  "debug_chain cfg = cfg\<lparr>ch_rpc_url := redact_url (ch_rpc_url cfg), ch_ws_url := redact_url (ch_ws_url cfg)\<rparr>"

end
