(* ===== verification/Config_Guarantees.thy ===== *)
theory Config_Guarantees
  imports Config
begin

text \<open>
  What the configuration guarantees: the token never shows, a resolved configuration is well
  formed, an accepted \<open>--set\<close> is in effect, the served chains are those selected, and the
  rendering of durations.
\<close>

section \<open>Relational reasoning on results\<close>

lemma and_then_rel:
  assumes "rel_sum (=) R m m'" and "\<And>x y. R x y \<Longrightarrow> rel_sum (=) S (f x) (g y)"
  shows "rel_sum (=) S (and_then m f) (and_then m' g)"
  using assms by (cases m; cases m') auto

lemma rel_sum_if:
  "(b \<Longrightarrow> rel_sum P Q x x') \<Longrightarrow> (\<not> b \<Longrightarrow> rel_sum P Q y y') \<Longrightarrow>
     rel_sum P Q (if b then x else y) (if b then x' else y')"
  by simp

lemma rel_sum_refl: "(\<And>x. R x x) \<Longrightarrow> rel_sum (=) R m m"
  by (cases m) auto

section \<open>The token stays hidden\<close>

lemma redact_url_idem [simp]: "redact_url (redact_url u) = redact_url u"
proof (cases "split_once (CHR ''?'') u")
  case (Some ab)
  then have "CHR ''?'' \<notin> set (fst ab)" by (cases ab) (auto dest: split_once_Some)
  with Some show ?thesis
    using split_once_append [of "CHR ''?''" "fst ab" "''<redacted>''"]
    by (auto simp: redact_url_def split: prod.splits)
qed (simp add: redact_url_def)

lemma redact_url_prefix: "CHR ''?'' \<in> set u \<Longrightarrow> redact_url (u @ v) = redact_url u"
proof -
  assume "CHR ''?'' \<in> set u"
  then obtain a b where u: "split_once (CHR ''?'') u = Some (a, b)"
    using split_once_None_iff by fastforce
  then have "u = a @ CHR ''?'' # b" "CHR ''?'' \<notin> set a" using split_once_Some by auto
  with u show ?thesis by (simp add: redact_url_def split_once_append)
qed

text \<open>What is printed of a tokened URL is the URL up to its query.\<close>

lemma redact_with_token: "redact_url (with_token u p t) = redact_url (with_token u p t')"
proof (cases "split_once (CHR ''?'') u")
  case None
  then have "CHR ''?'' \<notin> set u" by (simp add: split_once_None_iff)
  with None show ?thesis by (simp add: with_token_def redact_url_def split_once_append)
next
  case (Some ab)
  then have "CHR ''?'' \<in> set u" using split_once_None_iff [of "CHR ''?''" u] by simp
  with Some show ?thesis
    by (cases ab) (auto simp: with_token_def Let_def redact_url_prefix)
qed

text \<open>Two upstreams that differ in the token only.\<close>

definition up_sim :: "upstream_cfg \<Rightarrow> upstream_cfg \<Rightarrow> bool" where
  "up_sim u u' \<longleftrightarrow> u' = u\<lparr>up_token := up_token u'\<rparr> \<and> (up_token u = None \<longleftrightarrow> up_token u' = None)"

lemma up_simD:
  assumes "up_sim u u'"
  shows "up_kind u' = up_kind u" "up_base u' = up_base u" "up_token_param u' = up_token_param u"
    "up_token_file u' = up_token_file u" "up_max_rps u' = up_max_rps u"
    "up_host_pacer u' = up_host_pacer u" "up_token u' = None \<longleftrightarrow> up_token u = None"
  using assms by (cases u; cases u'; auto simp: up_sim_def)+

text \<open>Two sources of a token that are equally usable: both absent, both blank, or neither.\<close>

definition equally_usable :: "string option \<Rightarrow> string option \<Rightarrow> bool" where
  "equally_usable s s' \<longleftrightarrow>
     (s = None \<longleftrightarrow> s' = None) \<and>
     (s \<noteq> None \<longrightarrow> (trim_str (the s) = [] \<longleftrightarrow> trim_str (the s') = []))"

lemma resolve_token_sim:
  assumes "\<And>p. tf = Some p \<Longrightarrow> equally_usable (fs_read fs p) (fs_read fs' p)"
    and "equally_usable e e'"
  shows "rel_sum (=) (\<lambda>a b. a = None \<longleftrightarrow> b = None) (resolve_token fs tf e) (resolve_token fs' tf e')"
proof (cases tf)
  case (Some p)
  with assms(1) [of p] show ?thesis
    by (cases "fs_read fs p"; cases "fs_read fs' p")
       (auto simp: resolve_token_def read_token_file_def equally_usable_def Let_def)
next
  case None
  with assms(2) show ?thesis
    by (cases e; cases e') (auto simp: resolve_token_def equally_usable_def Let_def)
qed

text \<open>Two environments of one run that differ in the value of the token only.\<close>

definition differ_in_token :: "config_file \<Rightarrow> files \<Rightarrow> env \<Rightarrow> files \<Rightarrow> env \<Rightarrow> bool" where
  "differ_in_token f fs en fs' en' \<longleftrightarrow>
     (\<forall>p. Option.bind (fl_upstream f) uf_token_file = Some p \<longrightarrow>
        equally_usable (fs_read fs p) (fs_read fs' p)) \<and>
     equally_usable (en_vars en ''NEVE_UPSTREAM_TOKEN'') (en_vars en' ''NEVE_UPSTREAM_TOKEN'')"

lemma resolve_upstream_sim:
  assumes "differ_in_token f fs en fs' en'"
  shows "rel_sum (=) (rel_prod up_sim (=))
     (resolve_upstream L fs en (fl_upstream f) net pre ns)
     (resolve_upstream L fs' en' (fl_upstream f) net pre ns)"
proof -
  let ?file = "unwrap_or (fl_upstream f) upstream_file_default"
  let ?e = "en_vars en ''NEVE_UPSTREAM_TOKEN''" and ?e' = "en_vars en' ''NEVE_UPSTREAM_TOKEN''"
  have tok: "rel_sum (=) (\<lambda>a b. a = None \<longleftrightarrow> b = None)
      (resolve_token fs (uf_token_file ?file) ?e) (resolve_token fs' (uf_token_file ?file) ?e')"
    using assms
    by (intro resolve_token_sim) (auto simp: differ_in_token_def upstream_file_default_def unwrap_or_def split: option.splits)
  have env: "(?e' = None) = (?e = None)"
    using assms by (simp add: differ_in_token_def equally_usable_def)
  show ?thesis
    unfolding resolve_upstream_def Let_def env
    apply (rule rel_sum_if)
     apply simp
    apply (rule and_then_rel [OF tok])
    apply (simp only: if_cancel)
    apply (rule and_then_rel [where R = "(=)"])
     apply (simp add: sum.rel_eq)
    apply (auto intro!: and_then_rel [where R = "(=)"] simp: sum.rel_eq up_sim_def split: prod.splits)
    done
qed

definition chain_sim :: "chain_cfg \<Rightarrow> chain_cfg \<Rightarrow> bool" where
  "chain_sim c c' \<longleftrightarrow> debug_chain c = debug_chain c'"

lemma host_pacer_for_sim: "up_sim u u' \<Longrightarrow> host_pacer_for c u' url ns = host_pacer_for c u url ns"
  unfolding host_pacer_for_def by (simp only: up_simD)

lemma resolve_chain_sim:
  assumes "up_sim u u'"
  shows "rel_sum (=) (rel_prod chain_sim (=))
     (resolve_chain c u d p dir ns) (resolve_chain c u' d p dir ns)"
proof -
  have url: "redact_url (case up_token u' of None \<Rightarrow> x | Some t \<Rightarrow> with_token x (up_token_param u) t) =
      redact_url (case up_token u of None \<Rightarrow> x | Some t \<Rightarrow> with_token x (up_token_param u) t)" for x
    using up_simD(7) [OF assms] redact_with_token by (cases "up_token u"; cases "up_token u'") auto
  show ?thesis
    unfolding resolve_chain_def Let_def up_simD [OF assms] host_pacer_for_sim [OF assms]
    by (rule and_then_rel [where R = "(=)"])
       (auto simp: sum.rel_eq chain_sim_def debug_chain_def url split: prod.splits)
qed

lemma resolve_chains_sim:
  assumes "up_sim u u'"
  shows "rel_sum (=) (rel_prod (list_all2 (rel_prod (=) chain_sim)) (=))
     (resolve_chains f u d dir cs ns) (resolve_chains f u' d dir cs ns)"
proof (induction cs arbitrary: ns)
  case (Cons c cs)
  show ?case
    by (auto intro!: and_then_rel [OF resolve_chain_sim [OF assms]] and_then_rel [OF Cons.IH])
qed simp

lemma chain_sim_data_dir: "chain_sim c c' \<Longrightarrow> ch_data_dir c' = ch_data_dir c"
  by (cases c; cases c') (auto simp: chain_sim_def debug_chain_def)

lemma debug_chain_data_dir [simp]: "ch_data_dir (debug_chain c) = ch_data_dir c"
  by (simp add: debug_chain_def)

lemma sim_map_debug:
  "list_all2 (rel_prod (=) chain_sim) cs cs' \<Longrightarrow> map (apsnd debug_chain) cs' = map (apsnd debug_chain) cs"
  by (induction rule: list_all2_induct) (auto simp: chain_sim_def)

text \<open>The check for a shared directory and the rendering read a chain through its \<open>Debug\<close> only.\<close>

lemma find_map: "find P (map f xs) = map_option f (find (P \<circ> f) xs)"
  by (induction xs) auto

lemma shared_dir_debug: "shared_dir (map (apsnd debug_chain) cs) = shared_dir cs"
proof -
  let ?g = "map_prod (apsnd debug_chain) (apsnd debug_chain)"
  have "concat (map (\<lambda>e. map (Pair e) (map (apsnd debug_chain) cs)) (map (apsnd debug_chain) cs)) =
      map ?g (concat (map (\<lambda>e. map (Pair e) cs) cs))"
    by (simp add: map_concat comp_def)
  then show ?thesis
    by (simp add: shared_dir_def find_map option.map_comp comp_def case_prod_beta')
qed

lemma redacted_chain_debug: "redacted_chain (debug_chain c) = redacted_chain c"
  by (simp add: redacted_chain_def debug_chain_def)

lemma redacted_chains_debug: "redacted_chains (map (apsnd debug_chain) cs) = redacted_chains cs"
  by (induction cs rule: redacted_chains.induct) (auto simp: redacted_chain_debug)

lemma redacted_upstream_sim: "up_sim u u' \<Longrightarrow> redacted_upstream u' = redacted_upstream u"
  unfolding redacted_upstream_def by (simp only: up_simD)

lemma debug_upstream_sim: "up_sim u u' \<Longrightarrow> debug_upstream u' = debug_upstream u"
  by (auto simp: debug_upstream_def show_token_def up_simD
      intro!: option.expand [of "map_option f x" for f x])

text \<open>Everything a run shows of its configuration: \<open>--print-config\<close>, \<open>Debug\<close> and the startup lines.\<close>

definition observed :: "libs \<Rightarrow> resolved \<Rightarrow>
    (cfg_error + string) \<times>
    (upstream_kind \<times> string \<times> string option \<times> string \<times> string option \<times> f64 option \<times> duration option) \<times>
    (chain \<times> chain_cfg) list \<times> notice list" where
  "observed L r =
     (to_redacted_toml L r, debug_upstream (rs_upstream r), map (apsnd debug_chain) (rs_chains r), rs_notices r)"

definition resolved_sim :: "resolved \<Rightarrow> resolved \<Rightarrow> bool" where
  "resolved_sim r r' \<longleftrightarrow>
     up_sim (rs_upstream r) (rs_upstream r') \<and>
     map (apsnd debug_chain) (rs_chains r') = map (apsnd debug_chain) (rs_chains r) \<and>
     r' = r\<lparr>rs_upstream := rs_upstream r', rs_chains := rs_chains r'\<rparr>"

lemma resolved_sim_observed:
  assumes "resolved_sim r r'"
  shows "observed L r' = observed L r"
proof -
  from assms have "redacted_chains (rs_chains r') = redacted_chains (rs_chains r)"
    unfolding resolved_sim_def by (metis redacted_chains_debug)
  moreover from assms have "rs_network r' = rs_network r" "rs_log_level r' = rs_log_level r"
      "rs_server r' = rs_server r" "rs_notices r' = rs_notices r"
    by (cases r; cases r'; simp add: resolved_sim_def)+
  moreover from assms have up: "up_sim (rs_upstream r) (rs_upstream r')"
      and cs: "map (apsnd debug_chain) (rs_chains r') = map (apsnd debug_chain) (rs_chains r)"
    by (simp_all add: resolved_sim_def)
  ultimately show ?thesis
    unfolding observed_def to_redacted_toml_def redacted_table_def
      redacted_upstream_sim [OF up] debug_upstream_sim [OF up] cs by simp
qed

lemma build_sim:
  assumes "differ_in_token f fs en fs' en'"
  shows "rel_sum (=) resolved_sim (build L fs cl en f enabled ns) (build L fs' cl en' f enabled ns)"
proof -
  let ?defaults = "unwrap_or (fl_defaults f) chain_file_default"
  have "rel_sum (=) resolved_sim
      (case shared_dir cs of Some (a, b) \<Rightarrow> Inl (Same_data_dir a b) | None \<Rightarrow> Inr (mk up cs n))
      (case shared_dir cs' of Some (a, b) \<Rightarrow> Inl (Same_data_dir a b) | None \<Rightarrow> Inr (mk up' cs' n))"
    if "list_all2 (rel_prod (=) chain_sim) cs cs'" "up_sim up up'"
       "\<And>u u' c c' n. up_sim u u' \<Longrightarrow> map (apsnd debug_chain) c' = map (apsnd debug_chain) c \<Longrightarrow>
          resolved_sim (mk u c n) (mk u' c' n)"
    for cs cs' up up' n and mk :: "_ \<Rightarrow> _ \<Rightarrow> _ \<Rightarrow> resolved"
  proof -
    from sim_map_debug [OF that(1)] have "shared_dir cs' = shared_dir cs"
      by (metis shared_dir_debug)
    with that sim_map_debug [OF that(1)] show ?thesis by (auto split: option.splits)
  qed
  note tail = this
  show ?thesis
    unfolding build_def Let_def
    apply (rule and_then_rel [OF resolve_upstream_sim [OF assms]])
    apply (simp only: split_paired_all prod.case rel_prod_inject)
    apply (rule and_then_rel [where R = "(=)"])
     apply (simp add: sum.rel_eq)
    apply (erule conjE, hypsubst)
    apply (rule rel_sum_if)
     apply simp
    apply (rule and_then_rel [OF resolve_chains_sim])
     apply assumption
    apply (simp only: split_paired_all prod.case rel_prod_inject)
    apply (erule conjE, hypsubst)
    apply (rule tail)
      apply assumption
     apply assumption
    apply (simp add: resolved_sim_def)
    done
qed

text \<open>Two runs with the same command line that differ in the value of the token only.\<close>

definition same_but_token :: "cli \<Rightarrow> files \<Rightarrow> env \<Rightarrow> files \<Rightarrow> env \<Rightarrow> bool" where
  "same_but_token cl fs en fs' en' \<longleftrightarrow>
     (\<forall>k. k \<noteq> ''NEVE_UPSTREAM_TOKEN'' \<longrightarrow> en_vars en' k = en_vars en k) \<and>
     en_default_config en' = en_default_config en \<and>
     equally_usable (en_vars en ''NEVE_UPSTREAM_TOKEN'') (en_vars en' ''NEVE_UPSTREAM_TOKEN'') \<and>
     fs_exists fs' = fs_exists fs \<and>
     (\<forall>p. Some p \<in> {cl_config cl, en_vars en ''NEVE_CONFIG'', en_default_config en} \<longrightarrow>
        fs_read fs' p = fs_read fs p) \<and>
     (\<forall>p. equally_usable (fs_read fs p) (fs_read fs' p))"

lemma load_tree_cong:
  assumes "same_but_token cl fs en fs' en'"
  shows "load_tree L fs' cl en' = load_tree L fs cl en"
  using assms
  by (auto simp: load_tree_def same_but_token_def Let_def split: option.splits)

lemma env_overrides_cong:
  "\<forall>e\<in>set vs. en_vars en' (fst e) = en_vars en (fst e) \<Longrightarrow>
     env_overrides L en' vs t ns = env_overrides L en vs t ns"
proof (induction L en vs t ns rule: env_overrides.induct)
  case (2 L en var key rest tree ns)
  then show ?case
    by (cases "en_vars en var") (auto intro!: arg_cong2 [where f = and_then])
qed simp

lemma merge_layers_cong:
  assumes "same_but_token cl fs en fs' en'"
  shows "merge_layers L fs' cl en' = merge_layers L fs cl en"
proof -
  have "apply_env L en' = apply_env L en"
    unfolding apply_env_def
    by (intro ext env_overrides_cong) (use assms in \<open>simp add: same_but_token_def\<close>)
  then show ?thesis by (simp add: merge_layers_def load_tree_cong [OF assms])
qed

lemma rel_sum_map_eq:
  assumes "rel_sum (=) R m m'" and "\<And>x y. R x y \<Longrightarrow> f y = f x"
  shows "map_sum id f m' = map_sum id f m"
  using assms by (cases m; cases m') auto

lemma resolve_with_hides_token:
  assumes "same_but_token cl fs en fs' en'"
  shows "map_sum id (observed L) (resolve_with L fs' cl en') = map_sum id (observed L) (resolve_with L fs cl en)"
proof -
  have d: "differ_in_token f fs en fs' en'" for f
    using assms by (simp add: differ_in_token_def same_but_token_def)
  have "rel_sum (=) resolved_sim (resolve_with L fs cl en) (resolve_with L fs' cl en')"
    unfolding resolve_with_def merge_layers_cong [OF assms]
    by (rule and_then_rel [where R = "(=)"]) (auto simp: sum.rel_eq build_sim [OF d])
  then show ?thesis by (rule rel_sum_map_eq) (rule resolved_sim_observed)
qed

section \<open>Well-formed configurations\<close>

definition chain_ok :: "upstream_cfg \<Rightarrow> chain \<Rightarrow> chain_cfg \<Rightarrow> bool" where
  "chain_ok up c cfg \<longleftrightarrow>
     ch_chain cfg = c \<and> 1 \<le> ch_concurrency cfg \<and> 1 \<le> ch_join_buffer_cap cfg \<and>
     0 < ch_summary_period cfg \<and> 0 < ch_poll_interval cfg \<and>
     (ch_ingest_logs cfg \<longrightarrow> c = Chain_C) \<and>
     (ch_subscribe_blocks cfg \<longleftrightarrow> up_kind up = Neve) \<and>
     (ch_host_pacer cfg = None \<or> ch_host_pacer cfg = up_host_pacer up)"

definition upstream_ok :: "upstream_cfg \<Rightarrow> bool" where
  "upstream_ok up \<longleftrightarrow>
     up_base up \<noteq> [] \<and> last (up_base up) \<noteq> CHR ''/'' \<and>
     (\<forall>t. up_token up = Some t \<longrightarrow> expose t \<noteq> []) \<and>
     (\<forall>x. up_max_rps up = Some x \<longrightarrow> f64_is_finite x \<and> f64_gt_zero x) \<and>
     (up_host_pacer up = None \<longleftrightarrow> up_max_rps up = None)"

definition server_ok :: "server_cfg \<Rightarrow> bool" where
  "server_ok srv \<longleftrightarrow>
     1 \<le> sv_max_connections srv \<and> 1 \<le> sv_max_blocks_per_request srv \<and> sv_idle_timeout srv \<noteq> Some 0"

definition resolved_ok :: "resolved \<Rightarrow> bool" where
  "resolved_ok r \<longleftrightarrow>
     rs_chains r \<noteq> [] \<and> sorted (map fst (rs_chains r)) \<and> distinct (map fst (rs_chains r)) \<and>
     (\<forall>(c, cfg) \<in> set (rs_chains r). chain_ok (rs_upstream r) c cfg) \<and>
     (\<forall>(c, cfg) \<in> set (rs_chains r). \<forall>(c', cfg') \<in> set (rs_chains r).
        c \<noteq> c' \<longrightarrow> \<not> path_eq (ch_data_dir cfg) (ch_data_dir cfg')) \<and>
     upstream_ok (rs_upstream r) \<and> server_ok (rs_server r)"

lemma resolve_server_ok: "resolve_server sf = Inr srv \<Longrightarrow> server_ok srv"
  by (auto simp: resolve_server_def server_ok_def Let_def split: if_splits)

lemma resolve_token_ok: "resolve_token fs tf e = Inr (Some t) \<Longrightarrow> expose t \<noteq> []"
  by (auto simp: resolve_token_def read_token_file_def and_then_Inr_iff Let_def
      split: option.splits if_splits)

lemma resolve_cap_ok:
  "resolve_cap m k b = Inr (Some x, why) \<Longrightarrow> f64_is_finite x \<and> f64_gt_zero x"
  by (auto simp: resolve_cap_def PUBLIC_MAX_RPS_def f64_is_finite_def f64_gt_zero_def
      split: option.splits if_splits upstream_kind.splits)

lemma last_trim_end_char: "trim_end_char c s \<noteq> [] \<Longrightarrow> last (trim_end_char c s) \<noteq> c"
  using hd_dropWhile [of "\<lambda>x. x = c" "rev s"] by (auto simp: trim_end_char_def last_rev)

lemma resolve_upstream_ok:
  assumes "resolve_upstream L fs en uf net pre ns = Inr (up, ns')"
  shows "upstream_ok up"
proof -
  let ?file = "unwrap_or uf upstream_file_default"
  let ?base = "trim_end_char (CHR ''/'') (unwrap_or (uf_base ?file) (default_base_url net))"
  from assms obtain token max_rps why pacer where
    t: "resolve_token fs (uf_token_file ?file) (en_vars en ''NEVE_UPSTREAM_TOKEN'') = Inr token"
       "resolve_cap (uf_max_rps ?file) (unwrap_or (uf_kind ?file) Avalanchego) (token \<noteq> None \<or> pre) = Inr (max_rps, why)"
       "host_interval L max_rps = Inr pacer" "?base \<noteq> []"
    and up: "up_base up = ?base" "up_token up = token" "up_max_rps up = max_rps" "up_host_pacer up = pacer"
    unfolding resolve_upstream_def Let_def
    by (cases "?base = []") (auto simp: and_then_Inr_iff)
  from t(3) have "pacer = None \<longleftrightarrow> max_rps = None"
    by (auto simp: host_interval_def and_then_Inr_iff split: option.splits)
  with t up show ?thesis
    using last_trim_end_char by (auto simp: upstream_ok_def dest: resolve_token_ok resolve_cap_ok)
qed

lemma host_pacer_for_own:
  "fst (host_pacer_for c up url ns) \<noteq> up_host_pacer up \<Longrightarrow> fst (host_pacer_for c up url ns) = None"
  by (auto simp: host_pacer_for_def Let_def split: option.splits if_splits)

text \<open>What a resolved chain's knobs are: its own key, else \<open>[defaults]\<close>, else the built-in.\<close>

definition knob :: "'a option \<Rightarrow> 'a option \<Rightarrow> 'a \<Rightarrow> 'a" where
  "knob per def b = unwrap_or (or_else per def) b"

lemma knob_simps [simp]: "knob (Some x) m b = x" "knob None (Some x) b = x" "knob None None b = b"
  by (simp_all add: knob_def or_else_def unwrap_or_def)

lemma overlay_knob:
  "unwrap_or (cf_concurrency (overlay (overlay chain_file_default d) p)) b = knob (cf_concurrency p) (cf_concurrency d) b"
  "unwrap_or (cf_join_buffer_cap (overlay (overlay chain_file_default d) p)) b =
     knob (cf_join_buffer_cap p) (cf_join_buffer_cap d) b"
  "unwrap_or (cf_summary_period (overlay (overlay chain_file_default d) p)) b' =
     knob (cf_summary_period p) (cf_summary_period d) b'"
  "unwrap_or (cf_poll_interval (overlay (overlay chain_file_default d) p)) b' =
     knob (cf_poll_interval p) (cf_poll_interval d) b'"
  "unwrap_or (cf_request_interval (overlay (overlay chain_file_default d) p)) b' =
     knob (cf_request_interval p) (cf_request_interval d) b'"
  "unwrap_or (cf_max_wait (overlay (overlay chain_file_default d) p)) b' = knob (cf_max_wait p) (cf_max_wait d) b'"
  "unwrap_or (cf_ws_idle_timeout (overlay (overlay chain_file_default d) p)) b' =
     knob (cf_ws_idle_timeout p) (cf_ws_idle_timeout d) b'"
  "unwrap_or (cf_prefetch_delay_cap (overlay (overlay chain_file_default d) p)) b' =
     knob (cf_prefetch_delay_cap p) (cf_prefetch_delay_cap d) b'"
  "unwrap_or (cf_backfill_floor (overlay (overlay chain_file_default d) p)) fl =
     knob (cf_backfill_floor p) (cf_backfill_floor d) fl"
  "unwrap_or (cf_rpc_url (overlay (overlay chain_file_default d) p)) u = knob (cf_rpc_url p) (cf_rpc_url d) u"
  "unwrap_or (cf_ws_url (overlay (overlay chain_file_default d) p)) u = knob (cf_ws_url p) (cf_ws_url d) u"
  "unwrap_or (cf_ingest_logs (overlay (overlay chain_file_default d) p)) l = knob (cf_ingest_logs p) (cf_ingest_logs d) l"
  by (simp_all add: overlay_def chain_file_default_def knob_def or_else_def split: option.splits)

lemma resolve_chain_knobs:
  assumes "resolve_chain c up d p dir ns = Inr (cfg, ns')"
  shows "ch_request_interval cfg =
           knob (cf_request_interval p) (cf_request_interval d) (bi_request_interval (for_chain c (up_kind up)))"
    and "ch_concurrency cfg = knob (cf_concurrency p) (cf_concurrency d) (bi_concurrency (for_chain c (up_kind up)))"
    and "ch_poll_interval cfg =
           knob (cf_poll_interval p) (cf_poll_interval d) (bi_poll_interval (for_chain c (up_kind up)))"
    and "ch_max_wait cfg = knob (cf_max_wait p) (cf_max_wait d) (bi_max_wait (for_chain c (up_kind up)))"
    and "ch_backfill_floor cfg =
           floor_height (knob (cf_backfill_floor p) (cf_backfill_floor d) (bi_backfill_floor (for_chain c (up_kind up))))"
    and "ch_summary_period cfg =
           knob (cf_summary_period p) (cf_summary_period d) (bi_summary_period (for_chain c (up_kind up)))"
    and "ch_data_dir cfg = unwrap_or (cf_data_dir p) (chain_data_dir c dir)"
    and "chain_ok up c cfg"
    and "ch_chain cfg = c" "ch_ws_idle_timeout cfg =
           knob (cf_ws_idle_timeout p) (cf_ws_idle_timeout d) (bi_ws_idle_timeout (for_chain c (up_kind up)))"
    and "ch_prefetch_delay_cap cfg =
           knob (cf_prefetch_delay_cap p) (cf_prefetch_delay_cap d) (bi_prefetch_delay_cap (for_chain c (up_kind up)))"
    and "ch_join_buffer_cap cfg =
           knob (cf_join_buffer_cap p) (cf_join_buffer_cap d) (bi_join_buffer_cap (for_chain c (up_kind up)))"
    and "ch_ingest_logs cfg \<longleftrightarrow>
           knob (cf_ingest_logs p) (cf_ingest_logs d) (bi_ingest_logs (for_chain c (up_kind up))) \<and> c = Chain_C"
  using assms unfolding resolve_chain_def Let_def overlay_knob case_prod_beta'
  by (auto simp: and_then_Inr_iff chain_ok_def split: if_split_asm dest: host_pacer_for_own)

text \<open>The URL a chain asks, for the one its configuration names: with the token of the upstream, if there is one.\<close>

definition with_upstream_token :: "upstream_cfg \<Rightarrow> string \<Rightarrow> string" where
  "with_upstream_token up u = (case up_token up of None \<Rightarrow> u | Some t \<Rightarrow> with_token u (up_token_param up) t)"

lemma resolve_chain_urls:
  assumes "resolve_chain c up d p dir ns = Inr (cfg, ns')"
  shows "\<exists>rpc ws. ch_rpc_url cfg = with_upstream_token up (knob (cf_rpc_url p) (cf_rpc_url d) rpc) \<and>
    ch_ws_url cfg = with_upstream_token up (knob (cf_ws_url p) (cf_ws_url d) ws)"
  using assms unfolding resolve_chain_def Let_def overlay_knob case_prod_beta'
  by (auto simp: and_then_Inr_iff with_upstream_token_def split: if_split_asm)

lemma resolve_chains_Inr:
  assumes "resolve_chains f up d dir cs ns = Inr (out, ns')"
  shows "map fst out = cs" and
    "\<forall>(c, cfg) \<in> set out. \<exists>n n'. resolve_chain c up d (per_chain f c) dir n = Inr (cfg, n')"
  using assms
  by (induction cs arbitrary: ns out ns') (fastforce simp: and_then_Inr_iff split: prod.splits)+

lemma shared_dir_None:
  "shared_dir cs = None \<Longrightarrow> (c, cfg) \<in> set cs \<Longrightarrow> (c', cfg') \<in> set cs \<Longrightarrow> c \<noteq> c' \<Longrightarrow>
     \<not> path_eq (ch_data_dir cfg) (ch_data_dir cfg')"
  by (fastforce simp: shared_dir_def find_None_iff path_eq_def)

lemma no_pair_None: "(\<forall>a b. x \<noteq> Some (a, b)) \<longleftrightarrow> x = None"
  by (cases x) auto

lemma build_Inr:
  assumes "build L fs cl en f enabled ns = Inr r"
  obtains n n' defaults dir where
    "resolve_upstream L fs en (fl_upstream f) (unwrap_or (fl_network f) Mainnet)
       (urls_already_carry_a_token f) ns = Inr (rs_upstream r, n)"
    "resolve_server (fl_server f) = Inr (rs_server r)"
    "resolve_chains f (rs_upstream r) defaults dir enabled n = Inr (rs_chains r, n')"
    "shared_dir (rs_chains r) = None"
  using assms unfolding build_def Let_def
  by (auto simp: and_then_Inr_iff no_pair_None split: prod.splits if_splits option.splits)

lemma build_chain:
  assumes "build L fs cl en f enabled ns = Inr r" "c \<in> set enabled"
  obtains cfg d dir n n' where "(c, cfg) \<in> set (rs_chains r)"
    "resolve_chain c (rs_upstream r) d (per_chain f c) dir n = Inr (cfg, n')"
  using assms(1)
proof (rule build_Inr)
  fix n n' d dir
  assume cs: "resolve_chains f (rs_upstream r) d dir enabled n = Inr (rs_chains r, n')"
  with assms(2) resolve_chains_Inr(1) [OF cs] obtain cfg where c: "(c, cfg) \<in> set (rs_chains r)" by auto
  with resolve_chains_Inr(2) [OF cs] show thesis using that [OF c] by fastforce
qed

lemma select_chains_Inr:
  assumes "select_chains cl tree = Inr enabled"
  shows "enabled \<noteq> [] \<and> sorted enabled \<and> distinct enabled"
proof -
  from assms obtain cs where "normalize_chains cs = Inr enabled"
    by (auto simp: select_chains_def and_then_Inr_iff split: if_splits)
  then have "cs \<noteq> []" "enabled = sorted_list_of_set (set cs)" by (simp_all add: normalize_chains_Inr)
  then show ?thesis by (simp add: sorted_list_of_set_eq_Nil_iff)
qed

lemma merge_layers_Inr:
  assumes "merge_layers L fs cl en = Inr (f, enabled, ns)"
  obtains tree t3 t4 where
    "load_tree L fs cl en = Inr tree" "select_chains cl tree = Inr enabled"
    "reject_sets_for_idle_chains enabled (cl_set cl) = Inr ()"
    "apply_sets L (cl_set cl) t3 = Inr t4" "deserialize_tree L t4 = Some f"
  using assms unfolding merge_layers_def
  by (auto simp: and_then_Inr_iff split: prod.splits)

lemma resolve_with_ok:
  assumes "resolve_with L fs cl en = Inr r"
  shows "resolved_ok r"
proof -
  from assms obtain f enabled ns where m: "merge_layers L fs cl en = Inr (f, enabled, ns)"
    and b: "build L fs cl en f enabled ns = Inr r"
    by (auto simp: resolve_with_def and_then_Inr_iff)
  from m obtain tree where "select_chains cl tree = Inr enabled" by (rule merge_layers_Inr)
  then have e: "enabled \<noteq> [] \<and> sorted enabled \<and> distinct enabled" by (rule select_chains_Inr)
  from b show ?thesis
  proof (rule build_Inr)
    fix n n' defaults dir
    assume u: "resolve_upstream L fs en (fl_upstream f) (unwrap_or (fl_network f) Mainnet)
         (urls_already_carry_a_token f) ns = Inr (rs_upstream r, n)"
      and srv: "resolve_server (fl_server f) = Inr (rs_server r)"
      and cs: "resolve_chains f (rs_upstream r) defaults dir enabled n = Inr (rs_chains r, n')"
      and sd: "shared_dir (rs_chains r) = None"
    have "\<forall>(c, cfg) \<in> set (rs_chains r). chain_ok (rs_upstream r) c cfg"
      using resolve_chains_Inr(2) [OF cs] resolve_chain_knobs(8) by fastforce
    with e resolve_chains_Inr(1) [OF cs] show ?thesis
      using resolve_upstream_ok [OF u] resolve_server_ok [OF srv] shared_dir_None [OF sd]
      by (auto simp: resolved_ok_def)
  qed
qed

section \<open>An accepted setting is in effect\<close>

text \<open>The path a \<open>--set\<close> argument writes to.\<close>

definition set_target :: "string \<Rightarrow> string list" where
  "set_target arg = (case split_once (CHR ''='') arg of None \<Rightarrow> [] | Some (key, _) \<Rightarrow> split_char (CHR ''.'') key)"

text \<open>The argument list as writes to the document.\<close>

definition writes :: "libs \<Rightarrow> string list \<Rightarrow> (string list \<times> toml) list" where
  "writes L args = map (\<lambda>a. (set_target a, parse_scalar L (snd (the (split_once (CHR ''='') a))))) args"

lemma set_checked_Inr:
  assumes "set_checked L t key v org = Inr t'"
  shows "set_path t (split_char (CHR ''.'') key) v = Inr t'"
  using assms by (auto simp: set_checked_def key_path_def and_then_Inr_iff Let_def split: if_splits)

lemma apply_sets_writes: "apply_sets L args t = Inr t' \<Longrightarrow> tree.put_all t (writes L args) = Inr t'"
proof (induction args arbitrary: t)
  case (Cons a args)
  then obtain key raw t1 where a: "split_once (CHR ''='') a = Some (key, raw)"
    "set_checked L t key (parse_scalar L raw) (From_set key raw) = Inr t1" "apply_sets L args t1 = Inr t'"
    by (auto simp: and_then_Inr_iff split: option.splits)
  with Cons.IH [OF a(3)] set_checked_Inr [OF a(2)] show ?case
    by (simp add: writes_def set_target_def)
qed (simp add: writes_def)

lemma reject_sets_served:
  assumes "reject_sets_for_idle_chains enabled args = Inr ()" "arg \<in> set args"
    and "split_once (CHR ''='') arg = Some (key, raw)"
    and "split_char (CHR ''.'') (trim_str key) = [''chains'', chain_as_str c, k]" "k \<noteq> ''enabled''"
  shows "c \<in> set enabled"
  using assms
  by (induction args) (auto simp: Let_def split: option.splits list.splits if_splits prod.splits)

text \<open>
  A chain runs with the value \<open>v\<close> of the key \<open>k\<close>, as the schema reads it. Only the C-chain has logs to ingest, so
  there \<open>ingest_logs\<close> is off on the other chains whatever its value.
\<close>

definition in_effect :: "libs \<Rightarrow> upstream_cfg \<Rightarrow> string \<Rightarrow> toml \<Rightarrow> chain_cfg \<Rightarrow> bool" where
  "in_effect L up k v cfg \<longleftrightarrow>
     (k = ''rpc_url'' \<longrightarrow> map_option (with_upstream_token up) (de_string v) = Some (ch_rpc_url cfg)) \<and>
     (k = ''ws_url'' \<longrightarrow> map_option (with_upstream_token up) (de_string v) = Some (ch_ws_url cfg)) \<and>
     (k = ''data_dir'' \<longrightarrow> de_string v = Some (ch_data_dir cfg)) \<and>
     (k = ''backfill_floor'' \<longrightarrow> map_option floor_height (de_floor v) = Some (ch_backfill_floor cfg)) \<and>
     (k = ''request_interval'' \<longrightarrow> de_human_duration L v = Some (ch_request_interval cfg)) \<and>
     (k = ''concurrency'' \<longrightarrow> de_uint u64_max v = Some (ch_concurrency cfg)) \<and>
     (k = ''poll_interval'' \<longrightarrow> de_human_duration L v = Some (ch_poll_interval cfg)) \<and>
     (k = ''max_wait'' \<longrightarrow> de_human_duration L v = Some (ch_max_wait cfg)) \<and>
     (k = ''ws_idle_timeout'' \<longrightarrow> de_human_duration L v = Some (ch_ws_idle_timeout cfg)) \<and>
     (k = ''prefetch_delay_cap'' \<longrightarrow> de_human_duration L v = Some (ch_prefetch_delay_cap cfg)) \<and>
     (k = ''ingest_logs'' \<longrightarrow> map_option (\<lambda>on. on \<and> ch_chain cfg = Chain_C) (de_bool v) = Some (ch_ingest_logs cfg)) \<and>
     (k = ''join_buffer_cap'' \<longrightarrow> de_uint u64_max v = Some (ch_join_buffer_cap cfg)) \<and>
     (k = ''summary_period'' \<longrightarrow> de_human_duration L v = Some (ch_summary_period cfg))"

lemma chain_key_facts:
  assumes "k \<in> set CHAIN_KEYS"
  shows "trim_str (chain_key c k) = chain_key c k" "CHR ''='' \<notin> set (chain_key c k)"
    "split_char (CHR ''.'') (chain_key c k) = [''chains'', chain_as_str c, k]"
  using assms
  by (cases c; auto simp: CHAIN_KEYS_def chain_key_def trim_str_visible visible_def byte_in_def)+

lemma leaf_in_effect:
  assumes "deserialize_tree L t = Some f" "lookup_path t [''chains'', chain_as_str c, k] = Some v"
    and "resolve_chain c up d (per_chain f c) dir n = Inr (cfg, n')"
  shows "in_effect L up k v cfg"
proof -
  from chain_leaf_read [OF assms(1,2)] obtain tb where
    tb: "tbl_get tb k = Some v" "de_chain_file L (T_tbl tb) = Some (per_chain f c)" .
  show ?thesis
    unfolding in_effect_def resolve_chain_knobs [OF assms(3)]
    using de_chain_file_read [OF tb(2)] tb(1) resolve_chain_urls [OF assms(3)] by (auto simp: de_opt_present unwrap_or_def)
qed

lemma set_in_effect:
  assumes "resolve_with L fs cl en = Inr r"
    and "cl_set cl = pre @ (chain_key c k @ CHR ''='' # raw) # post" and "k \<in> set CHAIN_KEYS" "k \<noteq> ''enabled''"
    and "\<forall>a\<in>set post. apart (set_target a) [''chains'', chain_as_str c, k]"
  shows "\<exists>cfg. (c, cfg) \<in> set (rs_chains r) \<and> in_effect L (rs_upstream r) k (parse_scalar L raw) cfg"
proof -
  from assms(1) obtain f enabled ns where m: "merge_layers L fs cl en = Inr (f, enabled, ns)"
    and b: "build L fs cl en f enabled ns = Inr r"
    by (auto simp: resolve_with_def and_then_Inr_iff)
  note key = chain_key_facts [OF assms(3), of c] assms(4)
  then have arg: "split_once (CHR ''='') (chain_key c k @ CHR ''='' # raw) = Some (chain_key c k, raw)"
    by (simp add: split_once_append)
  from m obtain t3 t4 where rej: "reject_sets_for_idle_chains enabled (cl_set cl) = Inr ()"
    and t4: "apply_sets L (cl_set cl) t3 = Inr t4" "deserialize_tree L t4 = Some f"
    by (rule merge_layers_Inr)
  from reject_sets_served [OF rej _ arg] key assms(2) have "c \<in> set enabled" by simp
  with b obtain cfg d dir n n' where cfg: "(c, cfg) \<in> set (rs_chains r)"
    "resolve_chain c (rs_upstream r) d (per_chain f c) dir n = Inr (cfg, n')"
    by (rule build_chain)
  have w: "writes L (cl_set cl) =
      writes L pre @ ([''chains'', chain_as_str c, k], parse_scalar L raw) # writes L post"
    using arg key by (simp add: writes_def set_target_def assms(2))
  have "lookup_path t4 [''chains'', chain_as_str c, k] = Some (parse_scalar L raw)"
    using apply_sets_writes [OF t4(1)] unfolding w
    by (rule tree.put_all_last) (use assms(5) in \<open>simp add: writes_def\<close>)
  from leaf_in_effect [OF t4(2) this cfg(2)] cfg(1) show ?thesis by blast
qed

section \<open>Which chains are served\<close>

text \<open>The values \<open>--set\<close> gives to \<open>chains.<x>.enabled\<close>, in order.\<close>

definition enabled_sets :: "string list \<Rightarrow> chain \<Rightarrow> string list" where
  "enabled_sets args c =
     map snd (filter (\<lambda>(key, raw). trim_str key = enabled_key c) (List.map_filter (split_once (CHR ''='')) args))"

text \<open>
  The rule: the last \<open>--set\<close> of the switch decides; with none, a chain is on when the file
  declares no chains at all or declares this one, and does not switch it off.
\<close>

definition switched_on :: "cli \<Rightarrow> table \<Rightarrow> chain \<Rightarrow> bool" where
  "switched_on cl tree c \<longleftrightarrow>
     (if enabled_sets (cl_set cl) c \<noteq> [] then last (enabled_sets (cl_set cl) c) = ''true''
      else (tbl_get tree ''chains'' = None \<or> lookup_path tree [''chains'', chain_as_str c] \<noteq> None) \<and>
           lookup_path tree [''chains'', chain_as_str c, ''enabled''] \<noteq> Some (T_bool False))"

lemma set_enabled_loop_Inr:
  "set_enabled_loop c args found = Inr res \<Longrightarrow>
     res = (if enabled_sets args c = [] then found else Some (last (enabled_sets args c) = ''true''))"
proof (induction args arbitrary: found)
  case (Cons arg args)
  show ?case
  proof (cases "split_once (CHR ''='') arg")
    case None
    then have "enabled_sets (arg # args) c = enabled_sets args c"
      by (simp add: enabled_sets_def List.map_filter_simps)
    with Cons.IH [of found] Cons.prems None show ?thesis by simp
  next
    case (Some kr)
    obtain key raw where kr: "kr = (key, raw)" by (cases kr)
    have es: "enabled_sets (arg # args) c =
        (if trim_str key = enabled_key c then raw # enabled_sets args c else enabled_sets args c)"
      using Some kr by (simp add: enabled_sets_def List.map_filter_simps)
    show ?thesis
      using Cons.prems Some kr Cons.IH unfolding es
      by (auto simp: parse_bool_def split: if_splits option.splits dest: Cons.IH)
  qed
qed (simp add: enabled_sets_def List.map_filter_simps)

lemma file_enabled_Inr:
  "file_enabled tree c = Inr b \<Longrightarrow>
     b = (lookup_path tree [''chains'', chain_as_str c, ''enabled''] \<noteq> Some (T_bool False))"
  by (auto simp: file_enabled_def as_table_def as_bool_def bind_eq_None_conv split: option.splits toml.splits
      bind_splits)

lemma declared_chains_Inr:
  assumes "declared_chains tree = Inr d"
  shows "(case d of None \<Rightarrow> True | Some cs \<Rightarrow> c \<in> set cs) \<longleftrightarrow>
     tbl_get tree ''chains'' = None \<or> lookup_path tree [''chains'', chain_as_str c] \<noteq> None"
proof (cases "tbl_get tree ''chains''")
  case None
  with assms show ?thesis by (simp add: declared_chains_def)
next
  case (Some v)
  with assms obtain t where t: "v = T_tbl t" "\<forall>e\<in>set t. chain_of_key (fst e) \<noteq> None"
    "d = Some (map (\<lambda>e. the (chain_of_key (fst e))) t)"
    by (auto simp: declared_chains_def as_table_def split: toml.splits if_splits)
  have "c \<in> set (map (\<lambda>e. the (chain_of_key (fst e))) t) \<longleftrightarrow> chain_as_str c \<in> fst ` set t"
    using t(2) by (force simp: chain_of_key_Some)
  also have "\<dots> \<longleftrightarrow> tbl_get t (chain_as_str c) \<noteq> None"
    by (simp add: tbl_get_def map_of_eq_None_iff)
  finally show ?thesis using Some t by simp
qed

lemma chain_on_Inr:
  assumes "chain_on cl tree d c = Inr b" "declared_chains tree = Inr d"
  shows "b = switched_on cl tree c"
  using assms declared_chains_Inr [OF assms(2), of c]
  by (auto simp: chain_on_def switched_on_def set_enabled_def and_then_Inr_iff
      split: option.splits if_splits dest!: set_enabled_loop_Inr file_enabled_Inr)

lemma chains_on_Inr:
  "chains_on cl tree d cs = Inr out \<Longrightarrow> declared_chains tree = Inr d \<Longrightarrow> out = filter (switched_on cl tree) cs"
  by (induction cs arbitrary: out) (auto simp: and_then_Inr_iff dest: chain_on_Inr)

lemma select_chains_exact:
  assumes "select_chains cl tree = Inr enabled"
  shows "enabled = (if cl_chains cl \<noteq> [] then sorted_list_of_set (set (cl_chains cl))
                    else filter (switched_on cl tree) all_chains)"
proof (cases "cl_chains cl = []")
  case False
  with assms show ?thesis by (simp add: select_chains_def normalize_chains_Inr)
next
  case True
  with assms have "enabled = sorted_list_of_set (set (filter (switched_on cl tree) all_chains))"
    by (auto simp: select_chains_def and_then_Inr_iff normalize_chains_Inr split: if_splits dest!: chains_on_Inr)
  also have "\<dots> = filter (switched_on cl tree) all_chains"
    by (intro sorted_list_of_set.idem_if_sorted_distinct)
       (auto simp: all_chains_def less_eq_chain_def)
  finally show ?thesis using True by simp
qed

lemma resolve_with_served:
  assumes "resolve_with L fs cl en = Inr r"
  obtains tree where "load_tree L fs cl en = Inr tree" "select_chains cl tree = Inr (map fst (rs_chains r))"
proof -
  from assms obtain f enabled ns where m: "merge_layers L fs cl en = Inr (f, enabled, ns)"
    and b: "build L fs cl en f enabled ns = Inr r"
    by (auto simp: resolve_with_def and_then_Inr_iff)
  from b have "map fst (rs_chains r) = enabled"
    by (rule build_Inr) (rule resolve_chains_Inr)
  with m show thesis by (elim merge_layers_Inr) (simp add: that)
qed

section \<open>Durations and derived URLs\<close>

text \<open>The documented reading of a number with a unit by the \<open>parse_duration\<close> crate.\<close>

definition duration_laws :: "libs \<Rightarrow> bool" where
  "duration_laws L \<longleftrightarrow>
     (\<forall>n\<le>u64_max.
        l_duration L (to_dec n @ ''ms'') = Some (from_millis n) \<and>
        l_duration L (to_dec n @ ''s'') = Some (from_secs n) \<and>
        l_duration L (to_dec n @ ''m'') = Some (from_secs (60 * n)) \<and>
        l_duration L (to_dec n @ ''h'') = Some (from_secs (3600 * n)))"

lemma parse_u64_unit:
  assumes "n \<le> u64_max" "to_digit 10 c = None"
  shows "parse_u64 (to_dec n @ c # cs) = None"
proof -
  from format_radix_head [of 10 n] obtain d ds where f: "to_dec n = from_digit d # ds" "d < 10"
    by (auto simp: to_dec_def)
  moreover from f(2) from_digit_neq [of d] have "from_digit d \<noteq> CHR ''+''" by auto
  moreover have "parse_digits 10 0 (to_dec n) = Some n"
    using parse_digits_format_radix [of 10 n] assms(1) by (simp add: to_dec_def)
  then have "parse_digits 10 0 (to_dec n @ c # cs) = None"
    using assms(2) by (simp add: parse_digits_append)
  ultimately show ?thesis
    by (simp del: parse_digits.simps add: parse_u64_def from_str_radix_def)
qed

lemma to_digit_units: "to_digit 10 (CHR ''m'') = None" "to_digit 10 (CHR ''s'') = None" "to_digit 10 (CHR ''h'') = None"
  by (simp_all add: to_digit_def)

lemma parse_human_unit:
  assumes "duration_laws L" "n \<le> u64_max"
  shows "parse_human_duration L (to_dec n @ ''ms'') = Some (from_millis n)"
    "parse_human_duration L (to_dec n @ ''s'') = Some (from_secs n)"
    "parse_human_duration L (to_dec n @ ''m'') = Some (from_secs (60 * n))"
    "parse_human_duration L (to_dec n @ ''h'') = Some (from_secs (3600 * n))"
  using assms by (simp_all add: parse_human_duration_def parse_u64_unit to_digit_units duration_laws_def)

lemma fmt_duration_parses:
  assumes "duration_laws L" "d div 1000000 \<le> u64_max"
  shows "parse_human_duration L (fmt_duration d) = Some (d - d mod 1000000)"
proof -
  let ?m = "d div 1000000"
  have d: "d - d mod 1000000 = 1000000 * ?m" by (simp add: minus_mod_eq_mult_div)
  show ?thesis
  proof (cases "?m mod 1000 = 0")
    case False
    then have "?m \<noteq> 0" by (metis mod_0)
    with False assms show ?thesis
      unfolding d by (simp add: fmt_duration_def Let_def parse_human_unit from_millis_def)
  next
    case True
    define secs where "secs = d div nanos_per_sec"
    have "secs = ?m div 1000"
      unfolding secs_def nanos_per_sec_def using div_mult2_eq [of d 1000000 1000] by simp
    with True have s: "?m = 1000 * secs" by auto
    then have "secs \<le> u64_max" and le: "secs div 60 \<le> u64_max" "secs div 3600 \<le> u64_max"
      using assms(2) by (simp_all add: order_trans [OF div_le_dividend])
    moreover have "1000000 * ?m = from_secs secs" using s by (simp add: from_secs_def nanos_per_sec_def)
    moreover have z: "to_dec 0 @ ''s'' = ''0s''" by code_simp
    moreover have "parse_human_duration L ''0s'' = Some 0"
      using parse_human_unit(2) [OF assms(1), of 0] unfolding z by (simp add: from_secs_def)
    ultimately show ?thesis
      unfolding d using s assms(1) secs_def [symmetric]
      by (auto simp: fmt_duration_def Let_def parse_human_unit from_secs_def)
  qed
qed

text \<open>The part of a URL that selects the resource: everything before the query.\<close>

definition url_path :: "string \<Rightarrow> string" where
  "url_path u = (case split_once (CHR ''?'') u of None \<Rightarrow> u | Some (a, _) \<Rightarrow> a)"

lemma url_path_append: "CHR ''?'' \<in> set u \<Longrightarrow> url_path (u @ v) = url_path u"
proof -
  assume "CHR ''?'' \<in> set u"
  then obtain a b where u: "split_once (CHR ''?'') u = Some (a, b)"
    using split_once_None_iff by fastforce
  then have "u = a @ CHR ''?'' # b" "CHR ''?'' \<notin> set a" using split_once_Some by auto
  with u show ?thesis by (simp add: url_path_def split_once_append)
qed

text \<open>A token in any URL of the file, served or not, lifts the host cap from every chain.\<close>

lemma pre_tokened_uncapped:
  "resolve_upstream L fs en None net True ns = Inr (up, n) \<Longrightarrow> up_max_rps up = None \<and> up_host_pacer up = None"
  by (auto simp: resolve_upstream_def unwrap_or_def upstream_file_default_def resolve_cap_def
      and_then_Inr_iff Let_def host_interval_def split: if_splits)

lemma any_token_lifts_cap:
  assumes "build L fs cl en f enabled ns = Inr r"
    and "fl_chains f = Some m" "m c = Some cf" "fl_upstream f = None" "carries ''token'' (cf_rpc_url cf)"
  shows "up_max_rps (rs_upstream r) = None \<and> (\<forall>(c', cfg) \<in> set (rs_chains r). ch_host_pacer cfg = None)"
  using assms(1)
proof (rule build_Inr)
  fix n n' d dir
  assume u: "resolve_upstream L fs en (fl_upstream f) (unwrap_or (fl_network f) Mainnet)
      (urls_already_carry_a_token f) ns = Inr (rs_upstream r, n)"
    and cs: "resolve_chains f (rs_upstream r) d dir enabled n = Inr (rs_chains r, n')"
  have "urls_already_carry_a_token f"
    using assms(2-5) by (cases c) (auto simp: urls_already_carry_a_token_def all_chains_def)
  with u assms(4) have "up_max_rps (rs_upstream r) = None \<and> up_host_pacer (rs_upstream r) = None"
    using pre_tokened_uncapped by simp
  moreover have "chain_ok (rs_upstream r) c' cfg" if "(c', cfg) \<in> set (rs_chains r)" for c' cfg
    using resolve_chains_Inr(2) [OF cs] resolve_chain_knobs(8) that by fastforce
  ultimately show ?thesis by (auto simp: chain_ok_def)
qed

section \<open>A concrete run\<close>

definition is_digit :: "char \<Rightarrow> bool" where
  "is_digit c \<longleftrightarrow> to_digit 10 c \<noteq> None"

definition ref_duration :: "string \<Rightarrow> duration option" where
  "ref_duration s =
     (let ds = takeWhile is_digit s; u = dropWhile is_digit s
      in case (parse_digits 10 0 ds,
               map_of [(''ms'', from_millis 1), (''s'', from_secs 1), (''m'', from_secs 60), (''h'', from_secs 3600)] u) of
           (Some n, Some k) \<Rightarrow> Some (n * k)
         | _ \<Rightarrow> None)"

text \<open>An instance of the libraries that reads the texts of the examples below.\<close>

definition ref_libs :: libs where
  "ref_libs =
     \<lparr>l_parse = map_of [([], []), (''v = true'', [(''v'', T_bool True)]), (''v = 2'', [(''v'', T_int 2)])],
      l_pretty = (\<lambda>t. Some ''resolved''), l_other_fields = (\<lambda>names v. None), l_other_variant = (\<lambda>v. None),
      l_duration = ref_duration, l_addr = Some, l_f64_of_int = (\<lambda>i. F_fin (of_int i)),
      l_interval = (\<lambda>x. if x = PUBLIC_MAX_RPS then Some (from_millis 40) else None)\<rparr>"

definition ref_cli :: "chain list \<Rightarrow> string list \<Rightarrow> cli" where
  "ref_cli chs args =
     \<lparr>cl_config = None, cl_network = None, cl_data_dir = None, cl_rpc_addr = None, cl_chains = chs,
      cl_mirror_from = None, cl_stop_time = None, cl_log_level = None, cl_ingest_logs = False, cl_set = args,
      cl_print_config = True, cl_print_config_example = False, cl_ws_url = None, cl_rpc_url = None,
      cl_p_rpc_url = None, cl_p_poll_interval = None, cl_request_interval = None, cl_p_request_interval = None,
      cl_p_concurrency = None, cl_p_data_dir = None, cl_backfill_floor = None, cl_p_backfill_floor = None,
      cl_max_wait = None, cl_ws_idle_timeout = None, cl_prefetch_delay_cap = None, cl_idle_timeout = None,
      cl_max_connections = None, cl_max_blocks_per_request = None, cl_summary_period = None,
      cl_join_buffer_cap = None\<rparr>"

definition ref_env :: "string option \<Rightarrow> env" where
  "ref_env token =
     \<lparr>en_vars = (\<lambda>k. if k = ''NEVE_UPSTREAM_TOKEN'' then token else None), en_default_config = None\<rparr>"

definition ref_files :: files where
  "ref_files = \<lparr>fs_read = (\<lambda>_. None), fs_exists = (\<lambda>_. False)\<rparr>"

lemma parse_digits_all: "parse_digits r a s = Some n \<Longrightarrow> c \<in> set s \<Longrightarrow> to_digit r c \<noteq> None"
  by (induction r a s rule: parse_digits.induct) (auto split: option.splits if_splits)

lemma ref_duration_laws: "duration_laws ref_libs"
proof -
  have digits: "parse_digits 10 0 (to_dec n) = Some n" if "n \<le> u64_max" for n
    using parse_digits_format_radix [of 10 n] that by (simp add: to_dec_def)
  have split: "takeWhile is_digit (to_dec n @ c # cs) = to_dec n"
      "dropWhile is_digit (to_dec n @ c # cs) = c # cs"
    if "n \<le> u64_max" "to_digit 10 c = None" for n c cs
  proof -
    note p = digits [OF that(1)]
    show "takeWhile is_digit (to_dec n @ c # cs) = to_dec n"
        "dropWhile is_digit (to_dec n @ c # cs) = c # cs"
      using parse_digits_all [OF p] that(2) by (simp_all add: is_digit_def takeWhile_append2 dropWhile_append2)
  qed
  have unit: "ref_duration (to_dec n @ c # cs) = map_option ((*) n) (map_of
      [(''ms'', from_millis 1), (''s'', from_secs 1), (''m'', from_secs 60), (''h'', from_secs 3600)] (c # cs))"
    if "n \<le> u64_max" "to_digit 10 c = None" for n c cs
    unfolding ref_duration_def Let_def split [OF that] digits [OF that(1)]
    by (auto split: option.splits)
  show ?thesis
    unfolding duration_laws_def ref_libs_def libs.simps
    by (auto simp: unit to_digit_units from_millis_def from_secs_def)
qed

lemma set_args_facts:
  "trim_str ''chains.c.data_dir'' = ''chains.c.data_dir''" "trim_str ''chains.c.enabled'' = ''chains.c.enabled''"
  "trim_str ''abc'' = ''abc''" "trim_str ''xyz'' = ''xyz''"
  by (simp_all add: trim_str_visible visible_def byte_in_def)

lemmas merge_defs = resolve_with_def merge_layers_def load_tree_def select_chains_def set_enabled_def
  declared_chains_def file_enabled_def chain_on_def all_chains_def enabled_key_def as_table_def
  apply_env_def apply_deprecated_flags_def pending_flags_def int_flag_def apply_flags_def set_if_def
  set_checked_def key_path_def parse_scalar_def deserialize_tree_def de_fields_def de_opt_def de_chains_def
  de_chain_file_def de_string_def de_bool_def as_bool_def parse_bool_def tbl_get_def chain_of_key_def CHAIN_KEYS_def normalize_chains_def less_eq_chain_def

lemmas build_defs = build_def resolve_upstream_def resolve_token_def resolve_cap_def resolve_server_def
  resolve_chain_def host_interval_def host_pacer_for_def derive_endpoints_def derive_ws_url_def for_chain_def
  unwrap_or_def overlay_def or_else_def urls_already_carry_a_token_def carries_def upstream_file_default_def
  server_file_default_def chain_file_default_def default_base_url_def default_data_dir_def per_chain_def
  trim_end_char_def shared_dir_def path_eq_def path_components_def path_join_def authority_def with_token_def
  PUBLIC_MAX_RPS_def from_secs_def from_millis_def nanos_per_sec_def eq_ignore_ascii_case_def

lemmas ref_defs = ref_cli_def ref_env_def ref_files_def ref_libs_def

lemmas run_defs = merge_defs build_defs ref_defs set_args_facts Let_def

lemma run_token: "\<exists>r. resolve_with ref_libs ref_files (ref_cli [] []) (ref_env (Some ''abc'')) = Inr r \<and>
     map (ch_rpc_url \<circ> snd) (rs_chains r) =
       [''https://api.avax.network/ext/bc/C/rpc?token=abc'', ''https://api.avax.network/ext/bc/P?token=abc'']"
  by (simp add: run_defs)

lemma run_idle_switch: "\<exists>r. resolve_with ref_libs ref_files (ref_cli [Chain_P] [''chains.c.enabled=true'']) (ref_env None) = Inr r"
  by (simp add: run_defs)

lemma run_data_dir: "\<exists>r. resolve_with ref_libs ref_files (ref_cli [] [''chains.c.data_dir=/d'']) (ref_env None) = Inr r"
  by (simp add: run_defs)

section \<open>Properties\<close>

text \<open>
  C17. The upstream token never shows: two runs with the same command line whose environments and
  files differ only in the value of the token (not in whether there is one) fail with the same
  error or show the same \<open>--print-config\<close> output, the same \<open>Debug\<close> of the upstream and of every
  chain, and the same startup lines.
\<close>

theorem token_never_shown:
  assumes "same_but_token cl fs en fs' en'"
  shows "map_sum id (observed L) (resolve_with L fs' cl en') = map_sum id (observed L) (resolve_with L fs cl en)"
  using assms by (rule resolve_with_hides_token)

theorem token_never_shown_witness:
  "same_but_token (ref_cli [] []) ref_files (ref_env (Some ''abc'')) ref_files (ref_env (Some ''xyz'')) \<and>
   (\<exists>r r'. resolve_with ref_libs ref_files (ref_cli [] []) (ref_env (Some ''abc'')) = Inr r \<and>
      resolve_with ref_libs ref_files (ref_cli [] []) (ref_env (Some ''xyz'')) = Inr r' \<and>
      observed ref_libs r' = observed ref_libs r)"
proof -
  have s: "same_but_token (ref_cli [] []) ref_files (ref_env (Some ''abc'')) ref_files (ref_env (Some ''xyz''))"
    by (simp add: same_but_token_def ref_env_def ref_files_def ref_cli_def equally_usable_def set_args_facts)
  with run_token token_never_shown [OF s, of ref_libs] show ?thesis
    by (cases "resolve_with ref_libs ref_files (ref_cli [] []) (ref_env (Some ''xyz''))") auto
qed

text \<open>
  C24. Whatever the file, the environment and the command line say, a configuration that resolves
  is well formed: it serves at least one chain, each once and in order; every chain has at
  least one request in flight and one slot in its join buffer, nonzero periods, logs on the
  C-Chain only, \<open>newBlocks\<close> exactly against another neve, and no pacer or the host's; no two
  chains share a store directory; the upstream has an origin without a trailing slash, a
  nonempty token if any, and a positive cap exactly when it has a host pacer; and the server
  limits are positive.
\<close>

theorem resolved_is_well_formed:
  assumes "resolve_with L fs cl en = Inr r"
  shows "resolved_ok r"
  using assms by (rule resolve_with_ok)

theorem resolved_is_well_formed_witness:
  "\<exists>r. resolve_with ref_libs ref_files (ref_cli [] []) (ref_env (Some ''abc'')) = Inr r \<and> resolved_ok r"
  using run_token resolved_is_well_formed by blast

text \<open>
  C23. A \<open>--set\<close> of a chain's key that a successful run was given, and that no later \<open>--set\<close> writes over,
  is in effect, whatever the file, the environment and the other flags say: the run serves that chain,
  and its configuration has the value the schema reads from the argument. This is so for every key of a
  chain's table but the switch \<open>enabled\<close>, which \<open>--chains\<close> overrides; a URL is asked with the upstream's token,
  and \<open>ingest_logs\<close> turns the logs of the C-chain on or off, the only chain that has any.
\<close>

theorem accepted_set_is_in_effect:
  assumes "resolve_with L fs cl en = Inr r"
    and "cl_set cl = pre @ (chain_key c k @ CHR ''='' # raw) # post" and "k \<in> set CHAIN_KEYS" "k \<noteq> ''enabled''"
    and "\<forall>a\<in>set post. apart (set_target a) [''chains'', chain_as_str c, k]"
  shows "\<exists>cfg. (c, cfg) \<in> set (rs_chains r) \<and> in_effect L (rs_upstream r) k (parse_scalar L raw) cfg"
  using assms by (rule set_in_effect)

theorem accepted_set_is_in_effect_witness:
  "\<exists>r cfg. resolve_with ref_libs ref_files (ref_cli [] [''chains.c.data_dir=/d'']) (ref_env None) = Inr r \<and>
     (Chain_C, cfg) \<in> set (rs_chains r) \<and> ch_data_dir cfg = ''/d''"
proof -
  from run_data_dir obtain r where
    r: "resolve_with ref_libs ref_files (ref_cli [] [''chains.c.data_dir=/d'']) (ref_env None) = Inr r" ..
  have "\<exists>cfg. (Chain_C, cfg) \<in> set (rs_chains r) \<and>
      in_effect ref_libs (rs_upstream r) ''data_dir'' (parse_scalar ref_libs ''/d'') cfg"
    by (rule accepted_set_is_in_effect [OF r, of "[]" _ _ _ "[]"])
       (simp_all add: ref_cli_def chain_key_def CHAIN_KEYS_def)
  moreover have "parse_scalar ref_libs ''/d'' = T_str ''/d''"
    by (simp add: parse_scalar_def ref_libs_def)
  ultimately show ?thesis using r by (auto simp: in_effect_def de_string_def)
qed

text \<open>
  The chains a run serves are exactly those selected: the \<open>--chains\<close> list when there is one,
  in canonical order and whatever any \<open>enabled\<close> key says, otherwise the chains whose last
  \<open>--set\<close> of the switch is on or which have none and which the file declares and does not
  switch off. In particular, beside \<open>--chains p\<close>, \<open>--set chains.c.enabled=true\<close> is accepted and
  has no effect.
\<close>

lemma served_chains_exact:
  assumes "resolve_with L fs cl en = Inr r"
  shows "\<exists>tree. load_tree L fs cl en = Inr tree \<and>
     map fst (rs_chains r) =
       (if cl_chains cl \<noteq> [] then sorted_list_of_set (set (cl_chains cl))
        else filter (switched_on cl tree) all_chains)"
  using resolve_with_served [OF assms] select_chains_exact by metis

lemma served_chains_exact_instance:
  "\<exists>r. resolve_with ref_libs ref_files (ref_cli [Chain_P] [''chains.c.enabled=true'']) (ref_env None) = Inr r \<and>
     map fst (rs_chains r) = [Chain_P]"
proof -
  from run_idle_switch obtain r where
    r: "resolve_with ref_libs ref_files (ref_cli [Chain_P] [''chains.c.enabled=true'']) (ref_env None) = Inr r" ..
  with served_chains_exact [OF r] show ?thesis by (simp add: ref_cli_def)
qed

text \<open>
  The endpoint derived for a chain on an avalanchego host asks for the chain's path exactly
  when the origin has no query. On an origin that carries one, such as \<open>https://h?token=x\<close>, the
  path is appended behind the query, so every chain asks for the same resource.
\<close>

lemma derived_endpoint_path:
  assumes "derive_endpoints Avalanchego base c = Inr (rpc, ws)"
  shows "url_path rpc = (if CHR ''?'' \<in> set base then url_path base else base @ rpc_path c)"
proof -
  from assms have "rpc = base @ rpc_path c"
    by (auto simp: derive_endpoints_def and_then_Inr_iff)
  moreover have "CHR ''?'' \<notin> set (rpc_path c)" by (cases c) auto
  ultimately show ?thesis
    by (simp add: url_path_append) (simp add: url_path_def split_once_None_iff [THEN iffD2])
qed

end
