(* ===== verification/Startup.thy ===== *)
theory Startup
  imports Config_Guarantees Mirror Backfill
begin

text \<open>
  Startup and shutdown (\<open>main.rs\<close>): from a resolved configuration to running instances. The
  network is a record of what each URL answers; the disk is what the blockstore directory and the
  index database hold. The live fan-out, the metrics and the process-wide notification are
  handles without a value of their own and are left out of an instance.

  The lemmas compose the configuration with the storage and the ingest loops: where a fresh
  instance starts, which loop drives it, and what a shutdown leaves on disk.
\<close>

section \<open>The network\<close>

record net =
  nt_post :: "string \<Rightarrow> upstream"
  nt_chain_id :: "string \<Rightarrow> http_reply list"
  nt_get :: "string \<Rightarrow> http_reply"

definition health_url :: "string \<Rightarrow> string" where
  "health_url base = trim_end_char (CHR ''/'') base @ ''/health''"

definition fetch_upstream_min_height :: "net \<Rightarrow> string \<Rightarrow> chain \<Rightarrow> u64 option" where
  "fetch_upstream_min_height N base c =
     (case nt_get N (health_url base) of
        Net_error \<Rightarrow> None
      | Net_reply status hdr body \<Rightarrow>
          if \<not> is_success status then None
          else Option.bind body (\<lambda>v. upstream_blocks_field v c ''min_height''))"

section \<open>One instance\<close>

datatype start_error =
    Chain_id_error id_error
  | Genesis_error genesis_error
  | Still_waiting
  | Dir_not_created
  | Open_error storage_error

definition fetch_identity :: "crypto \<Rightarrow> net \<Rightarrow> chain \<Rightarrow> string \<Rightarrow> duration \<Rightarrow> start_error + string" where
  "fetch_identity C N c rpc_url max_wait =
     (case c of
        Chain_C \<Rightarrow>
          (case fetch_chain_id rpc_url max_wait (nt_chain_id N rpc_url) of
             None \<Rightarrow> Inl Still_waiting
           | Some (Inl e) \<Rightarrow> Inl (Chain_id_error e)
           | Some (Inr n) \<Rightarrow> Inr (to_dec n))
      | Chain_P \<Rightarrow> map_err Genesis_error (fetch_genesis_id C (nt_post N rpc_url) rpc_url max_wait))"

definition resolve_anchor_floor :: "net \<Rightarrow> bool \<Rightarrow> chain_cfg \<Rightarrow> upstream_cfg \<Rightarrow> u64 option" where
  "resolve_anchor_floor N store_exists cfg up =
     (case ch_backfill_floor cfg of
        Some h \<Rightarrow> if store_exists then None else Some h
      | None \<Rightarrow>
          if up_kind up \<noteq> Neve then None
          else if store_exists then None
          else fetch_upstream_min_height N (up_base up) (ch_chain cfg))"

definition resolve_logs_source :: "net \<Rightarrow> chain_cfg \<Rightarrow> logs_source" where
  "resolve_logs_source N cfg =
     (if \<not> ch_ingest_logs cfg then GetLogs else probe_logs_source (nt_post N (ch_rpc_url cfg)))"

definition make_ingest_cfg :: "chain_cfg \<Rightarrow> u64 option \<Rightarrow> logs_source \<Rightarrow> ingest_cfg" where
  "make_ingest_cfg cfg backfill_floor logs =
     \<lparr>cfg_chain = ch_chain cfg, cfg_max_wait = ch_max_wait cfg, cfg_ws_idle_timeout = ch_ws_idle_timeout cfg,
      cfg_ws_url = ch_ws_url cfg, cfg_rpc_url = ch_rpc_url cfg, cfg_poll_interval = ch_poll_interval cfg,
      cfg_subscribe_blocks = ch_subscribe_blocks cfg, cfg_backfill_inter_fetch = ch_request_interval cfg,
      cfg_fetch_concurrency = ch_concurrency cfg, cfg_backfill_floor = backfill_floor,
      cfg_prefetch_delay_cap = ch_prefetch_delay_cap cfg, cfg_progress_period = ch_summary_period cfg,
      cfg_ingest_logs = ch_ingest_logs cfg, cfg_logs_source = logs\<rparr>"

text \<open>The fields the \<open>Debug\<close> of \<open>IngestCfg\<close> shows.\<close>

definition debug_ingest_cfg :: "ingest_cfg \<Rightarrow> chain \<times> string \<times> string" where
  "debug_ingest_cfg cfg = (cfg_chain cfg, redact_url (cfg_rpc_url cfg), redact_url (cfg_ws_url cfg))"

record ('s, 'd) instance_t =
  in_serve :: "('s, 'd) chain_serve"
  in_join :: "('s, 'd) join_buffer option"
  in_cfg :: ingest_cfg
  in_host_pacer :: "duration option"

text \<open>
  \<open>disk\<close> is the blockstore on disk, if its index file exists, \<open>d\<close> the index database, and \<open>mkdir\<close>
  whether the directory could be created.
\<close>

definition build_instance ::
  "('s, 'd) engines \<Rightarrow> crypto \<Rightarrow> net \<Rightarrow> bool \<Rightarrow> 's option \<Rightarrow> 'd \<Rightarrow> chain_cfg \<Rightarrow> upstream_cfg \<Rightarrow>
     (start_error + ('s, 'd) instance_t) \<times> 'd" where
  "build_instance E C N mkdir disk d cfg up =
     (case fetch_identity C N (ch_chain cfg) (ch_rpc_url cfg) (ch_max_wait cfg) of
        Inl e \<Rightarrow> (Inl e, d)
      | Inr identity \<Rightarrow>
          if \<not> mkdir then (Inl Dir_not_created, d)
          else
            let anchor_floor = resolve_anchor_floor N (disk \<noteq> None) cfg up
            in case storage_open E disk d (ch_chain cfg) identity anchor_floor of
                 (Inl e, d') \<Rightarrow> (Inl (Open_error e), d')
               | (Inr st, d') \<Rightarrow>
                   let icfg = make_ingest_cfg cfg anchor_floor (resolve_logs_source N cfg)
                   in (Inr \<lparr>in_serve = \<lparr>cs_chain = ch_chain cfg, cs_storage = st, cs_behind_tip = 0,
                                       cs_identity = identity, cs_data_dir = ch_data_dir cfg\<rparr>,
                            in_join = (if cfg_ingest_logs icfg then Some (join_new st (ch_join_buffer_cap cfg)) else None),
                            in_cfg = icfg, in_host_pacer = ch_host_pacer cfg\<rparr>, d'))"

text \<open>Which loops drive an instance (\<open>spawn_pipeline\<close>).\<close>

datatype pipeline = C_live_and_backfill | P_mirror_loop | P_poll_loop

definition spawn_pipeline :: "('s, 'd) instance_t \<Rightarrow> pipeline" where
  "spawn_pipeline inst =
     (case cs_chain (in_serve inst) of
        Chain_C \<Rightarrow> C_live_and_backfill
      | Chain_P \<Rightarrow> if cfg_subscribe_blocks (in_cfg inst) then P_mirror_loop else P_poll_loop)"

section \<open>Shutdown\<close>

datatype trigger = Ingest_returned "string option" | Stop_time_reached | Signal_received string | Fatal_upstream

definition run_outcome :: "trigger \<Rightarrow> string option" where
  "run_outcome t =
     (case t of
        Ingest_returned e \<Rightarrow> e
      | Stop_time_reached \<Rightarrow> None
      | Signal_received _ \<Rightarrow> None
      | Fatal_upstream \<Rightarrow> Some ''fatal upstream condition; see prior ERROR log'')"

text \<open>The stores after the flush, each with whether its flush succeeded.\<close>

definition run_until_shutdown ::
  "('s, 'd) engines \<Rightarrow> trigger \<Rightarrow> ('s, 'd) storage list \<Rightarrow>
     string option \<times> ((storage_error + unit) \<times> ('s, 'd) storage) list" where
  "run_until_shutdown E t stores = (run_outcome t, map (persist E) stores)"

section \<open>Lemmas\<close>

lemma build_instance_Inr:
  assumes "build_instance E C N mk disk d cfg up = (Inr inst, d')"
  obtains identity where
    "storage_open E disk d (ch_chain cfg) identity (resolve_anchor_floor N (disk \<noteq> None) cfg up) =
       (Inr (cs_storage (in_serve inst)), d')"
    "in_cfg inst = make_ingest_cfg cfg (resolve_anchor_floor N (disk \<noteq> None) cfg up) (resolve_logs_source N cfg)"
    "cs_chain (in_serve inst) = ch_chain cfg" "cs_identity (in_serve inst) = identity"
  using assms unfolding build_instance_def Let_def
  by (auto split: sum.splits prod.splits if_splits)

lemma storage_open_store:
  assumes "storage_open E disk d c identity anchor = (Inr st, d')"
  shows "is_empty st \<longleftrightarrow> disk = None" and "st_anchor_floor st = anchor"
  using assms by (auto simp: storage_open_def is_empty_def split: sum.splits prod.splits option.splits)

text \<open>Where a fresh store is anchored: the configured floor, else what a neve upstream retains.\<close>

definition fresh_anchor :: "net \<Rightarrow> chain_cfg \<Rightarrow> upstream_cfg \<Rightarrow> u64 option" where
  "fresh_anchor N cfg up =
     (case ch_backfill_floor cfg of
        Some h \<Rightarrow> Some h
      | None \<Rightarrow> if up_kind up = Neve then fetch_upstream_min_height N (up_base up) (ch_chain cfg) else None)"

lemma resolve_anchor_floor_eq:
  "resolve_anchor_floor N store_exists cfg up = (if store_exists then None else fresh_anchor N cfg up)"
  by (auto simp: resolve_anchor_floor_def fresh_anchor_def split: option.splits)

text \<open>A flush changes neither the blocks nor the indexes.\<close>

text \<open>Every loop of an instance begins one past the contiguous range of its store.\<close>

definition resumes :: "('s, 'd) engines \<Rightarrow> ('s, 'd) instance_t \<Rightarrow> bool" where
  "resumes E inst \<longleftrightarrow>
     (let st = cs_storage (in_serve inst); icfg = in_cfg inst; resume = sat_add (max_contiguous_height E st) 1
      in (\<forall>tip. next_height (is_empty st) (max_contiguous_height E st) icfg tip = resume) \<and>
         mirror_from E icfg st = resume \<and>
         bootstrap_from (cfg_backfill_floor icfg) (max_contiguous_height E st) = resume \<and>
         (\<forall>net now tip x y t b tip'. backfill_pass E icfg net now st tip = (Pass_fill x y t b, tip') \<longrightarrow> x = resume))"

lemma backfill_pass_start:
  assumes "backfill_pass E cfg net now st tip = (Pass_fill x y t b, tip')"
  shows "x = sat_add (max (max_contiguous_height E st) ((case cfg_backfill_floor cfg of None \<Rightarrow> 0 | Some f \<Rightarrow> f) - 1)) 1"
  using assms by (auto simp: backfill_pass_def Let_def split: if_splits prod.splits)

lemma existing_store_resumes:
  assumes "build_instance E C N mk disk d cfg up = (Inr inst, d')" "disk \<noteq> None"
  shows "resumes E inst"
proof -
  from assms(1) obtain identity where
    o: "storage_open E disk d (ch_chain cfg) identity (resolve_anchor_floor N (disk \<noteq> None) cfg up) =
       (Inr (cs_storage (in_serve inst)), d')"
    and icfg: "in_cfg inst = make_ingest_cfg cfg (resolve_anchor_floor N (disk \<noteq> None) cfg up) (resolve_logs_source N cfg)"
    by (rule build_instance_Inr)
  have "\<not> is_empty (cs_storage (in_serve inst))" using storage_open_store(1) [OF o] assms(2) by simp
  moreover have "cfg_backfill_floor (in_cfg inst) = None"
    using assms(2) by (simp add: icfg make_ingest_cfg_def resolve_anchor_floor_eq)
  ultimately show ?thesis
    unfolding resumes_def Let_def
    by (auto simp: next_height_def mirror_from_def bootstrap_from_def sat_add_def u64_max_def dest: backfill_pass_start)
qed


lemma shutdown_keeps_data:
  assumes "fjall_laws (en_fj E) view" "(out, st') \<in> set (snd (run_until_shutdown E t stores))"
  obtains st where "st \<in> set stores" "st_store st' = st_store st" "view (st_db st') = view (st_db st)"
proof -
  from assms(2) obtain st where st: "st \<in> set stores" "(out, st') = persist E st"
    by (auto simp: run_until_shutdown_def)
  then have "st' = st\<lparr>st_db := snd (fj_persist (en_fj E) (st_db st))\<rparr>"
    by (auto simp: persist_def split: prod.splits)
  with st(1) fjall_laws.persist_same [OF assms(1), of "st_db st"] show thesis by (intro that [of st]) auto
qed

text \<open>A mirror pointed at a neve reads \<open>/health\<close> at its \<open>rpc_url\<close>; with a token, that is behind the query.\<close>

lemma url_path_plain: "CHR ''?'' \<notin> set u \<Longrightarrow> url_path u = u"
  by (simp add: url_path_def split_once_None_iff [THEN iffD2])

lemma url_path_query: "CHR ''?'' \<notin> set u \<Longrightarrow> url_path (u @ CHR ''?'' # v) = u"
  by (simp add: url_path_def split_once_append)

lemma trim_end_char_query:
  "c \<noteq> CHR ''?'' \<Longrightarrow> \<exists>w. trim_end_char c (u @ CHR ''?'' # v) = u @ CHR ''?'' # w"
  by (auto simp: trim_end_char_def dropWhile_append)

lemma trim_end_char_id: "u \<noteq> [] \<Longrightarrow> last u \<noteq> c \<Longrightarrow> trim_end_char c u = u"
  by (cases u rule: rev_cases) (auto simp: trim_end_char_def)

lemma neve_rpc_url:
  assumes "resolve_chain c up d p dir ns = Inr (cfg, ns')" "up_kind up = Neve"
    and "cf_rpc_url d = None" "cf_rpc_url p = None" "up_token up = Some t"
  shows "ch_rpc_url cfg = with_token (up_base up) (up_token_param up) t"
  using assms unfolding resolve_chain_def Let_def overlay_knob case_prod_beta'
  by (auto simp: and_then_Inr_iff derive_endpoints_def split: if_split_asm)

text \<open>
  A dump of a task's configuration shows no more than the dump of the resolved configuration it was made
  from, so two runs that differ in the token only show the same.
\<close>

lemma debug_ingest_cfg_of_chain:
  "debug_ingest_cfg (make_ingest_cfg cfg fl logs) =
     (ch_chain (debug_chain cfg), ch_rpc_url (debug_chain cfg), ch_ws_url (debug_chain cfg))"
  by (simp add: debug_ingest_cfg_def make_ingest_cfg_def debug_chain_def)

lemma debug_ingest_cfg_sim:
  assumes "chain_sim c c'"
  shows "debug_ingest_cfg (make_ingest_cfg c fl logs) = debug_ingest_cfg (make_ingest_cfg c' fl' logs')"
  using assms unfolding debug_ingest_cfg_of_chain chain_sim_def by simp

text \<open>
  A startup that cannot reach its endpoint says so. For the P-chain the message has the URL without its
  query; for the C-chain it has the URL as it is, with a token that was appended to it.
\<close>

lemma unreachable_endpoint_shown:
  "nt_chain_id N url = Net_error # rs \<Longrightarrow> fetch_identity C N Chain_C url mw = Inl (Chain_id_error (Id_request_failed url))"
  "fetch_identity C N Chain_P url mw = Inl (Genesis_error (No_genesis shown)) \<Longrightarrow> shown = redact_url url"
  by (auto simp: fetch_identity_def fetch_genesis_id_def split: rpc_fetch.splits option.splits sum.splits)

section \<open>A concrete instance\<close>

definition ref_net :: net where
  "ref_net = \<lparr>nt_post = (\<lambda>_. ref_p_up), nt_chain_id = (\<lambda>_. []), nt_get = (\<lambda>_. Net_error)\<rparr>"

definition ref_p_cfg :: chain_cfg where
  "ref_p_cfg =
     \<lparr>ch_chain = Chain_P, ch_rpc_url = ''https://h/ext/bc/P'', ch_ws_url = [], ch_data_dir = ''/d/p'',
      ch_backfill_floor = Some 0, ch_request_interval = 0, ch_concurrency = 8, ch_poll_interval = from_secs 1,
      ch_max_wait = from_secs 60, ch_ws_idle_timeout = 0, ch_prefetch_delay_cap = 0, ch_ingest_logs = False,
      ch_join_buffer_cap = 1, ch_summary_period = from_secs 60, ch_subscribe_blocks = False, ch_host_pacer = None\<rparr>"

definition ref_up :: "upstream_kind \<Rightarrow> token option \<Rightarrow> upstream_cfg" where
  "ref_up kind token =
     \<lparr>up_kind = kind, up_base = ''http://h:8545'', up_token = token, up_token_param = ''token'',
      up_token_file = None, up_max_rps = None, up_host_pacer = None\<rparr>"

lemma ref_genesis: "fetch_genesis_id ref_crypto ref_p_up url mw = Inr (block_id_of ref_crypto (ref_p_raw 0))"
proof -
  have "hexnc_decode ref_crypto (''0x'' @ ref_hex_encode (ref_p_raw 0)) = Inr (ref_p_raw 0)"
    using ref_cr.hexnc_round_trip [of "ref_p_raw 0"] by (simp add: ref_crypto_def)
  then show ?thesis
    by (simp add: fetch_genesis_id_def fetch_block_encoding_def p_fetch_rpc_def P_RPC_MAX_ATTEMPTS_def numeral_3_eq_3
        ref_p_up_def rpc_body_def jget_str_def is_throttled_def rpc_result_def ref_p_hex_def)
qed

lemma ref_build:
  assumes "ch_chain cfg = Chain_P"
  shows "\<exists>inst d'. build_instance mem_engines ref_crypto ref_net True None [] cfg up = (Inr inst, d')"
proof -
  have "fst (storage_open mem_engines None [] Chain_P identity anchor) \<noteq> Inl e" for identity anchor e
    by (simp add: storage_open_def verify_and_stamp_meta_def read_stamps_def db_get_def mem_engines_def
        mem_fjall_def check_stamps_def check_chain_stamp_def check_identity_stamp_def
        check_format_stamp_def write_stamps_def insert_if_def persist_if_def and_step_def Let_def)
  then have o: "\<exists>st d'. storage_open mem_engines None [] Chain_P identity anchor = (Inr st, d')" for identity anchor
    by (metis eq_fst_iff obj_sumE)
  have id: "fetch_identity ref_crypto ref_net Chain_P u m = Inr (block_id_of ref_crypto (ref_p_raw 0))" for u m
    by (simp add: fetch_identity_def ref_net_def ref_genesis)
  from o show ?thesis
    by (auto simp: build_instance_def assms id Let_def split: prod.splits sum.splits) (metis Inr_not_Inl prod.inject)
qed

section \<open>Properties\<close>



text \<open>
  A mirror of a neve that needs a token never reads its \<open>/health\<close>: the bootstrap asks for
  \<open>/health\<close> under the chain's \<open>rpc_url\<close>, to which the token has been appended, so the path lands
  behind the query and the request goes to the endpoint itself; the probe at startup, which uses
  the bare origin, reaches \<open>/health\<close>.
\<close>

lemma tokened_mirror_misses_health:
  assumes "resolve_chain c up d p dir ns = Inr (cfg, ns')" "up_kind up = Neve" "up_token up = Some t"
    and "cf_rpc_url d = None" "cf_rpc_url p = None" "upstream_ok up" "CHR ''?'' \<notin> set (up_base up)"
  shows "url_path (health_url (ch_rpc_url cfg)) = up_base up \<and>
     url_path (health_url (up_base up)) = up_base up @ ''/health''"
proof -
  from assms(6) have base: "up_base up \<noteq> []" "last (up_base up) \<noteq> CHR ''/''" by (simp_all add: upstream_ok_def)
  have rpc: "ch_rpc_url cfg = up_base up @ CHR ''?'' # up_token_param up @ ''='' @ expose t"
    using neve_rpc_url [OF assms(1,2,4,5,3)] base(1) assms(7) split_once_None_iff [THEN iffD2, OF assms(7)]
    by (simp add: with_token_def)
  obtain w where "trim_end_char (CHR ''/'') (ch_rpc_url cfg) = up_base up @ CHR ''?'' # w"
    unfolding rpc using trim_end_char_query [of "CHR ''/''"] by auto
  then have "url_path (health_url (ch_rpc_url cfg)) = up_base up"
    using url_path_query [OF assms(7)] by (simp add: health_url_def)
  moreover have "url_path (health_url (up_base up)) = up_base up @ ''/health''"
    using assms(7) base by (simp add: health_url_def trim_end_char_id url_path_plain)
  ultimately show ?thesis ..
qed

end
