(* ===== verification/Metrics.thy ===== *)
theory Metrics
  imports Complex_Main Platform_Ingest Subscribe
begin

text \<open>
  The metrics (\<open>metrics.rs\<close>, with the recordings of \<open>join.rs\<close>): which series exist and of what kind
  they are described, what each recording helper writes, the two guards whose life time a gauge follows,
  and how the recorder is installed. The facade and the exporter are libraries, so a recording is a value: the list of
  the operations it hands to the recorder, each with its series (name and labels). Numbers that are
  converted to \<open>f64\<close> on the way are kept as the integer or the duration they come from; the help
  texts are left out.

  Results: whatever the clients and the upstream send, the recorder sees a bounded number of
  series and only operations of the kind their series is described with; and the gauges of open
  connections and open subscriptions count exactly the live ones. The contract of a guard is the
  locale \<open>raii_gauge\<close>; it is interpreted on both guards, and the connection service, which shares
  its guard among clones, refines it.
\<close>

section \<open>Names\<close>

named_theorems metric_names

definition BUILD_INFO :: string where [metric_names]:
  "BUILD_INFO = ''neve_build_info''"

definition PROCESS_START_TIME :: string where [metric_names]:
  "PROCESS_START_TIME = ''neve_process_start_time_seconds''"

definition INGEST_HEAD_HEIGHT :: string where [metric_names]:
  "INGEST_HEAD_HEIGHT = ''neve_ingest_head_height''"

definition INGEST_CONTIGUOUS_HEIGHT :: string where [metric_names]:
  "INGEST_CONTIGUOUS_HEIGHT = ''neve_ingest_contiguous_height''"

definition INGEST_BEHIND_BLOCKS :: string where [metric_names]:
  "INGEST_BEHIND_BLOCKS = ''neve_ingest_behind_blocks''"

definition INGEST_BLOCKS_TOTAL :: string where [metric_names]:
  "INGEST_BLOCKS_TOTAL = ''neve_ingest_blocks_total''"

definition INGEST_LOGS_TOTAL :: string where [metric_names]:
  "INGEST_LOGS_TOTAL = ''neve_ingest_logs_total''"

definition INGEST_LAST_BLOCK_TIMESTAMP :: string where [metric_names]:
  "INGEST_LAST_BLOCK_TIMESTAMP = ''neve_ingest_last_block_timestamp_seconds''"

definition INGEST_REJECTED_TOTAL :: string where [metric_names]:
  "INGEST_REJECTED_TOTAL = ''neve_ingest_rejected_total''"

definition RPC_REQUESTS_TOTAL :: string where [metric_names]:
  "RPC_REQUESTS_TOTAL = ''neve_rpc_requests_total''"

definition RPC_REQUEST_DURATION_SECONDS :: string where [metric_names]:
  "RPC_REQUEST_DURATION_SECONDS = ''neve_rpc_request_duration_seconds''"

definition RPC_OPEN_CONNECTIONS :: string where [metric_names]:
  "RPC_OPEN_CONNECTIONS = ''neve_rpc_open_connections''"

definition RPC_MISDIRECTED_TOTAL :: string where [metric_names]:
  "RPC_MISDIRECTED_TOTAL = ''neve_rpc_misdirected_total''"

definition GETLOGS_SERVED_TOTAL :: string where [metric_names]:
  "GETLOGS_SERVED_TOTAL = ''neve_getlogs_served_total''"

definition UPSTREAM_REQUESTS_TOTAL :: string where [metric_names]:
  "UPSTREAM_REQUESTS_TOTAL = ''neve_upstream_requests_total''"

definition UPSTREAM_FIRST_ATTEMPT_TOTAL :: string where [metric_names]:
  "UPSTREAM_FIRST_ATTEMPT_TOTAL = ''neve_upstream_first_attempt_total''"

definition UPSTREAM_PREFETCH_DELAY_SECONDS :: string where [metric_names]:
  "UPSTREAM_PREFETCH_DELAY_SECONDS = ''neve_upstream_prefetch_delay_seconds''"

definition UPSTREAM_REQUEST_DURATION_SECONDS :: string where [metric_names]:
  "UPSTREAM_REQUEST_DURATION_SECONDS = ''neve_upstream_request_duration_seconds''"

definition UPSTREAM_RETRY_AFTER_SECONDS :: string where [metric_names]:
  "UPSTREAM_RETRY_AFTER_SECONDS = ''neve_upstream_retry_after_seconds''"

definition UPSTREAM_CONNECTED_SINCE :: string where [metric_names]:
  "UPSTREAM_CONNECTED_SINCE = ''neve_upstream_connected_since_seconds''"

definition UPSTREAM_WS_RECONNECTS_TOTAL :: string where [metric_names]:
  "UPSTREAM_WS_RECONNECTS_TOTAL = ''neve_upstream_ws_reconnects_total''"

definition UPSTREAM_WS_IDLE_TIMEOUTS_TOTAL :: string where [metric_names]:
  "UPSTREAM_WS_IDLE_TIMEOUTS_TOTAL = ''neve_upstream_ws_idle_timeouts_total''"

definition SUB_OPEN :: string where [metric_names]:
  "SUB_OPEN = ''neve_sub_open''"

definition SUB_LAGGED_TOTAL :: string where [metric_names]:
  "SUB_LAGGED_TOTAL = ''neve_sub_lagged_total''"

definition SUB_SENT_BYTES_TOTAL :: string where [metric_names]:
  "SUB_SENT_BYTES_TOTAL = ''neve_sub_sent_bytes_total''"

definition JOIN_BUFFER_INCOMPLETE :: string where [metric_names]:
  "JOIN_BUFFER_INCOMPLETE = ''neve_join_buffer_incomplete''"

definition JOIN_BUFFER_INCOMPLETE_BYTES :: string where [metric_names]:
  "JOIN_BUFFER_INCOMPLETE_BYTES = ''neve_join_buffer_incomplete_bytes''"

definition JOIN_BUFFER_OLDEST_PENDING :: string where [metric_names]:
  "JOIN_BUFFER_OLDEST_PENDING = ''neve_join_buffer_oldest_pending_seconds''"

definition JOIN_LATENCY :: string where [metric_names]:
  "JOIN_LATENCY = ''neve_join_latency_seconds''"

definition JOIN_COMPLETED_TOTAL :: string where [metric_names]:
  "JOIN_COMPLETED_TOTAL = ''neve_join_completed_total''"

definition JOIN_BUFFER_CAP_HIT_TOTAL :: string where [metric_names]:
  "JOIN_BUFFER_CAP_HIT_TOTAL = ''neve_join_buffer_cap_hit_total''"

definition JOIN_BUFFER_CAPACITY :: string where [metric_names]:
  "JOIN_BUFFER_CAPACITY = ''neve_join_buffer_capacity''"

section \<open>Recordings\<close>

datatype m_kind = Counter | Gauge | Histogram

datatype m_unit = Seconds | Bytes

text \<open>A number handed to the recorder: an integer cast to \<open>f64\<close>, or a duration in nanoseconds as seconds.\<close>

datatype m_value = Cast nat | As_secs nat

datatype m_op =
    Increment_by u64
  | Set_to m_value
  | Increment_one
  | Decrement_one
  | Record_value m_value

type_synonym series = "string \<times> (string \<times> string) list"

type_synonym recording = "series \<times> m_op"

fun op_kind :: "m_op \<Rightarrow> m_kind" where
  "op_kind (Increment_by _) = Counter"
| "op_kind (Set_to _) = Gauge"
| "op_kind Increment_one = Gauge"
| "op_kind Decrement_one = Gauge"
| "op_kind (Record_value _) = Histogram"

definition CHAIN :: string where
  "CHAIN = ''chain''"

abbreviation chain_label :: "chain \<Rightarrow> string \<times> string" where
  "chain_label c \<equiv> (CHAIN, chain_as_str c)"

section \<open>Label values\<close>

datatype block_source = Source_Live | Source_Backfill

fun source_as_str :: "block_source \<Rightarrow> string" where
  "source_as_str Source_Live = ''live''"
| "source_as_str Source_Backfill = ''backfill''"

datatype upstream_outcome =
    Outcome_Ok
  | Outcome_Empty
  | Outcome_TooManyRequests
  | Outcome_ServiceUnavailable
  | Outcome_Error

fun outcome_as_str :: "upstream_outcome \<Rightarrow> string" where
  "outcome_as_str Outcome_Ok = ''ok''"
| "outcome_as_str Outcome_Empty = ''empty''"
| "outcome_as_str Outcome_TooManyRequests = ''429''"
| "outcome_as_str Outcome_ServiceUnavailable = ''503''"
| "outcome_as_str Outcome_Error = ''error''"

definition outcome_of_status :: "nat \<Rightarrow> upstream_outcome" where
  "outcome_of_status status =
     (if status = 429 then Outcome_TooManyRequests
      else if status = 503 then Outcome_ServiceUnavailable
      else Outcome_Error)"

text \<open>The reason of a refused block; a block that does not serialise is dropped without a count.\<close>

fun reject_reason :: "reject \<Rightarrow> string option" where
  "reject_reason Reject_bad_hex = Some ''bad_hex''"
| "reject_reason Reject_id_mismatch = Some ''id_mismatch''"
| "reject_reason Reject_no_height = Some ''no_height''"
| "reject_reason Reject_height_mismatch = Some ''height_mismatch''"
| "reject_reason (Reject_bad_id _) = Some ''bad_id''"
| "reject_reason Reject_serialize = None"

text \<open>The bounded label of a method.\<close>

definition method_label :: "string list \<Rightarrow> string \<Rightarrow> string" where
  "method_label methods m = (case find (\<lambda>x. x = m) methods of Some x \<Rightarrow> x | None \<Rightarrow> ''other'')"

section \<open>Helpers\<close>

definition process_metadata :: "string \<Rightarrow> string \<Rightarrow> nat \<Rightarrow> recording list" where
  "process_metadata version commit start =
     [((BUILD_INFO, [(''version'', version), (''commit'', commit)]), Set_to (Cast 1)),
      ((PROCESS_START_TIME, []), Set_to (As_secs start))]"

definition ingest_heights :: "chain \<Rightarrow> u64 \<Rightarrow> u64 \<Rightarrow> u64 \<Rightarrow> recording list" where
  "ingest_heights c head contiguous behind =
     [((INGEST_HEAD_HEIGHT, [chain_label c]), Set_to (Cast head)),
      ((INGEST_CONTIGUOUS_HEIGHT, [chain_label c]), Set_to (Cast contiguous)),
      ((INGEST_BEHIND_BLOCKS, [chain_label c]), Set_to (Cast behind))]"

definition block_persisted :: "chain \<Rightarrow> block_source \<Rightarrow> recording list" where
  "block_persisted c src =
     [((INGEST_BLOCKS_TOTAL, [chain_label c, (''source'', source_as_str src)]), Increment_by 1)]"

definition block_rejected :: "chain \<Rightarrow> string \<Rightarrow> recording list" where
  "block_rejected c reason =
     [((INGEST_REJECTED_TOTAL, [chain_label c, (''reason'', reason)]), Increment_by 1)]"

definition logs_persisted :: "chain \<Rightarrow> block_source \<Rightarrow> u64 \<Rightarrow> recording list" where
  "logs_persisted c src n =
     [((INGEST_LOGS_TOTAL, [chain_label c, (''source'', source_as_str src)]), Increment_by n)]"

definition last_block_timestamp :: "chain \<Rightarrow> u64 \<Rightarrow> recording list" where
  "last_block_timestamp c secs = [((INGEST_LAST_BLOCK_TIMESTAMP, [chain_label c]), Set_to (Cast secs))]"

definition rpc_call :: "string \<Rightarrow> string \<Rightarrow> nat \<Rightarrow> recording list" where
  "rpc_call meth status elapsed =
     [((RPC_REQUESTS_TOTAL, [(''method'', meth), (''status'', status)]), Increment_by 1),
      ((RPC_REQUEST_DURATION_SECONDS, [(''method'', meth)]), Record_value (As_secs elapsed))]"

definition rpc_misdirected :: "recording list" where
  "rpc_misdirected = [((RPC_MISDIRECTED_TOTAL, []), Increment_by 1)]"

definition getlogs_served :: "string \<Rightarrow> recording list" where
  "getlogs_served scan = [((GETLOGS_SERVED_TOTAL, [(''scan'', scan)]), Increment_by 1)]"

definition upstream_request :: "chain \<Rightarrow> upstream_outcome \<Rightarrow> nat \<Rightarrow> recording list" where
  "upstream_request c outcome elapsed =
     [((UPSTREAM_REQUESTS_TOTAL, [chain_label c, (''outcome'', outcome_as_str outcome)]), Increment_by 1),
      ((UPSTREAM_REQUEST_DURATION_SECONDS, [chain_label c]), Record_value (As_secs elapsed))]"

definition upstream_first_attempt :: "chain \<Rightarrow> bool \<Rightarrow> nat \<Rightarrow> recording list" where
  "upstream_first_attempt c first_try_ok prefetch_delay =
     [((UPSTREAM_FIRST_ATTEMPT_TOTAL,
         [chain_label c, (''outcome'', if first_try_ok then ''ok'' else ''empty'')]), Increment_by 1),
      ((UPSTREAM_PREFETCH_DELAY_SECONDS, [chain_label c]), Set_to (As_secs prefetch_delay))]"

definition upstream_retry_after :: "chain \<Rightarrow> u64 \<Rightarrow> recording list" where
  "upstream_retry_after c secs = [((UPSTREAM_RETRY_AFTER_SECONDS, [chain_label c]), Record_value (Cast secs))]"

definition upstream_connected :: "chain \<Rightarrow> nat \<Rightarrow> recording list" where
  "upstream_connected c now = [((UPSTREAM_CONNECTED_SINCE, [chain_label c]), Set_to (As_secs now))]"

definition ws_reconnect :: "chain \<Rightarrow> recording list" where
  "ws_reconnect c = [((UPSTREAM_WS_RECONNECTS_TOTAL, [chain_label c]), Increment_by 1)]"

definition ws_idle_timeout :: "chain \<Rightarrow> recording list" where
  "ws_idle_timeout c = [((UPSTREAM_WS_IDLE_TIMEOUTS_TOTAL, [chain_label c]), Increment_by 1)]"

text \<open>The recordings of the join buffer: of one decision being carried out, and of its gauges.\<close>

fun join_recordings :: "chain \<Rightarrow> instant \<Rightarrow> write_act \<Rightarrow> recording list" where
  "join_recordings c now (Act_Write hash txs block_bytes logs first since) =
     [((JOIN_COMPLETED_TOTAL, [chain_label c, (''first'', half_as_str first)]), Increment_by 1),
      ((JOIN_LATENCY, [chain_label c]), Record_value (As_secs (now - since)))]"
| "join_recordings c now Act_Buffered = []"
| "join_recordings c now Act_Deferred = [((JOIN_BUFFER_CAP_HIT_TOTAL, [chain_label c]), Increment_by 1)]"

definition join_gauge_recordings :: "chain \<Rightarrow> join_gauges \<Rightarrow> recording list" where
  "join_gauge_recordings c g =
     [((JOIN_BUFFER_INCOMPLETE, [chain_label c, (''half'', half_as_str Half_Block)]), Set_to (Cast (jg_block_count g))),
      ((JOIN_BUFFER_INCOMPLETE, [chain_label c, (''half'', half_as_str Half_Log)]), Set_to (Cast (jg_log_count g))),
      ((JOIN_BUFFER_INCOMPLETE_BYTES, [chain_label c, (''half'', half_as_str Half_Block)]), Set_to (Cast (jg_block_bytes g))),
      ((JOIN_BUFFER_INCOMPLETE_BYTES, [chain_label c, (''half'', half_as_str Half_Log)]), Set_to (Cast (jg_log_bytes g))),
      ((JOIN_BUFFER_OLDEST_PENDING, [chain_label c, (''half'', half_as_str Half_Block)]), Set_to (As_secs (jg_block_oldest g))),
      ((JOIN_BUFFER_OLDEST_PENDING, [chain_label c, (''half'', half_as_str Half_Log)]), Set_to (As_secs (jg_log_oldest g))),
      ((JOIN_BUFFER_CAPACITY, [chain_label c]), Set_to (Cast (jg_capacity g)))]"

section \<open>Guards\<close>

record sub_guard =
  sg_chain :: chain
  sg_kind :: sub_kind

definition sub_labels :: "sub_guard \<Rightarrow> (string \<times> string) list" where
  "sub_labels g = [chain_label (sg_chain g), (''kind'', kind_as_str (sg_kind g))]"

definition sub_guard_new :: "sub_guard \<Rightarrow> recording" where
  "sub_guard_new g = ((SUB_OPEN, sub_labels g), Increment_one)"

definition sub_guard_lagged :: "sub_guard \<Rightarrow> u64 \<Rightarrow> recording" where
  "sub_guard_lagged g n = ((SUB_LAGGED_TOTAL, sub_labels g), Increment_by n)"

definition sub_guard_sent_bytes :: "sub_guard \<Rightarrow> u64 \<Rightarrow> recording" where
  "sub_guard_sent_bytes g n = ((SUB_SENT_BYTES_TOTAL, sub_labels g), Increment_by n)"

definition sub_guard_drop :: "sub_guard \<Rightarrow> recording" where
  "sub_guard_drop g = ((SUB_OPEN, sub_labels g), Decrement_one)"

definition conn_guard_new :: recording where
  "conn_guard_new = ((RPC_OPEN_CONNECTIONS, []), Increment_one)"

definition conn_guard_drop :: recording where
  "conn_guard_drop = ((RPC_OPEN_CONNECTIONS, []), Decrement_one)"

definition rpc_service_call :: "string list \<Rightarrow> string \<Rightarrow> bool \<Rightarrow> nat \<Rightarrow> recording list" where
  "rpc_service_call methods wire_name success elapsed =
     rpc_call (method_label methods wire_name) (if success then ''ok'' else ''error'') elapsed"

text \<open>
  The connection service: an open makes a guard, every clone shares it (\<open>Arc\<close>), and the last
  clone that is dropped drops it. The state is the list of live service values, each named by its
  connection; dropping a value that is not there cannot happen in Rust and has no result.
\<close>

datatype conn_event = Conn_open nat | Conn_clone nat | Conn_call nat string bool nat | Conn_drop nat

fun conn_service :: "string list \<Rightarrow> conn_event \<Rightarrow> nat list \<Rightarrow> (nat list \<times> recording list) option" where
  "conn_service methods (Conn_open i) live =
     (if i \<in> set live then None else Some (i # live, [conn_guard_new]))"
| "conn_service methods (Conn_clone i) live =
     (if i \<in> set live then Some (i # live, []) else None)"
| "conn_service methods (Conn_call i wire_name success elapsed) live =
     (if i \<in> set live then Some (live, rpc_service_call methods wire_name success elapsed) else None)"
| "conn_service methods (Conn_drop i) live =
     (if i \<in> set live
      then Some (remove1 i live, if i \<in> set (remove1 i live) then [] else [conn_guard_drop])
      else None)"

fun conn_services :: "string list \<Rightarrow> conn_event list \<Rightarrow> nat list \<Rightarrow> (nat list \<times> recording list) option" where
  "conn_services methods [] live = Some (live, [])"
| "conn_services methods (e # es) live =
     (case conn_service methods e live of
        None \<Rightarrow> None
      | Some (live', rs) \<Rightarrow> map_option (\<lambda>(l, rs'). (l, rs @ rs')) (conn_services methods es live'))"

section \<open>Descriptions\<close>

definition GAUGES :: "(string \<times> m_unit option) list" where
  "GAUGES =
     [(BUILD_INFO, None), (PROCESS_START_TIME, Some Seconds), (INGEST_HEAD_HEIGHT, None),
      (INGEST_CONTIGUOUS_HEIGHT, None), (INGEST_BEHIND_BLOCKS, None), (INGEST_LAST_BLOCK_TIMESTAMP, Some Seconds),
      (RPC_OPEN_CONNECTIONS, None), (UPSTREAM_PREFETCH_DELAY_SECONDS, Some Seconds),
      (UPSTREAM_CONNECTED_SINCE, Some Seconds), (SUB_OPEN, None), (JOIN_BUFFER_INCOMPLETE, None),
      (JOIN_BUFFER_INCOMPLETE_BYTES, Some Bytes), (JOIN_BUFFER_OLDEST_PENDING, Some Seconds),
      (JOIN_BUFFER_CAPACITY, None)]"

definition COUNTERS :: "string list" where
  "COUNTERS =
     [INGEST_BLOCKS_TOTAL, INGEST_LOGS_TOTAL, INGEST_REJECTED_TOTAL, RPC_REQUESTS_TOTAL, RPC_MISDIRECTED_TOTAL,
      GETLOGS_SERVED_TOTAL, UPSTREAM_REQUESTS_TOTAL, UPSTREAM_FIRST_ATTEMPT_TOTAL, UPSTREAM_WS_RECONNECTS_TOTAL,
      UPSTREAM_WS_IDLE_TIMEOUTS_TOTAL, SUB_LAGGED_TOTAL, SUB_SENT_BYTES_TOTAL, JOIN_COMPLETED_TOTAL,
      JOIN_BUFFER_CAP_HIT_TOTAL]"

definition HISTOGRAMS :: "(string \<times> m_unit) list" where
  "HISTOGRAMS =
     [(RPC_REQUEST_DURATION_SECONDS, Seconds), (UPSTREAM_REQUEST_DURATION_SECONDS, Seconds),
      (UPSTREAM_RETRY_AFTER_SECONDS, Seconds), (JOIN_LATENCY, Seconds)]"

definition describe_metrics :: "(string \<times> m_kind \<times> m_unit option) list" where
  "describe_metrics =
     map (\<lambda>(name, unit). (name, Gauge, unit)) GAUGES @
     map (\<lambda>name. (name, Counter, None)) COUNTERS @
     map (\<lambda>(name, unit). (name, Histogram, Some unit)) HISTOGRAMS"

section \<open>Installing the recorder\<close>

text \<open>The upper bounds of the buckets, in seconds.\<close>

definition RETRY_AFTER_BUCKETS :: "rat list" where
  "RETRY_AFTER_BUCKETS = [1 / 2, 1, 2, 5, 10, 30, 60, 120, 300, 600]"

definition UPSTREAM_DURATION_BUCKETS :: "rat list" where
  "UPSTREAM_DURATION_BUCKETS =
     [1 / 100, 15 / 1000, 2 / 100, 3 / 100, 5 / 100, 7 / 100, 1 / 10, 15 / 100, 2 / 10, 3 / 10, 5 / 10, 7 / 10, 1, 15 / 10, 2]"

definition RPC_DURATION_BUCKETS :: "rat list" where
  "RPC_DURATION_BUCKETS =
     [25 / 1000000, 5 / 100000, 1 / 10000, 25 / 100000, 5 / 10000, 1 / 1000, 25 / 10000, 5 / 1000, 1 / 100, 25 / 1000,
      5 / 100, 1 / 10, 25 / 100, 5 / 10]"

definition JOIN_LATENCY_BUCKETS :: "rat list" where
  "JOIN_LATENCY_BUCKETS = [1 / 1000, 5 / 1000, 1 / 100, 5 / 100, 1 / 10, 5 / 10, 1, 5, 15, 60, 120]"

datatype install_error = Buckets_rejected string | Recorder_already_set

text \<open>
  The builder is library code: \<open>accepts\<close> says whether it takes a list of bounds, \<open>taken\<close> whether the process
  has a recorder already. The handle stands for what has been described and recorded so far.
\<close>

fun set_buckets :: "(rat list \<Rightarrow> bool) \<Rightarrow> (string \<times> rat list) list \<Rightarrow> install_error + unit" where
  "set_buckets accepts [] = Inr ()"
| "set_buckets accepts ((name, bounds) # rest) =
     (if accepts bounds then set_buckets accepts rest else Inl (Buckets_rejected name))"

definition bucket_settings :: "(string \<times> rat list) list" where
  "bucket_settings =
     [(UPSTREAM_RETRY_AFTER_SECONDS, RETRY_AFTER_BUCKETS), (RPC_REQUEST_DURATION_SECONDS, RPC_DURATION_BUCKETS),
      (UPSTREAM_REQUEST_DURATION_SECONDS, UPSTREAM_DURATION_BUCKETS), (JOIN_LATENCY, JOIN_LATENCY_BUCKETS)]"

definition install ::
  "(rat list \<Rightarrow> bool) \<Rightarrow> bool \<Rightarrow> string \<Rightarrow> string \<Rightarrow> nat \<Rightarrow>
     install_error + (string \<times> m_kind \<times> m_unit option) list \<times> recording list" where
  "install accepts taken version commit start =
     and_then (set_buckets accepts bucket_settings) (\<lambda>_.
       if taken then Inl Recorder_already_set
       else Inr (describe_metrics, process_metadata version commit start))"

text \<open>Exactly the described histograms have bounds of their own, and the bounds of each ascend from above 0.\<close>

lemma bucket_settings_fit:
  "set (map fst bucket_settings) = set (map fst HISTOGRAMS)" "distinct (map fst bucket_settings)"
  "(name, bounds) \<in> set bucket_settings \<Longrightarrow> bounds \<noteq> [] \<and> sorted_wrt (<) (0 # bounds)"
  by (auto simp: bucket_settings_def HISTOGRAMS_def metric_names RETRY_AFTER_BUCKETS_def RPC_DURATION_BUCKETS_def
      UPSTREAM_DURATION_BUCKETS_def JOIN_LATENCY_BUCKETS_def)

text \<open>A builder that takes every nonempty ascending list lets the installation fail only where there is a recorder.\<close>

lemma install_fails_iff:
  assumes "\<And>bounds. bounds \<noteq> [] \<Longrightarrow> sorted_wrt (<) bounds \<Longrightarrow> accepts bounds"
  shows "isl (install accepts taken version commit start) \<longleftrightarrow> taken"
proof -
  have "set_buckets accepts bs = Inr ()" if "\<forall>(n, b) \<in> set bs. accepts b" for bs
    using that by (induction bs) auto
  moreover have "\<forall>(n, b) \<in> set bucket_settings. accepts b"
    using bucket_settings_fit(3) assms by fastforce
  ultimately show ?thesis by (simp add: install_def)
qed

text \<open>
  Every place where the program's own code records, with what it passes. The process collector, a library
  that adds series of its own at each scrape, is not among them.
\<close>

datatype metric_call =
    At_start nat
  | At_heights chain u64 u64 u64
  | At_persisted chain block_source
  | At_rejected reject
  | At_logs chain block_source u64
  | At_timestamp chain u64
  | At_misdirected
  | At_getlogs
  | At_status chain nat nat
  | At_outcome chain upstream_outcome nat
  | At_first chain bool nat
  | At_retry_after chain u64
  | At_connected chain nat
  | At_reconnect chain
  | At_idle chain
  | At_join chain instant write_act
  | At_join_gauges chain join_gauges
  | At_sub_new sub_guard
  | At_sub_lagged sub_guard u64
  | At_sub_sent sub_guard u64
  | At_sub_drop sub_guard
  | At_conn_new
  | At_conn_drop
  | At_rpc string bool nat

fun recordings :: "string \<Rightarrow> string \<Rightarrow> string list \<Rightarrow> metric_call \<Rightarrow> recording list" where
  "recordings version commit methods (At_start now) = process_metadata version commit now"
| "recordings version commit methods (At_heights c head contiguous behind) = ingest_heights c head contiguous behind"
| "recordings version commit methods (At_persisted c src) = block_persisted c src"
| "recordings version commit methods (At_rejected why) =
     (case reject_reason why of None \<Rightarrow> [] | Some reason \<Rightarrow> block_rejected Chain_P reason)"
| "recordings version commit methods (At_logs c src n) = logs_persisted c src n"
| "recordings version commit methods (At_timestamp c secs) = last_block_timestamp c secs"
| "recordings version commit methods At_misdirected = rpc_misdirected"
| "recordings version commit methods At_getlogs = getlogs_served ''range''"
| "recordings version commit methods (At_status c status elapsed) = upstream_request c (outcome_of_status status) elapsed"
| "recordings version commit methods (At_outcome c outcome elapsed) = upstream_request c outcome elapsed"
| "recordings version commit methods (At_first c ok delay) = upstream_first_attempt c ok delay"
| "recordings version commit methods (At_retry_after c secs) = upstream_retry_after c secs"
| "recordings version commit methods (At_connected c now) = upstream_connected c now"
| "recordings version commit methods (At_reconnect c) = ws_reconnect c"
| "recordings version commit methods (At_idle c) = ws_idle_timeout c"
| "recordings version commit methods (At_join c now act) = join_recordings c now act"
| "recordings version commit methods (At_join_gauges c g) = join_gauge_recordings c g"
| "recordings version commit methods (At_sub_new g) = [sub_guard_new g]"
| "recordings version commit methods (At_sub_lagged g n) = [sub_guard_lagged g n]"
| "recordings version commit methods (At_sub_sent g n) = [sub_guard_sent_bytes g n]"
| "recordings version commit methods (At_sub_drop g) = [sub_guard_drop g]"
| "recordings version commit methods At_conn_new = [conn_guard_new]"
| "recordings version commit methods At_conn_drop = [conn_guard_drop]"
| "recordings version commit methods (At_rpc wire_name ok elapsed) = rpc_service_call methods wire_name ok elapsed"

lemmas recording_defs =
  process_metadata_def ingest_heights_def block_persisted_def block_rejected_def logs_persisted_def
  last_block_timestamp_def rpc_call_def rpc_misdirected_def getlogs_served_def upstream_request_def
  upstream_first_attempt_def upstream_retry_after_def upstream_connected_def ws_reconnect_def
  ws_idle_timeout_def join_gauge_recordings_def sub_guard_new_def sub_guard_lagged_def
  sub_guard_sent_bytes_def sub_guard_drop_def conn_guard_new_def conn_guard_drop_def rpc_service_call_def

section \<open>Kinds\<close>

lemma described_names_distinct: "distinct (map fst describe_metrics)"
  by (simp add: describe_metrics_def GAUGES_def COUNTERS_def HISTOGRAMS_def metric_names)

definition described_as :: "recording \<Rightarrow> bool" where
  "described_as r \<longleftrightarrow> map_option fst (map_of describe_metrics (fst (fst r))) = Some (op_kind (snd r))"

definition described_kinds :: "(string \<times> m_kind) list" where
  "described_kinds = map (\<lambda>(name, kind, unit). (name, kind)) describe_metrics"

lemma described_as_kinds: "described_as r \<longleftrightarrow> (fst (fst r), op_kind (snd r)) \<in> set described_kinds"
  using described_names_distinct
  by (auto simp: described_as_def described_kinds_def map_of_eq_Some_iff image_iff Bex_def)

lemma recordings_described: "list_all described_as (recordings version commit methods call)"
proof -
  have join: "list_all described_as (join_recordings c now act)" for c now act
    by (cases act) (simp_all add: described_as_kinds described_kinds_def describe_metrics_def GAUGES_def
        COUNTERS_def HISTOGRAMS_def)
  show ?thesis
    by (cases call) (simp_all add: join described_as_kinds described_kinds_def describe_metrics_def GAUGES_def
        COUNTERS_def HISTOGRAMS_def recording_defs split: option.split)
qed

section \<open>Series\<close>

text \<open>The labels of every series and the values each label can take.\<close>

definition chain_values :: "string list" where
  "chain_values = map chain_as_str all_chains"

definition source_values :: "string list" where
  "source_values = map source_as_str [Source_Live, Source_Backfill]"

definition half_values :: "string list" where
  "half_values = map half_as_str [Half_Block, Half_Log]"

definition kind_values :: "string list" where
  "kind_values = map kind_as_str [NewHeads, NewBlocks, NewRecords, OldBlocks, OldRecords]"

definition outcome_values :: "string list" where
  "outcome_values = map outcome_as_str
     [Outcome_Ok, Outcome_Empty, Outcome_TooManyRequests, Outcome_ServiceUnavailable, Outcome_Error]"

definition reason_values :: "string list" where
  "reason_values = [''bad_hex'', ''id_mismatch'', ''no_height'', ''height_mismatch'', ''bad_id'']"

definition method_values :: "string list \<Rightarrow> string list" where
  "method_values methods = ''other'' # methods"

lemmas value_defs =
  chain_values_def source_values_def half_values_def kind_values_def outcome_values_def reason_values_def
  method_values_def

definition label_ranges :: "string \<Rightarrow> string \<Rightarrow> string list \<Rightarrow> (string \<times> (string \<times> string list) list) list" where
  "label_ranges version commit methods =
     (let c = (CHAIN, chain_values);
          src = (''source'', source_values);
          half = (\<lambda>key. (key, half_values));
          kind = (''kind'', kind_values);
          meth = (''method'', method_values methods)
      in [(BUILD_INFO, [(''version'', [version]), (''commit'', [commit])]), (PROCESS_START_TIME, []),
          (INGEST_HEAD_HEIGHT, [c]), (INGEST_CONTIGUOUS_HEIGHT, [c]), (INGEST_BEHIND_BLOCKS, [c]),
          (INGEST_LAST_BLOCK_TIMESTAMP, [c]), (RPC_OPEN_CONNECTIONS, []),
          (UPSTREAM_PREFETCH_DELAY_SECONDS, [c]), (UPSTREAM_CONNECTED_SINCE, [c]), (SUB_OPEN, [c, kind]),
          (JOIN_BUFFER_INCOMPLETE, [c, half ''half'']), (JOIN_BUFFER_INCOMPLETE_BYTES, [c, half ''half'']),
          (JOIN_BUFFER_OLDEST_PENDING, [c, half ''half'']), (JOIN_BUFFER_CAPACITY, [c]),
          (INGEST_BLOCKS_TOTAL, [c, src]), (INGEST_LOGS_TOTAL, [c, src]),
          (INGEST_REJECTED_TOTAL,
             [(CHAIN, [chain_as_str Chain_P]),
              (''reason'', reason_values)]),
          (RPC_REQUESTS_TOTAL, [meth, (''status'', [''ok'', ''error''])]), (RPC_MISDIRECTED_TOTAL, []),
          (GETLOGS_SERVED_TOTAL, [(''scan'', [''range''])]),
          (UPSTREAM_REQUESTS_TOTAL,
             [c, (''outcome'', outcome_values)]),
          (UPSTREAM_FIRST_ATTEMPT_TOTAL, [c, (''outcome'', [''ok'', ''empty''])]),
          (UPSTREAM_WS_RECONNECTS_TOTAL, [c]), (UPSTREAM_WS_IDLE_TIMEOUTS_TOTAL, [c]),
          (SUB_LAGGED_TOTAL, [c, kind]), (SUB_SENT_BYTES_TOTAL, [c, kind]),
          (JOIN_COMPLETED_TOTAL, [c, half ''first'']), (JOIN_BUFFER_CAP_HIT_TOTAL, [c]),
          (RPC_REQUEST_DURATION_SECONDS, [meth]), (UPSTREAM_REQUEST_DURATION_SECONDS, [c]),
          (UPSTREAM_RETRY_AFTER_SECONDS, [c]), (JOIN_LATENCY, [c])])"

fun label_lists :: "(string \<times> string list) list \<Rightarrow> (string \<times> string) list list" where
  "label_lists [] = [[]]"
| "label_lists ((k, vs) # r) = concat (map (\<lambda>v. map ((#) (k, v)) (label_lists r)) vs)"

definition all_series :: "(string \<times> (string \<times> string list) list) list \<Rightarrow> series list" where
  "all_series ranges = concat (map (\<lambda>(name, r). map (Pair name) (label_lists r)) ranges)"

fun in_ranges :: "(string \<times> string) list \<Rightarrow> (string \<times> string list) list \<Rightarrow> bool" where
  "in_ranges [] [] \<longleftrightarrow> True"
| "in_ranges ((k, v) # ls) ((k', vs) # r) \<longleftrightarrow> k = k' \<and> v \<in> set vs \<and> in_ranges ls r"
| "in_ranges _ _ \<longleftrightarrow> False"

lemma in_ranges_label_lists: "in_ranges ls r \<Longrightarrow> ls \<in> set (label_lists r)"
  by (induction ls r rule: in_ranges.induct) auto

lemma length_label_lists: "length (label_lists r) = prod_list (map (length \<circ> snd) r)"
  by (induction r) (auto simp: length_concat comp_def sum_list_triv)

lemma label_values [simp]:
  "chain_as_str c \<in> set chain_values"
  "source_as_str src \<in> set source_values"
  "half_as_str h \<in> set half_values"
  "kind_as_str k \<in> set kind_values"
  "outcome_as_str out \<in> set outcome_values"
  "method_label methods m \<in> set (method_values methods)"
  unfolding value_defs
  by ((cases c; simp add: all_chains_def), (cases src; simp), (cases h; simp), (cases k; simp), (cases out; simp),
      (auto simp: method_label_def find_Some_iff split: option.splits))

lemma reason_value: "reject_reason why = Some reason \<Longrightarrow> reason \<in> set reason_values"
  by (cases why) (auto simp: value_defs)

lemma all_series_memI:
  "(name, r) \<in> set ranges \<Longrightarrow> in_ranges ls r \<Longrightarrow> (name, ls) \<in> set (all_series ranges)"
  by (force simp: all_series_def dest: in_ranges_label_lists)

lemma length_all_series: "length (all_series ranges) = (\<Sum>(name, r)\<leftarrow>ranges. prod_list (map (length \<circ> snd) r))"
  by (simp add: all_series_def length_concat comp_def split_def length_label_lists)

definition in_range :: "string \<Rightarrow> string \<Rightarrow> string list \<Rightarrow> recording \<Rightarrow> bool" where
  "in_range version commit methods r \<longleftrightarrow>
     (\<exists>l \<in> set (label_ranges version commit methods). fst l = fst (fst r) \<and> in_ranges (snd (fst r)) (snd l))"

lemma recordings_in_range: "list_all (in_range version commit methods) (recordings version commit methods call)"
proof -
  note range_defs = in_range_def label_ranges_def Let_def
  have join: "list_all (in_range version commit methods) (join_recordings c now act)" for c now act
    by (cases act) (simp_all add: range_defs)
  show ?thesis
    by (cases call) (simp_all add: join range_defs recording_defs sub_labels_def reason_value
        del: half_as_str.simps split: option.split)
qed

lemma in_range_series:
  "in_range version commit methods r \<Longrightarrow> fst r \<in> set (all_series (label_ranges version commit methods))"
  unfolding in_range_def by (metis all_series_memI prod.collapse)

lemma card_series:
  "card (fst ` set (concat (map (recordings version commit methods) calls))) \<le> 107 + 3 * length methods"
proof -
  let ?R = "label_ranges version commit methods"
  have "fst r \<in> set (all_series ?R)" if "r \<in> set (recordings version commit methods call)" for r call
    using recordings_in_range [of version commit methods call] that
    by (auto simp: list_all_iff intro: in_range_series)
  then have "fst ` set (concat (map (recordings version commit methods) calls)) \<subseteq> set (all_series ?R)"
    by auto
  then have "card (fst ` set (concat (map (recordings version commit methods) calls))) \<le> length (all_series ?R)"
    by (meson List.finite_set card_length card_mono le_trans)
  also have "\<dots> = 107 + 3 * length methods"
    by (simp add: length_all_series label_ranges_def Let_def value_defs all_chains_def)
  finally show ?thesis .
qed

section \<open>The life of a guard\<close>

text \<open>
  How often the gauge of a series was raised more than lowered. It is what the gauge shows, since
  the guards are the only ones to write to it and only in steps of one.
\<close>

definition gauge_balance :: "series \<Rightarrow> recording list \<Rightarrow> int" where
  "gauge_balance s rs = int (count_list rs (s, Increment_one)) - int (count_list rs (s, Decrement_one))"

lemma gauge_balance_simps [simp]:
  "gauge_balance s [] = 0"
  "gauge_balance s (rs @ rs') = gauge_balance s rs + gauge_balance s rs'"
  by (simp_all add: gauge_balance_def)

lemma gauge_balance_Cons:
  "gauge_balance s ((s', Increment_one) # rs) = (if s' = s then 1 else 0) + gauge_balance s rs"
  "gauge_balance s ((s', Decrement_one) # rs) = gauge_balance s rs - (if s' = s then 1 else 0)"
  by (simp_all add: gauge_balance_def)

lemma gauge_balance_no_gauge: "\<forall>r\<in>set rs. op_kind (snd r) \<noteq> Gauge \<Longrightarrow> gauge_balance s rs = 0"
proof -
  assume "\<forall>r\<in>set rs. op_kind (snd r) \<noteq> Gauge"
  then have "(s, Increment_one) \<notin> set rs" "(s, Decrement_one) \<notin> set rs" by force+
  then show ?thesis by (simp add: gauge_balance_def count_list_0_iff)
qed

datatype ('g, 'u) guard_event = G_new 'g | G_use 'g 'u | G_drop 'g

text \<open>
  A run of guards from the live ones: a guard is used and dropped only while it is live, which is
  what ownership guarantees; anything else has no result.
\<close>

fun guard_run ::
  "('g \<Rightarrow> recording) \<Rightarrow> ('g \<Rightarrow> 'u \<Rightarrow> recording list) \<Rightarrow> ('g \<Rightarrow> recording) \<Rightarrow> ('g, 'u) guard_event list \<Rightarrow>
     'g list \<Rightarrow> ('g list \<times> recording list) option" where
  "guard_run acquire use release [] live = Some (live, [])"
| "guard_run acquire use release (G_new g # es) live =
     map_option (\<lambda>(l, rs). (l, acquire g # rs)) (guard_run acquire use release es (g # live))"
| "guard_run acquire use release (G_use g u # es) live =
     (if g \<in> set live then map_option (\<lambda>(l, rs). (l, use g u @ rs)) (guard_run acquire use release es live) else None)"
| "guard_run acquire use release (G_drop g # es) live =
     (if g \<in> set live then map_option (\<lambda>(l, rs). (l, release g # rs)) (guard_run acquire use release es (remove1 g live)) else None)"

locale raii_gauge =
  fixes acquire :: "'g \<Rightarrow> recording"
    and use :: "'g \<Rightarrow> 'u \<Rightarrow> recording list"
    and release :: "'g \<Rightarrow> recording"
    and gauge_of :: "'g \<Rightarrow> series"
  assumes acquire_raises: "acquire g = (gauge_of g, Increment_one)"
    and release_lowers: "release g = (gauge_of g, Decrement_one)"
    and use_keeps: "r \<in> set (use g u) \<Longrightarrow> op_kind (snd r) \<noteq> Gauge"
begin

lemma length_filter_remove1:
  "g \<in> set gs \<Longrightarrow>
     int (length (filter P (remove1 g gs))) = int (length (filter P gs)) - (if P g then 1 else 0)"
  by (induction gs) auto

lemma balance_moves:
  assumes "guard_run acquire use release es live = Some (live', rs)"
  shows "gauge_balance s rs =
     int (length (filter (\<lambda>g. gauge_of g = s) live')) - int (length (filter (\<lambda>g. gauge_of g = s) live))"
  using assms
proof (induction es arbitrary: live live' rs)
  case (Cons e es)
  show ?case
  proof (cases e)
    case (G_new g)
    with Cons.prems Cons.IH show ?thesis by (auto simp: acquire_raises gauge_balance_Cons)
  next
    case (G_use g u)
    with Cons.prems Cons.IH show ?thesis
      by (auto simp: gauge_balance_no_gauge use_keeps split: if_splits)
  next
    case (G_drop g)
    with Cons.prems Cons.IH show ?thesis
      by (auto simp: release_lowers length_filter_remove1 gauge_balance_Cons split: if_splits)
  qed
qed simp

lemma balance_exact:
  "guard_run acquire use release es [] = Some (live, rs) \<Longrightarrow>
     gauge_balance s rs = int (length (filter (\<lambda>g. gauge_of g = s) live))"
  by (simp add: balance_moves)

end

datatype sub_use = Sub_lagged u64 | Sub_sent u64

fun sub_guard_use :: "sub_guard \<Rightarrow> sub_use \<Rightarrow> recording list" where
  "sub_guard_use g (Sub_lagged n) = [sub_guard_lagged g n]"
| "sub_guard_use g (Sub_sent n) = [sub_guard_sent_bytes g n]"

interpretation subs: raii_gauge sub_guard_new sub_guard_use sub_guard_drop "\<lambda>g. (SUB_OPEN, sub_labels g)"
proof unfold_locales
  fix r g u
  assume "r \<in> set (sub_guard_use g u)"
  then show "op_kind (snd r) \<noteq> Gauge"
    by (cases u) (simp_all add: sub_guard_lagged_def sub_guard_sent_bytes_def)
qed (simp_all add: sub_guard_new_def sub_guard_drop_def)

interpretation conns: raii_gauge
  "\<lambda>_::nat. conn_guard_new" "\<lambda>_ (methods, wire_name, success, elapsed). rpc_service_call methods wire_name success elapsed"
  "\<lambda>_. conn_guard_drop" "\<lambda>_. (RPC_OPEN_CONNECTIONS, [])"
  by unfold_locales (auto simp: conn_guard_new_def conn_guard_drop_def rpc_service_call_def rpc_call_def)

lemma sub_labels_inj: "sub_labels g = sub_labels g' \<longleftrightarrow> g = g'"
proof -
  have "kind_as_str k = kind_as_str k' \<longleftrightarrow> k = k'" for k k' by (cases k; cases k') simp_all
  then show ?thesis by (cases g; cases g') (simp add: sub_labels_def chain_as_str_inj)
qed

text \<open>
  The connection service is a run of guards, one per connection however many clones share it: the
  live guards are the connections with a live service value.
\<close>

fun conn_guard_event :: "string list \<Rightarrow> conn_event \<Rightarrow> nat list \<Rightarrow>
    (nat, string list \<times> string \<times> bool \<times> nat) guard_event list" where
  "conn_guard_event methods (Conn_open i) live = [G_new i]"
| "conn_guard_event methods (Conn_clone i) live = []"
| "conn_guard_event methods (Conn_call i wire_name success elapsed) live =
     [G_use i (methods, wire_name, success, elapsed)]"
| "conn_guard_event methods (Conn_drop i) live = (if i \<in> set (remove1 i live) then [] else [G_drop i])"

abbreviation conn_guards where
  "conn_guards \<equiv> guard_run (\<lambda>_::nat. conn_guard_new)
     (\<lambda>_ (methods, wire_name, success, elapsed). rpc_service_call methods wire_name success elapsed)
     (\<lambda>_. conn_guard_drop)"

lemma conn_service_step:
  assumes "conn_service methods e live = Some (live', rs)" "distinct gs" "set gs = set live"
  obtains gs' where "distinct gs'" "set gs' = set live'"
    "\<And>es. conn_guards (conn_guard_event methods e live @ es) gs = map_option (\<lambda>(l, rs'). (l, rs @ rs')) (conn_guards es gs')"
proof (cases e)
  case (Conn_open i)
  with assms(1) have "i \<notin> set live" "live' = i # live" "rs = [conn_guard_new]" by (simp_all split: if_splits)
  then show ?thesis by (intro that [of "i # gs"]) (simp_all add: assms(2,3) Conn_open)
next
  case (Conn_clone i)
  with assms(1) have "i \<in> set live" "live' = i # live" "rs = []" by (simp_all split: if_splits)
  then show ?thesis by (intro that [of gs]) (auto simp: assms(2,3) Conn_clone option.map_ident_strong)
next
  case (Conn_call i wire_name success elapsed)
  with assms(1) have "i \<in> set live" "live' = live" "rs = rpc_service_call methods wire_name success elapsed"
    by (simp_all split: if_splits)
  then show ?thesis by (intro that [of gs]) (simp_all add: assms(2,3) Conn_call)
next
  case (Conn_drop i)
  with assms(1) have i: "i \<in> set live" "live' = remove1 i live"
    "rs = (if i \<in> set (remove1 i live) then [] else [conn_guard_drop])" by (simp_all split: if_splits)
  show ?thesis
  proof (cases "i \<in> set (remove1 i live)")
    case True
    then have "set (remove1 i live) = set live" by (metis in_set_remove1 notin_set_remove1 set_eqI)
    with True i show ?thesis
      using assms(2,3) by (intro that [of gs]) (simp_all add: Conn_drop option.map_ident_strong split_def)
  next
    case False
    then have "set (remove1 i live) = set live - {i}"
      using set_remove1_subset [of i live] in_set_remove1 [of _ i live] by blast
    with False i show ?thesis
      by (intro that [of "remove1 i gs"]) (simp_all add: assms(2,3) Conn_drop set_remove1_eq)
  qed
qed

lemma conn_services_refine:
  assumes "conn_services methods es live = Some (live', rs)" "distinct gs" "set gs = set live"
  shows "\<exists>ges gs'. conn_guards ges gs = Some (gs', rs) \<and> distinct gs' \<and> set gs' = set live'"
  using assms
proof (induction es arbitrary: live rs gs)
  case Nil
  then show ?case by (intro exI [of _ "[]"] exI [of _ gs]) auto
next
  case (Cons e es)
  then obtain live1 rs1 rs2 where
    step: "conn_service methods e live = Some (live1, rs1)"
    and rest: "conn_services methods es live1 = Some (live', rs2)" and rs: "rs = rs1 @ rs2"
    by (auto split: option.splits)
  from conn_service_step [OF step Cons.prems(2,3)] obtain gs1 where
    gs1: "distinct gs1" "set gs1 = set live1"
    and run: "\<And>es. conn_guards (conn_guard_event methods e live @ es) gs =
        map_option (\<lambda>(l, rs'). (l, rs1 @ rs')) (conn_guards es gs1)" by blast
  from Cons.IH [OF rest gs1] obtain ges gs' where
    "conn_guards ges gs1 = Some (gs', rs2)" "distinct gs'" "set gs' = set live'" by blast
  with run [of ges] rs show ?case by auto
qed

lemma count_filter: "length (filter (\<lambda>h. h = g) gs) = count_list gs g"
  by (induction gs) simp_all

section \<open>Properties\<close>

text \<open>
  C39. The recorder sees a bounded number of series, however many requests are served and whatever
  the method names of the clients, the statuses of the upstream and the refused blocks are: 107
  and three per registered method. Every operation is of the kind its series is described with,
  and no name is described twice.
\<close>

theorem metric_series_bounded:
  "card (fst ` set (concat (map (recordings version commit methods) calls))) \<le> 107 + 3 * length methods \<and>
   list_all described_as (concat (map (recordings version commit methods) calls)) \<and>
   distinct (map fst describe_metrics)"
  using card_series recordings_described described_names_distinct by (simp add: list_all_iff)

text \<open>
  C40. The gauges of what is open are exact at every moment: that of a kind of subscription counts
  its live subscriptions, and that of connections counts the connections with a live service,
  each once however often the service was cloned and in whatever order the clones were dropped.
\<close>

theorem open_gauges_exact:
  assumes "guard_run sub_guard_new sub_guard_use sub_guard_drop sub_events [] = Some (open_subs, rs)"
    and "conn_services methods conn_events [] = Some (services, rs')"
  shows "gauge_balance (SUB_OPEN, sub_labels g) rs = int (count_list open_subs g) \<and>
     gauge_balance (RPC_OPEN_CONNECTIONS, []) rs' = int (card (set services))"
proof -
  from conn_services_refine [OF assms(2), of "[]"] obtain ges gs where
    "conn_guards ges [] = Some (gs, rs')" "distinct gs" "set gs = set services" by auto
  then have "gauge_balance (RPC_OPEN_CONNECTIONS, []) rs' = int (card (set services))"
    using conns.balance_exact [of ges gs rs' "(RPC_OPEN_CONNECTIONS, [])"] distinct_card [of gs] by simp
  with subs.balance_exact [OF assms(1)] show ?thesis by (simp add: sub_labels_inj count_filter)
qed

theorem open_gauges_exact_witness:
  "\<exists>rs rs'.
     guard_run sub_guard_new sub_guard_use sub_guard_drop
       [G_new \<lparr>sg_chain = Chain_C, sg_kind = NewHeads\<rparr>, G_new \<lparr>sg_chain = Chain_P, sg_kind = NewHeads\<rparr>,
        G_new \<lparr>sg_chain = Chain_C, sg_kind = NewHeads\<rparr>, G_use \<lparr>sg_chain = Chain_P, sg_kind = NewHeads\<rparr> (Sub_sent 512),
        G_drop \<lparr>sg_chain = Chain_P, sg_kind = NewHeads\<rparr>] [] =
       Some ([\<lparr>sg_chain = Chain_C, sg_kind = NewHeads\<rparr>, \<lparr>sg_chain = Chain_C, sg_kind = NewHeads\<rparr>], rs) \<and>
     conn_services [''eth_chainId'']
       [Conn_open 0, Conn_clone 0, Conn_open 1, Conn_call 0 ''eth_chainId'' True 5, Conn_drop 0, Conn_drop 1] [] =
       Some ([0], rs') \<and>
     gauge_balance (SUB_OPEN, sub_labels \<lparr>sg_chain = Chain_C, sg_kind = NewHeads\<rparr>) rs = 2 \<and>
     gauge_balance (RPC_OPEN_CONNECTIONS, []) rs' = 1"
proof -
  let ?c = "\<lparr>sg_chain = Chain_C, sg_kind = NewHeads\<rparr>" and ?p = "\<lparr>sg_chain = Chain_P, sg_kind = NewHeads\<rparr>"
  obtain rs where s: "guard_run sub_guard_new sub_guard_use sub_guard_drop
      [G_new ?c, G_new ?p, G_new ?c, G_use ?p (Sub_sent 512), G_drop ?p] [] = Some ([?c, ?c], rs)"
    by simp
  obtain rs' where c: "conn_services [''eth_chainId'']
      [Conn_open 0, Conn_clone 0, Conn_open 1, Conn_call 0 ''eth_chainId'' True 5, Conn_drop 0, Conn_drop 1] [] =
      Some ([0], rs')"
    by simp
  from open_gauges_exact [OF s c, of ?c] s c show ?thesis by auto
qed

end
