(* ===== verification/Serving.thy ===== *)
theory Serving
  imports Startup Bulk Middleware Metrics
begin

text \<open>
  The serving surface (\<open>rpc.rs\<close>, with the HTTP layers of \<open>bulk.rs\<close>, \<open>health.rs\<close> and \<open>metrics.rs\<close>):
  one method table for all chains and one stack of HTTP layers around it. The accept loop, the
  JSON-RPC server and the metrics recorder are library code; the server is the innermost service,
  a parameter that answers a request with a status and a body.
\<close>

section \<open>The method table\<close>

fun chain_methods :: "chain \<Rightarrow> string list" where
  "chain_methods Chain_C =
     [''eth_chainId'', ''eth_blockNumber'', ''eth_getBlockByNumber'', ''eth_getBlockByHash'',
      ''eth_getBlockTransactionCountByNumber'', ''eth_getBlockTransactionCountByHash'',
      ''eth_getTransactionByBlockNumberAndIndex'', ''eth_getTransactionByBlockHashAndIndex'',
      ''eth_getTransactionByHash'', ''eth_getLogs'', ''eth_subscribe'', ''eth_unsubscribe'']"
| "chain_methods Chain_P =
     [''platform.getHeight'', ''platform.getTimestamp'', ''platform.getBlockByHeight'', ''platform.getBlock'',
      ''platform.getTx'', ''platform.getTxStatus'', ''platform.subscribe'', ''platform.unsubscribe'']"

datatype module_error = Method_already_registered string | Nothing_to_serve

text \<open>\<open>RpcModule::merge\<close> refuses a name that is already there.\<close>

definition merge_methods ::
  "(string \<times> ('s, 'd) chain_serve) list \<Rightarrow> ('s, 'd) chain_serve \<Rightarrow> module_error + (string \<times> ('s, 'd) chain_serve) list" where
  "merge_methods table c =
     (case find (\<lambda>m. m \<in> fst ` set table) (chain_methods (cs_chain c)) of
        Some m \<Rightarrow> Inl (Method_already_registered m)
      | None \<Rightarrow> Inr (table @ map (\<lambda>m. (m, c)) (chain_methods (cs_chain c))))"

fun merge_all ::
  "(string \<times> ('s, 'd) chain_serve) list \<Rightarrow> ('s, 'd) chain_serve list \<Rightarrow> module_error + (string \<times> ('s, 'd) chain_serve) list" where
  "merge_all table [] = Inr table"
| "merge_all table (c # cs) = and_then (merge_methods table c) (\<lambda>t. merge_all t cs)"

definition build_module ::
  "('s, 'd) chain_serve list \<Rightarrow> module_error + (string \<times> ('s, 'd) chain_serve) list" where
  "build_module chs =
     and_then (merge_all [] chs) (\<lambda>table. if table = [] then Inl Nothing_to_serve else Inr table)"

section \<open>The HTTP layers\<close>

record http_request =
  rq_method :: string
  rq_path :: string
  rq_query :: "string option"
  rq_body :: bytes

datatype ('s, 'd) http_answer =
    An_blocks "('s, 'd) bulk_reply"
  | An_health json
  | An_metrics bytes
  | An_rpc nat bytes

type_synonym ('s, 'd) service = "http_request \<Rightarrow> ('s, 'd) http_answer"

definition is_get :: "http_request \<Rightarrow> string \<Rightarrow> bool" where
  "is_get req path \<longleftrightarrow> rq_method req = ''GET'' \<and> rq_path req = path"

definition bulk_layer ::
  "('s, 'd) engines \<Rightarrow> ('s, 'd) bulk_stores \<Rightarrow> u64 \<Rightarrow> ('s, 'd) service \<Rightarrow> ('s, 'd) service" where
  "bulk_layer E ss max_blocks inner req =
     (if is_get req ''/blocks''
      then An_blocks (bulk_serve_range E ss max_blocks (unwrap_or (rq_query req) []))
      else inner req)"

definition health_layer ::
  "('s, 'd) engines \<Rightarrow> host_info \<Rightarrow> ('s, 'd) chain_serve list \<Rightarrow> ('s, 'd) service \<Rightarrow> ('s, 'd) service" where
  "health_layer E hi chs inner req =
     (if is_get req ''/health'' then An_health (build_health_report E hi chs) else inner req)"

definition metrics_layer :: "bytes \<Rightarrow> ('s, 'd) service \<Rightarrow> ('s, 'd) service" where
  "metrics_layer rendered inner req = (if is_get req ''/metrics'' then An_metrics rendered else inner req)"

definition not_found_layer :: "serde \<Rightarrow> (http_request \<Rightarrow> nat \<times> bytes option) \<Rightarrow> ('s, 'd) service" where
  "not_found_layer S rpc req =
     (case rpc req of (status, body) \<Rightarrow> (case not_found_421 S status body of (status', body') \<Rightarrow> An_rpc status' body'))"

text \<open>The stack of \<open>serve\<close>, outermost layer first.\<close>

definition http_stack ::
  "('s, 'd) engines \<Rightarrow> host_info \<Rightarrow> ('s, 'd) chain_serve list \<Rightarrow> u64 \<Rightarrow> bytes \<Rightarrow>
     (http_request \<Rightarrow> nat \<times> bytes option) \<Rightarrow> ('s, 'd) service" where
  "http_stack E hi chs max_blocks rendered rpc =
     bulk_layer E (bulk_stores_new chs) max_blocks
       (health_layer E hi chs (metrics_layer rendered (not_found_layer (en_ser E) rpc)))"

section \<open>Lemmas\<close>

lemma chain_methods_disjoint: "m \<in> set (chain_methods a) \<Longrightarrow> m \<in> set (chain_methods b) \<Longrightarrow> a = b"
  by (cases a; cases b) auto

lemma merge_all_ok:
  assumes "distinct (map cs_chain cs)" "\<forall>c\<in>set cs. \<forall>m\<in>set (chain_methods (cs_chain c)). m \<notin> fst ` set table"
  shows "merge_all table cs = Inr (table @ concat (map (\<lambda>c. map (\<lambda>m. (m, c)) (chain_methods (cs_chain c))) cs))"
  using assms
proof (induction cs arbitrary: table)
  case (Cons c cs)
  have "find (\<lambda>m. m \<in> fst ` set table) (chain_methods (cs_chain c)) = None"
    using Cons.prems(2) by (simp add: find_None_iff)
  then have m: "merge_methods table c = Inr (table @ map (\<lambda>m. (m, c)) (chain_methods (cs_chain c)))"
    by (simp add: merge_methods_def)
  have "\<forall>d\<in>set cs. \<forall>m\<in>set (chain_methods (cs_chain d)).
      m \<notin> fst ` set (table @ map (\<lambda>m. (m, c)) (chain_methods (cs_chain c)))"
    using Cons.prems chain_methods_disjoint by (fastforce simp: image_iff)
  with Cons.IH Cons.prems(1) m show ?case by simp
qed simp

text \<open>The methods of the table, each with the instance that answers it.\<close>

lemma module_lookup:
  assumes "distinct (map cs_chain cs)"
  shows "map_of (concat (map (\<lambda>c. map (\<lambda>m. (m, c)) (chain_methods (cs_chain c))) cs)) name = Some s \<longleftrightarrow>
     s \<in> set cs \<and> name \<in> set (chain_methods (cs_chain s))"
  using assms
proof (induction cs)
  case (Cons c cs)
  have hd: "map_of (map (\<lambda>m. (m, c)) (chain_methods (cs_chain c))) name =
      (if name \<in> set (chain_methods (cs_chain c)) then Some c else None)"
    by (simp add: map_of_map_restrict restrict_map_def)
  show ?case
    using Cons hd chain_methods_disjoint
    by (auto simp: map_add_Some_iff split: if_splits option.splits)
qed simp

text \<open>
  The routes are exclusive, so the order of the layers only decides which answers the rewrite of
  null results sees: an answer of the JSON-RPC server and no other.
\<close>

lemma http_stack_routes:
  "is_get req ''/blocks'' \<Longrightarrow>
     http_stack E hi chs n rendered rpc req = An_blocks (bulk_serve_range E (bulk_stores_new chs) n (unwrap_or (rq_query req) []))"
  "is_get req ''/health'' \<Longrightarrow> http_stack E hi chs n rendered rpc req = An_health (build_health_report E hi chs)"
  "is_get req ''/metrics'' \<Longrightarrow> http_stack E hi chs n rendered rpc req = An_metrics rendered"
  by (simp_all add: http_stack_def bulk_layer_def health_layer_def metrics_layer_def is_get_def)

lemma http_stack_rewrites_rpc_only:
  assumes "rpc req = (200, Some body)" "is_result_null (en_ser E) body"
  shows "http_stack E hi chs n rendered rpc req = An_rpc 421 body \<longleftrightarrow>
     rq_method req \<noteq> ''GET'' \<or> rq_path req \<notin> {''/blocks'', ''/health'', ''/metrics''}"
  using assms
  by (auto simp: http_stack_def bulk_layer_def health_layer_def metrics_layer_def not_found_layer_def
      not_found_421_def is_get_def)

text \<open>The instances of a configuration, one per chain and in its order.\<close>

definition started ::
  "('s, 'd) engines \<Rightarrow> crypto \<Rightarrow> net \<Rightarrow> resolved \<Rightarrow> ('s, 'd) instance_t list \<Rightarrow> bool" where
  "started E C N r insts \<longleftrightarrow>
     list_all2 (\<lambda>e inst. \<exists>mk disk d d'. build_instance E C N mk disk d (snd e) (rs_upstream r) = (Inr inst, d'))
       (rs_chains r) insts"

lemma started_chains:
  assumes "resolved_ok r" "started E C N r insts"
  shows "map (cs_chain \<circ> in_serve) insts = map fst (rs_chains r)"
proof -
  have "list_all2 (\<lambda>e inst. cs_chain (in_serve inst) = ch_chain (snd e)) (rs_chains r) insts"
    using assms(2) unfolding started_def
    by (rule list_all2_mono) (auto elim: build_instance_Inr)
  then have "map (cs_chain \<circ> in_serve) insts = map (ch_chain \<circ> snd) (rs_chains r)"
    by (induction rule: list_all2_induct) auto
  also have "\<dots> = map fst (rs_chains r)"
    using assms(1) by (auto simp: resolved_ok_def chain_ok_def)
  finally show ?thesis .
qed

lemma run_p_only:
  "\<exists>r cfg. resolve_with ref_libs ref_files (ref_cli [Chain_P] []) (ref_env None) = Inr r \<and>
     rs_chains r = [(Chain_P, cfg)] \<and> ch_chain cfg = Chain_P"
  by (simp add: run_defs)

text \<open>
  A started configuration serves all its chains on one table: the instances built from a
  resolved configuration register without a conflict, every method name is answered by exactly
  the instance of its chain, and a chain answers exactly when it is one of the configuration's.
\<close>

lemma module_of_started:
  assumes "resolve_with L fs cl en = Inr r" and "started E C N r insts"
  shows "\<exists>table. build_module (map in_serve insts) = Inr table \<and>
     (\<forall>name s. map_of table name = Some s \<longleftrightarrow>
        s \<in> set (map in_serve insts) \<and> name \<in> set (chain_methods (cs_chain s))) \<and>
     (\<forall>c. (\<exists>s name. map_of table name = Some s \<and> cs_chain s = c) \<longleftrightarrow> c \<in> set (map fst (rs_chains r)))"
proof -
  let ?cs = "map in_serve insts"
  let ?table = "concat (map (\<lambda>c. map (\<lambda>m. (m, c)) (chain_methods (cs_chain c))) ?cs)"
  have ok: "resolved_ok r" using assms(1) by (rule resolve_with_ok)
  have chs: "map cs_chain ?cs = map fst (rs_chains r)"
    using started_chains [OF ok assms(2)] by simp
  have dist: "distinct (map cs_chain ?cs)" and ne: "rs_chains r \<noteq> []"
    using ok unfolding chs by (simp_all add: resolved_ok_def)
  have some: "set (chain_methods c) \<noteq> {}" for c by (cases c) auto
  have look: "map_of ?table name = Some s \<longleftrightarrow> s \<in> set ?cs \<and> name \<in> set (chain_methods (cs_chain s))" for name s
    using dist by (rule module_lookup)
  have "?cs \<noteq> []" using chs ne by auto
  then have "?table \<noteq> []" using some by (cases insts) auto
  then have "build_module ?cs = Inr ?table"
    using merge_all_ok [OF dist, of "[]"] by (simp add: build_module_def)
  moreover have "(\<exists>s name. map_of ?table name = Some s \<and> cs_chain s = c) \<longleftrightarrow> c \<in> set (map fst (rs_chains r))" for c
    unfolding look chs [symmetric] using some [of c] by (auto simp: ex_in_conv [symmetric] simp del: set_empty)
  ultimately show ?thesis using look by blast
qed

end
