(* ===== verification/Catch_Up.thy ===== *)
theory Catch_Up
  imports Platform_Ingest
begin

text \<open>
  The loops around the passes: the backfill worker of the C-chain (\<open>backfill_loop\<close> of
  \<open>eth/backfill.rs\<close>) and the polling loop of the P-chain (\<open>ingest\<close> of \<open>platform/ingest.rs\<close>), as
  sequences of passes, each in an environment of its own: the time, the upstream as it answers
  during the pass, and the writes of other tasks.

  Both loops are the same kind of loop, stated once as the locale \<open>catch_up\<close>: a pass in a fair
  environment adds up to a chunk to the covered heights, so a known number of passes reaches the
  goal. The interpretations discharge its laws for the two loops, and the properties give the
  number of passes after which every height up to the tip is stored.
\<close>

section \<open>One iteration of the backfill worker\<close>

definition BACKFILL_CAUGHT_UP_POLL :: duration where
  "BACKFILL_CAUGHT_UP_POLL = from_secs 1"

record ('s, 'd) pass_env =
  pe_now :: instant
  pe_up :: upstream
  pe_clk :: "u64 \<Rightarrow> instant"
  pe_snap :: "u64 \<Rightarrow> ('s, 'd) storage"
  pe_other :: "u64 \<Rightarrow> ('s, 'd) storage \<Rightarrow> ('s, 'd) storage"

record ('s, 'd) backfill_worker =
  bw_storage :: "('s, 'd) storage"
  bw_tip :: tip_cache
  bw_run :: run_state
  bw_backfill_count :: u64

definition backfill_worker_new :: "ingest_cfg \<Rightarrow> ('s, 'd) storage \<Rightarrow> ('s, 'd) backfill_worker" where
  "backfill_worker_new cfg st =
     \<lparr>bw_storage = st, bw_tip = tip_new,
      bw_run = \<lparr>rs_progress = progress_new Chain_C (cfg_progress_period cfg), rs_behind_tip = 0, rs_logs = Map.empty\<rparr>,
      bw_backfill_count = 0\<rparr>"

definition backfill_iteration ::
  "('s, 'd) engines \<Rightarrow> crypto \<Rightarrow> ingest_cfg \<Rightarrow> ('s, 'd) pass_env \<Rightarrow> ('s, 'd) backfill_worker \<Rightarrow>
     pass_end \<times> ('s, 'd) backfill_worker" where
  "backfill_iteration E C cfg e s =
     (let run = bw_run s in
      case backfill_pass E cfg (pe_up e) (pe_now e) (bw_storage s) (bw_tip s) of
        (Pass_wait_anchor, tip) \<Rightarrow> (Pass_sleep (from_millis 500), s\<lparr>bw_tip := tip\<rparr>)
      | (Pass_caught_up contiguous, tip) \<Rightarrow>
          (Pass_sleep BACKFILL_CAUGHT_UP_POLL,
           s\<lparr>bw_tip := tip,
             bw_run := run\<lparr>rs_behind_tip := 0,
               rs_progress := snd (caught_up (pe_now e) contiguous (rs_progress run))\<rparr>\<rparr>)
      | (Pass_fill nxt lst target behind, tip) \<Rightarrow>
          let (started, _, prog) = observe (pe_now e) (target - behind) target behind (rs_progress run);
              count = (if started then (bw_backfill_count s + 1) mod 2 ^ 64 else bw_backfill_count s);
              (r, run', st') = fill_range E C cfg (pe_up e) (pe_snap e) (pe_other e) (pe_clk e) nxt lst target
                (run\<lparr>rs_behind_tip := behind, rs_progress := prog\<rparr>) (bw_storage s)
          in (case r of Fill_done \<Rightarrow> Pass_again | Fill_cut \<Rightarrow> Pass_sleep (from_secs 1) | Fill_parked \<Rightarrow> Pass_parked,
              s\<lparr>bw_storage := st', bw_tip := tip, bw_run := run', bw_backfill_count := count\<rparr>))"

text \<open>
  A loop of passes, one per environment. A pass that parks never returns: nothing follows it.
\<close>

fun run_passes :: "('e \<Rightarrow> 'a \<Rightarrow> pass_end \<times> 'a) \<Rightarrow> 'e list \<Rightarrow> 'a \<Rightarrow> 'a" where
  "run_passes pass [] s = s"
| "run_passes pass (e # es) s =
     (case pass e s of (Pass_parked, s') \<Rightarrow> s' | (_, s') \<Rightarrow> run_passes pass es s')"

definition backfill_loop ::
  "('s, 'd) engines \<Rightarrow> crypto \<Rightarrow> ingest_cfg \<Rightarrow> ('s, 'd) pass_env list \<Rightarrow> ('s, 'd) backfill_worker \<Rightarrow> ('s, 'd) backfill_worker" where
  "backfill_loop E C cfg es s = run_passes (backfill_iteration E C cfg) es s"

abbreviation backfill_step ::
  "('s, 'd) engines \<Rightarrow> crypto \<Rightarrow> ingest_cfg \<Rightarrow> ('s, 'd) pass_env \<Rightarrow> ('s, 'd) backfill_worker \<Rightarrow> ('s, 'd) backfill_worker" where
  "backfill_step E C cfg e s \<equiv> snd (backfill_iteration E C cfg e s)"

lemma run_passes_keeps:
  assumes "\<And>s e. P s \<Longrightarrow> e \<in> set es \<Longrightarrow> P (snd (pass e s))" "P s"
  shows "P (run_passes pass es s)"
  using assms
proof (induction es arbitrary: s)
  case (Cons e es)
  obtain r s' where p: "pass e s = (r, s')" by (cases "pass e s")
  then have "P s'" using Cons.prems(1) [of s e] Cons.prems(2) by simp
  then show ?case using Cons p by (cases r) simp_all
qed simp

section \<open>Loops that catch up\<close>

text \<open>An environment is fair in the state its pass starts from.\<close>

fun fair_run :: "('e \<Rightarrow> 'a \<Rightarrow> bool) \<Rightarrow> ('e \<Rightarrow> 'a \<Rightarrow> pass_end \<times> 'a) \<Rightarrow> 'e list \<Rightarrow> 'a \<Rightarrow> bool" where
  "fair_run fair pass [] s \<longleftrightarrow> True"
| "fair_run fair pass (e # es) s \<longleftrightarrow> fair e s \<and> fair_run fair pass es (snd (pass e s))"

locale catch_up =
  fixes pass :: "'e \<Rightarrow> 'a \<Rightarrow> pass_end \<times> 'a"
    and fair :: "'e \<Rightarrow> 'a \<Rightarrow> bool"
    and inv :: "'a \<Rightarrow> bool"
    and covers :: "'a \<Rightarrow> nat \<Rightarrow> bool"
    and goal :: nat
    and chunk :: nat
  assumes inv_pass: "inv s \<Longrightarrow> fair e s \<Longrightarrow> inv (snd (pass e s))"
    and returns: "inv s \<Longrightarrow> fair e s \<Longrightarrow> fst (pass e s) \<noteq> Pass_parked"
    and advances: "inv s \<Longrightarrow> fair e s \<Longrightarrow> covers s n \<Longrightarrow> covers (snd (pass e s)) (min goal (n + chunk))"
begin

lemma covers_more:
  assumes "inv s" "fair_run fair pass es s" "covers s n" "n \<le> goal"
  shows "inv (run_passes pass es s) \<and> covers (run_passes pass es s) (min goal (n + length es * chunk))"
  using assms
proof (induction es arbitrary: s n)
  case (Cons e es)
  obtain r s' where p: "pass e s = (r, s')" by (cases "pass e s")
  then have s: "inv s'" "r \<noteq> Pass_parked" "covers s' (min goal (n + chunk))" "fair_run fair pass es s'"
    using Cons.prems inv_pass [of s e] returns [of s e] advances [of s e n] by simp_all
  have eq: "min goal (min goal (n + chunk) + length es * chunk) = min goal (n + length (e # es) * chunk)"
    by (simp add: min_def)
  have "run_passes pass (e # es) s = run_passes pass es s'" using p s(2) by (cases r) simp_all
  with Cons.IH [OF s(1,4,3)] show ?case unfolding eq by simp
qed (simp add: min_absorb2)

lemma reaches_goal:
  assumes "inv s" "fair_run fair pass es s" "covers s n" "n \<le> goal" "goal \<le> n + length es * chunk"
  shows "covers (run_passes pass es s) goal"
  using covers_more [OF assms(1-4)] assms(5) by (simp add: min_absorb1)

end

lemma Un_Cons_subset:
  "A \<subseteq> D \<Longrightarrow> {x} \<subseteq> D \<Longrightarrow> {y \<in> set xs. P y} \<subseteq> D \<Longrightarrow> A \<union> {y \<in> set (x # xs). P y} \<subseteq> D"
  by auto

section \<open>Disks that do not fail\<close>

text \<open>A disk on which no operation fails.\<close>

definition disk_ok :: "('s, 'd) engines \<Rightarrow> ('s \<Rightarrow> bool) \<Rightarrow> bool" where
  "disk_ok E ok \<longleftrightarrow>
     (\<forall>m. \<exists>s. bs_create (en_bs E) m = Inr s) \<and>
     (\<forall>s h b. ok s \<and> bs_min (en_bs E) s \<le> h \<longrightarrow> (\<exists>s'. bs_write (en_bs E) h b s = (Inr (), s'))) \<and>
     (\<forall>es d. \<exists>d'. fj_commit (en_fj E) es d = (Inr (), d'))"

context storage_engine
begin

lemma put_succeeds:
  assumes "disk_ok E wf" "kept E wf m c st" "m \<le> h" "length es = arity c"
  shows "\<exists>st'. put E h hash txs es st = (Inr (), st')"
proof -
  have wf: "storage_wf wf st" and an: "anchored E m st" and c: "st_chain st = c"
    using assms(2) by (simp_all add: kept_def)
  obtain s0 where "bs_create (en_bs E) (put_floor (st_anchor_floor st) h) = Inr s0"
    using assms(1) unfolding disk_ok_def by blast
  then obtain s where s: "(case st_store st of Some s \<Rightarrow> Inr s
      | None \<Rightarrow> bs_create (en_bs E) (put_floor (st_anchor_floor st) h)) = Inr s"
    by (cases "st_store st") auto
  then have "wf s" "bs_min (en_bs E) s \<le> h"
    using wf an assms(3) create_wf
    by (auto simp: storage_wf_def anchored_def put_floor_def split: option.splits)
  then obtain s' where "bs_write (en_bs E) h (encode es) s = (Inr (), s')"
    using assms(1) unfolding disk_ok_def by blast
  then have "put_record E h (encode es) st = (Inr (), st\<lparr>st_store := Some s'\<rparr>)"
    using s by (simp add: put_record_def)
  moreover obtain d' where "fj_commit (en_fj E) (index_batch h hash txs) (st_db st) = (Inr (), d')"
    using assms(1) unfolding disk_ok_def by blast
  ultimately show ?thesis
    using assms(4) c by (simp add: put_def and_step_def put_index_def)
qed

text \<open>
  The frontier the loops read off an anchored store: everything up to it is there and the next
  height is not.
\<close>

lemma frontier_exact:
  assumes "storage_wf wf st" "anchored E m st" "0 < m"
    and "f = m - 1 \<or> st_store st \<noteq> None \<and> stored content st m \<noteq> None"
    and "c = max (max_contiguous_height E st) f" "f < m"
  shows "m \<le> Suc c" "{m..c} \<subseteq> dom (stored content st)" "Suc c \<notin> dom (stored content st)"
proof -
  have "m \<le> Suc c \<and> {m..c} \<subseteq> dom (stored content st) \<and> Suc c \<notin> dom (stored content st)"
  proof (cases "st_store st")
    case None
    with assms show ?thesis by (simp add: max_contiguous_height_def stored_def)
  next
    case (Some s)
    then have s: "wf s" "bs_min (en_bs E) s = m" "stored content st = content s"
      using assms(1,2) by (simp_all add: storage_wf_def anchored_def stored_def)
    have present: "content s h \<noteq> None" if "m \<le> h" "h \<le> bs_contig (en_bs E) s" for h
      using contig_present [OF s(1), of h] that s(2) assms(3) by auto
    show ?thesis
    proof (cases "content s m = None")
      case True
      then have "bs_contig (en_bs E) s < m" using present [of m] by (meson not_le order_refl)
      moreover have "f = m - 1" using assms(4) True s(3) by simp
      ultimately show ?thesis using True Some s assms(3,5) by (simp add: max_contiguous_height_def domIff)
    next
      case False
      then have "m \<le> bs_contig (en_bs E) s" "content s (Suc (bs_contig (en_bs E) s)) = None"
        using contig_next [OF s(1)] s(2) by auto
      moreover from this have "c = bs_contig (en_bs E) s"
        using assms(5,6) Some by (simp add: max_contiguous_height_def)
      ultimately show ?thesis using present s(3) by (auto simp: domIff)
    qed
  qed
  then show "m \<le> Suc c" "{m..c} \<subseteq> dom (stored content st)" "Suc c \<notin> dom (stored content st)" by auto
qed

end

section \<open>The backfill worker catches up\<close>

text \<open>The upstream has a block that can be stored, and its receipts where they are asked for.\<close>

definition block_served :: "('s, 'd) engines \<Rightarrow> crypto \<Rightarrow> ingest_cfg \<Rightarrow> upstream \<Rightarrow> u64 \<Rightarrow> bool" where
  "block_served E C cfg up h \<longleftrightarrow>
     (\<exists>block s hash b. fst (fetch_full_block cfg up h None) = Got block \<and> jget_str block ''hash'' = Some s \<and>
        decode_hash C s = Inr hash \<and> to_vec (en_ser E) block = Some b) \<and>
     (cfg_ingest_logs cfg \<and> cfg_logs_source cfg = Receipts \<longrightarrow> (\<exists>r. fetch_block_receipts cfg up h = Got r))"

text \<open>
  What the upstream has to do in a pass: it names a tip of at least \<open>T\<close> and serves every block
  from \<open>m\<close> to \<open>T\<close> with its logs; above \<open>T\<close> it may fail, but asks for no longer wait than the operator
  allows, which would end the process.
\<close>

definition upstream_serves :: "('s, 'd) engines \<Rightarrow> crypto \<Rightarrow> ingest_cfg \<Rightarrow> u64 \<Rightarrow> u64 \<Rightarrow> upstream \<Rightarrow> bool" where
  "upstream_serves E C cfg m T up \<longleftrightarrow>
     (\<exists>t \<ge> T. upstream_block_number up = Some t) \<and>
     (\<forall>h. m \<le> h \<and> h \<le> T \<longrightarrow> block_served E C cfg up h) \<and>
     (\<forall>h. fst (fetch_full_block cfg up h None) \<noteq> Parked \<and> fetch_block_receipts cfg up h \<noteq> Parked) \<and>
     (cfg_ingest_logs cfg \<and> cfg_logs_source cfg = GetLogs \<longrightarrow> (\<forall>a b. \<exists>logs. fetch_logs cfg up a b = Got logs))"

text \<open>
  The fetches of a pass run ahead of its writes, each on the store as it is when the fetch is made. What a
  fetch of height \<open>h\<close> saw, the blocks other tasks have written during the pass included, is in the store when
  \<open>h\<close> is taken, after the heights of the pass below \<open>h\<close> and what other tasks wrote until then.
\<close>

definition reads_past ::
  "('s, 'd) engines \<Rightarrow> ('s \<Rightarrow> u64 \<rightharpoonup> bytes) \<Rightarrow> crypto \<Rightarrow> ingest_cfg \<Rightarrow> ('s, 'd) pass_env \<Rightarrow> ('s, 'd) backfill_worker \<Rightarrow> bool" where
  "reads_past E content C cfg e s \<longleftrightarrow>
     (\<forall>a b target behind tip h run run' st.
        backfill_pass E cfg (pe_up e) (pe_now e) (bw_storage s) (bw_tip s) = (Pass_fill a b target behind, tip) \<and>
        a \<le> h \<and> h \<le> b \<and>
        fill_loop E C cfg (\<lambda>h. fetch_one E cfg (pe_up e) (pe_snap e h) h) (pe_other e) (pe_clk e) target [a..<h] run (bw_storage s) =
          (Fill_done, run', st) \<longrightarrow>
        dom (stored content (pe_snap e h)) \<subseteq> dom (stored content (pe_other e h st)))"

text \<open>
  A fair environment of a pass: such an upstream, fetches that read the store as it was before their
  height is taken, and other tasks that only add to the blocks the pass started with and keep the store
  anchored.
\<close>

definition backfill_fair ::
  "('s, 'd) engines \<Rightarrow> ('s \<Rightarrow> u64 \<rightharpoonup> bytes) \<Rightarrow> ('s \<Rightarrow> bool) \<Rightarrow> crypto \<Rightarrow> ingest_cfg \<Rightarrow> u64 \<Rightarrow> u64 \<Rightarrow>
     ('s, 'd) pass_env \<Rightarrow> ('s, 'd) backfill_worker \<Rightarrow> bool" where
  "backfill_fair E content ok C cfg m T e s \<longleftrightarrow>
     upstream_serves E C cfg m T (pe_up e) \<and>
     (\<forall>h. storage_wf ok (pe_snap e h)) \<and> reads_past E content C cfg e s \<and>
     (\<forall>h st. kept E ok m Chain_C st \<and> dom (stored content (bw_storage s)) \<subseteq> dom (stored content st) \<longrightarrow>
        kept E ok m Chain_C (pe_other e h st) \<and> dom (stored content st) \<subseteq> dom (stored content (pe_other e h st)))"

definition backfill_ready ::
  "('s, 'd) engines \<Rightarrow> ('s \<Rightarrow> u64 \<rightharpoonup> bytes) \<Rightarrow> ('s \<Rightarrow> bool) \<Rightarrow> ingest_cfg \<Rightarrow> u64 \<Rightarrow> u64 \<Rightarrow>
     ('s, 'd) backfill_worker \<Rightarrow> bool" where
  "backfill_ready E content ok cfg m T s \<longleftrightarrow>
     kept E ok m Chain_C (bw_storage s) \<and>
     (cfg_backfill_floor cfg = Some m \<or> cfg_backfill_floor cfg = None \<and> stored content (bw_storage s) m \<noteq> None) \<and>
     (tc_fetched (bw_tip s) = None \<or> T \<le> tc_height (bw_tip s))"

context storage_engine
begin

lemma persist_backfilled_kept:
  assumes "kept E wf m Chain_C st" "m \<le> h" "persist_backfilled E C h block l st = (r, st')"
  shows "kept E wf m Chain_C st'" "dom (stored content st) \<subseteq> dom (stored content st')"
    "r = Inr () \<Longrightarrow> h \<in> dom (stored content st')"
proof -
  show "dom (stored content st) \<subseteq> dom (stored content st')" "r = Inr () \<Longrightarrow> h \<in> dom (stored content st')"
    using persist_backfilled_store [OF _ assms(3)] assms(1) by (auto simp: kept_def)
  show "kept E wf m Chain_C st'"
    using assms(3,1) put_kept(1) [OF assms(1) disjI1 [OF assms(2)]]
    by (auto simp: persist_backfilled_def split: option.splits sum.splits prod.splits)
qed

lemma persist_backfilled_served:
  assumes "disk_ok E wf" "kept E wf m Chain_C st" "m \<le> h" "block_served E C cfg up h"
    and "fst (fetch_full_block cfg up h None) = Got block"
  shows "\<exists>st'. persist_backfilled E C h block l st = (Inr (), st')"
proof -
  obtain s hash b where b: "jget_str block ''hash'' = Some s" "decode_hash C s = Inr hash"
    "to_vec (en_ser E) block = Some b"
    using assms(4,5) by (auto simp: block_served_def)
  obtain st' where "put E h hash (extract_tx_hashes C block) [b, l] st = (Inr (), st')"
    using put_succeeds [OF assms(1-3), of "[b, l]"] by auto
  with b show ?thesis by (simp add: persist_backfilled_def)
qed

text \<open>What one height of a run leaves: in a fair environment it is stored.\<close>

lemma fetch_one_served:
  assumes "block_served E C cfg up h"
  shows "fetch_one E cfg up st h = One Skip \<or>
     (\<exists>block l. fetch_one E cfg up st h = One (Fetched_block h block l) \<and> fst (fetch_full_block cfg up h None) = Got block)"
proof -
  obtain block where "fst (fetch_full_block cfg up h None) = Got block" using assms by (auto simp: block_served_def)
  moreover have "cfg_ingest_logs cfg \<and> cfg_logs_source cfg = Receipts \<Longrightarrow> \<exists>r. fetch_block_receipts cfg up h = Got r"
    using assms by (auto simp: block_served_def)
  ultimately show ?thesis by (auto simp: fetch_one_def Let_def)
qed

end

text \<open>The heights of a run before one of its heights.\<close>

lemma upt_split:
  assumes "[a..<n] = pre @ h # post"
  shows "pre = [a..<h]" "a \<le> h" "h < n"
proof -
  have k: "length pre < n - a" using arg_cong [OF assms, of length] by simp
  have "h = [a..<n] ! length pre" by (simp add: assms)
  then have h: "h = a + length pre" using k by simp
  have "pre = take (length pre) [a..<n]" by (simp add: assms)
  then show "pre = [a..<h]" using h k by (simp add: take_upt)
  show "a \<le> h" "h < n" using h k by simp_all
qed

abbreviation fills ::
  "('s, 'd) engines \<Rightarrow> crypto \<Rightarrow> ingest_cfg \<Rightarrow> ('s, 'd) pass_env \<Rightarrow> u64 \<Rightarrow> u64 list \<Rightarrow> run_state \<Rightarrow> ('s, 'd) storage \<Rightarrow>
     fill_end \<times> run_state \<times> ('s, 'd) storage" where
  "fills E C cfg e tip hs run st \<equiv>
     fill_loop E C cfg (\<lambda>h. fetch_one E cfg (pe_up e) (pe_snap e h) h) (pe_other e) (pe_clk e) tip hs run st"

context storage_engine
begin

text \<open>A height that is written, or found to be there, is stored after its turn.\<close>

lemma fills_step:
  assumes "disk_ok E wf" "backfill_fair E content wf C cfg m T e w"
    and "kept E wf m Chain_C st \<and> dom (stored content (bw_storage w)) \<subseteq> dom (stored content st)" "m \<le> h"
    and "dom (stored content (pe_snap e h)) \<subseteq> dom (stored content (pe_other e h st))"
    and "fills E C cfg e tip (h # hs) run st = (r, run', st')"
  obtains
    (final) "T < h" "kept E wf m Chain_C st'" "dom (stored content st) \<subseteq> dom (stored content st')"
  | (more) run1 s1 where "\<And>hs. fills E C cfg e tip (h # hs) run st = fills E C cfg e tip hs run1 s1"
      "kept E wf m Chain_C s1" "dom (stored content st) \<union> {h} \<subseteq> dom (stored content s1)"
proof -
  let ?s = "pe_other e h st" and ?f = "fetch_one E cfg (pe_up e) (pe_snap e h) h"
  have s: "kept E wf m Chain_C ?s" and sub: "dom (stored content st) \<subseteq> dom (stored content ?s)"
    using assms(2,3) by (auto simp: backfill_fair_def)
  have served: "block_served E C cfg (pe_up e) h" if "h \<le> T"
    using assms(2,4) that by (simp add: backfill_fair_def upstream_serves_def)
  from assms(6) show thesis
  proof (cases rule: fill_loop_ConsE)
    case stop
    then have "T < h" using fetch_one_served [OF served, of "pe_snap e h"] by fastforce
    then show thesis using stop(2) s sub final by auto
  next
    case skip
    have "h \<in> dom (stored content ?s)"
      using skip_is_stored [OF _ skip(1)] assms(2,5) by (auto simp: backfill_fair_def)
    moreover have "fills E C cfg e tip (h # hs) run st = fills E C cfg e tip hs run ?s" for hs
      using skip(1) by (simp add: Let_def)
    ultimately show thesis using s sub by (intro more [of run ?s]) auto
  next
    case (cut block l x)
    note P = persist_backfilled_kept [OF s assms(4) cut(3)]
    have "fst (fetch_full_block cfg (pe_up e) h None) = Got block"
      using cut(1) by (auto simp: fetch_one_def Let_def split: if_splits rpc_fetch.splits)
    from persist_backfilled_served [OF assms(1) s assms(4) served this, THEN exE] cut(3)
    have "T < h" by (metis Inl_Inr_False not_le prod.inject)
    with P(1,2) sub show thesis by (intro final) auto
  next
    case (wrote block l s1 run1)
    note P = persist_backfilled_kept [OF s assms(4) wrote(2)]
    define run2 where "run2 = run\<lparr>rs_behind_tip := tip - h,
      rs_progress := snd (snd (observe (pe_clk e h) h tip (tip - h) (rs_progress run)))\<rparr>"
    have "fills E C cfg e tip (h # hs) run st = fills E C cfg e tip hs run2 s1" for hs
      using wrote(1,2) by (simp add: Let_def run2_def)
    with P sub show thesis by (intro more [of run2 s1]) auto
  qed
qed

lemma fill_loop_reaches:
  assumes "disk_ok E wf" "backfill_fair E content wf C cfg m T e w"
    and "kept E wf m Chain_C st \<and> dom (stored content (bw_storage w)) \<subseteq> dom (stored content st)" "sorted hs" "\<forall>h\<in>set hs. m \<le> h"
    and "\<forall>pre h post run1 st1. hs = pre @ h # post \<and> fills E C cfg e tip pre run st = (Fill_done, run1, st1) \<longrightarrow>
       dom (stored content (pe_snap e h)) \<subseteq> dom (stored content (pe_other e h st1))"
    and "fills E C cfg e tip hs run st = (r, run', st')"
  shows "kept E wf m Chain_C st' \<and> dom (stored content st) \<union> {h \<in> set hs. h \<le> T} \<subseteq> dom (stored content st')"
  using assms(3-)
proof (induction hs arbitrary: st run)
  case (Cons h hs)
  have seen: "dom (stored content (pe_snap e h)) \<subseteq> dom (stored content (pe_other e h st))"
    using Cons.prems(4) [rule_format, of "[]" h hs] by simp
  have "m \<le> h" using Cons.prems(3) by simp
  from assms(1,2) Cons.prems(1) this seen Cons.prems(5) show ?case
  proof (cases rule: fills_step)
    case final
    have "{k \<in> set (h # hs). k \<le> T} = {}" using Cons.prems(2) final(1) by force
    with final(2,3) show ?thesis by (simp only: Un_empty_right simp_thms)
  next
    case (more run1 s1)
    have past: "\<forall>pre k post run2 st2. hs = pre @ k # post \<and> fills E C cfg e tip pre run1 s1 = (Fill_done, run2, st2) \<longrightarrow>
        dom (stored content (pe_snap e k)) \<subseteq> dom (stored content (pe_other e k st2))"
    proof (intro allI impI)
      fix pre k post run2 st2
      assume "hs = pre @ k # post \<and> fills E C cfg e tip pre run1 s1 = (Fill_done, run2, st2)"
      then show "dom (stored content (pe_snap e k)) \<subseteq> dom (stored content (pe_other e k st2))"
        using Cons.prems(4) [rule_format, of "h # pre" k post run2 st2] more(1) [of pre] by simp
    qed
    have "kept E wf m Chain_C s1 \<and> dom (stored content (bw_storage w)) \<subseteq> dom (stored content s1)"
      using more(2,3) Cons.prems(1) by blast
    from Cons.IH [OF this _ _ past] Cons.prems(2,3,5) more(1) [of hs]
    have IH: "kept E wf m Chain_C st'" "dom (stored content s1) \<subseteq> dom (stored content st')"
      "{k \<in> set hs. k \<le> T} \<subseteq> dom (stored content st')" by simp_all
    with more(3) have "dom (stored content st) \<subseteq> dom (stored content st')" "{h} \<subseteq> dom (stored content st')" by blast+
    with IH(1,3) show ?thesis by (intro conjI Un_Cons_subset)
  qed
qed simp

lemma fill_range_reaches:
  assumes "disk_ok E wf" "backfill_fair E content wf C cfg m T e s" "kept E wf m Chain_C (bw_storage s)" "m \<le> a"
    and "backfill_pass E cfg (pe_up e) (pe_now e) (bw_storage s) (bw_tip s) = (Pass_fill a b tip d, tc)"
    and "fill_range E C cfg (pe_up e) (pe_snap e) (pe_other e) (pe_clk e) a b tip run (bw_storage s) = (r, run', st')"
  shows "kept E wf m Chain_C st' \<and> dom (stored content (bw_storage s)) \<union> {a..min b T} \<subseteq> dom (stored content st')"
proof -
  have "cfg_ingest_logs cfg \<and> cfg_logs_source cfg = GetLogs \<Longrightarrow> \<exists>logs. fetch_logs cfg (pe_up e) a b = Got logs"
    using assms(2) by (auto simp: backfill_fair_def upstream_serves_def)
  then obtain run1 where f: "fills E C cfg e tip (heights a b) run1 (bw_storage s) = (r, run', st')"
    using assms(6) by (auto simp: fill_range_def load_range_def Let_def split: if_splits)
  have past: "\<forall>pre h post run2 st2. heights a b = pre @ h # post \<and> fills E C cfg e tip pre run1 (bw_storage s) = (Fill_done, run2, st2) \<longrightarrow>
      dom (stored content (pe_snap e h)) \<subseteq> dom (stored content (pe_other e h st2))"
  proof (intro allI impI)
    fix pre h post run2 st2
    assume p: "heights a b = pre @ h # post \<and> fills E C cfg e tip pre run1 (bw_storage s) = (Fill_done, run2, st2)"
    note u = upt_split [OF p [THEN conjunct1, unfolded heights_def]]
    then have "h \<le> b" and f: "fills E C cfg e tip [a..<h] run1 (bw_storage s) = (Fill_done, run2, st2)"
      using p by simp_all
    moreover have "reads_past E content C cfg e s" using assms(2) by (simp add: backfill_fair_def)
    ultimately show "dom (stored content (pe_snap e h)) \<subseteq> dom (stored content (pe_other e h st2))"
      using assms(5) u(2) unfolding reads_past_def by blast
  qed
  have "kept E wf m Chain_C st'" "dom (stored content (bw_storage s)) \<union> {h \<in> set (heights a b). h \<le> T} \<subseteq> dom (stored content st')"
    using fill_loop_reaches [OF assms(1,2) conjI [OF assms(3) order_refl] _ _ past f] assms(4)
    by (simp_all add: heights_def del: upt_Suc)
  moreover have "{a..min b T} \<subseteq> {h \<in> set (heights a b). h \<le> T}" by auto
  ultimately show ?thesis by blast
qed

text \<open>The tip a pass works with: at least \<open>T\<close>, and so is what it caches.\<close>

lemma tip_reaches:
  assumes "\<exists>t \<ge> T. upstream_block_number up = Some t" "tc_fetched tip = None \<or> T \<le> tc_height tip"
    and "m \<in> {tip_get up now tip, tip_get_uncached up now tip}"
  shows "T \<le> fst m" "T \<le> tc_height (snd m)"
  using assms by (auto simp: tip_get_def tip_get_uncached_def tip_fresh_def Let_def split: option.splits)

lemma backfill_step_fills:
  assumes "backfill_pass E cfg (pe_up e) (pe_now e) (bw_storage s) (bw_tip s) = (Pass_fill a b tg d, tc)"
  obtains run r run' st' where
    "fill_range E C cfg (pe_up e) (pe_snap e) (pe_other e) (pe_clk e) a b tg run (bw_storage s) = (r, run', st')"
    "bw_storage (backfill_step E C cfg e s) = st'" "bw_tip (backfill_step E C cfg e s) = tc"
proof -
  let ?run = "bw_run s\<lparr>rs_behind_tip := d,
    rs_progress := snd (snd (observe (pe_now e) (tg - d) tg d (rs_progress (bw_run s))))\<rparr>"
  show thesis
    using assms
    by (cases "fill_range E C cfg (pe_up e) (pe_snap e) (pe_other e) (pe_clk e) a b tg ?run (bw_storage s)")
       (auto simp: backfill_iteration_def Let_def split_def intro!: that)
qed

lemma backfill_ready_pass:
  assumes "0 < m" "backfill_ready E content wf cfg m T s" "backfill_fair E content wf C cfg m T e s"
  obtains c hw t where "m \<le> Suc c" "{m..c} \<subseteq> dom (stored content (bw_storage s))" "Suc c \<notin> dom (stored content (bw_storage s))"
    and "T \<le> fst t" "T \<le> tc_height (snd t)"
    and "backfill_pass E cfg (pe_up e) (pe_now e) (bw_storage s) (bw_tip s) =
      (if max hw (fst t) \<le> c then (Pass_caught_up c, snd t)
       else (Pass_fill (sat_add c 1) (min (max hw (fst t)) (sat_add (sat_add c 1) (LOGS_WINDOW - 1)))
         (max hw (fst t)) (max hw (fst t) - c), snd t))"
proof -
  let ?st = "bw_storage s"
  define f where "f = (case cfg_backfill_floor cfg of None \<Rightarrow> 0 | Some f \<Rightarrow> f) - 1"
  define c where "c = max (max_contiguous_height E ?st) f"
  define hw where "hw = high_water E ?st"
  define t where "t = (if c < max hw (tc_height (bw_tip s)) then tip_get (pe_up e) (pe_now e) (bw_tip s)
      else tip_get_uncached (pe_up e) (pe_now e) (bw_tip s))"
  have wf: "storage_wf wf ?st" and an: "anchored E m ?st"
    and fl: "cfg_backfill_floor cfg = Some m \<or> cfg_backfill_floor cfg = None \<and> stored content ?st m \<noteq> None"
    and tc: "tc_fetched (bw_tip s) = None \<or> T \<le> tc_height (bw_tip s)"
    using assms(2) by (simp_all add: backfill_ready_def kept_def)
  have fc: "f = m - 1 \<or> st_store ?st \<noteq> None \<and> stored content ?st m \<noteq> None" "f < m"
    using fl assms(1) by (auto simp: f_def stored_def split: option.splits)
  have tip: "T \<le> fst t" "T \<le> tc_height (snd t)"
    using tip_reaches [OF _ tc, of "pe_up e" t "pe_now e"] assms(3) by (auto simp: t_def backfill_fair_def upstream_serves_def)
  have "\<not> (hw = 0 \<and> cfg_backfill_floor cfg = None)"
    using fl stored_range(2) [OF wf, of m] assms(1) by (fastforce simp: hw_def)
  with that [OF frontier_exact [OF wf an assms(1) fc(1) c_def fc(2)] tip] show thesis
    unfolding backfill_pass_shape [OF hw_def f_def c_def t_def] by (simp only: if_False simp_thms)
qed

lemma backfill_step_advances:
  assumes "disk_ok E wf" "0 < m" "m \<le> T \<and> T < u64_max" "backfill_ready E content wf cfg m T s"
    and "backfill_fair E content wf C cfg m T e s" "{m..<n} \<subseteq> dom (stored content (bw_storage s))"
  shows "backfill_ready E content wf cfg m T (backfill_step E C cfg e s) \<and>
    {m..<min (Suc T) (n + LOGS_WINDOW)} \<subseteq> dom (stored content (bw_storage (backfill_step E C cfg e s)))"
proof -
  let ?st = "bw_storage s"
  obtain c hw t where fr: "m \<le> Suc c" "{m..c} \<subseteq> dom (stored content ?st)" "Suc c \<notin> dom (stored content ?st)"
    and tip: "T \<le> fst t" "T \<le> tc_height (snd t)"
    and pass: "backfill_pass E cfg (pe_up e) (pe_now e) ?st (bw_tip s) =
      (if max hw (fst t) \<le> c then (Pass_caught_up c, snd t)
       else (Pass_fill (sat_add c 1) (min (max hw (fst t)) (sat_add (sat_add c 1) (LOGS_WINDOW - 1)))
         (max hw (fst t)) (max hw (fst t) - c), snd t))"
    using backfill_ready_pass [OF assms(2,4,5)] .
  have k: "kept E wf m Chain_C ?st" using assms(4) by (simp add: backfill_ready_def)
  have n: "n \<le> Suc c" using fr(1,3) assms(6) by (meson atLeastLessThan_iff not_le subsetD)
  have ready: "backfill_ready E content wf cfg m T s'"
    if "kept E wf m Chain_C (bw_storage s')" "dom (stored content ?st) \<subseteq> dom (stored content (bw_storage s'))"
      "bw_tip s' = snd t" for s'
    using that assms(4) tip(2) by (auto simp: backfill_ready_def)
  show ?thesis
  proof (cases "c \<ge> max hw (fst t)")
    case True
    then have "T \<le> c" using tip(1) by simp
    with True fr(2) k show ?thesis
      by (auto simp: backfill_iteration_def pass Let_def subset_iff intro!: ready)
  next
    case False
    define tg where "tg = max hw (fst t)"
    define a where "a = sat_add c 1"
    define b where "b = min tg (sat_add a (LOGS_WINDOW - 1))"
    have p: "backfill_pass E cfg (pe_up e) (pe_now e) ?st (bw_tip s) = (Pass_fill a b tg (tg - c), snd t)"
      using False unfolding pass by (simp only: tg_def a_def b_def if_False)
    then obtain run r run' st' where
      f: "fill_range E C cfg (pe_up e) (pe_snap e) (pe_other e) (pe_clk e) a b tg run ?st = (r, run', st')"
      and s': "bw_storage (backfill_step E C cfg e s) = st'" "bw_tip (backfill_step E C cfg e s) = snd t"
      by (rule backfill_step_fills)
    have "m \<le> a" using fr(1) assms(3) by (simp add: a_def sat_add_def)
    from fill_range_reaches [OF assms(1,5) k this p f]
    have r: "kept E wf m Chain_C st'" "dom (stored content ?st) \<union> {a..min b T} \<subseteq> dom (stored content st')" by auto
    have "{m..<min (Suc T) (n + LOGS_WINDOW)} \<subseteq> {m..c} \<union> {a..min b T}"
      using n tip(1) assms(3) by (auto simp: a_def b_def tg_def sat_add_def LOGS_WINDOW_def)
    then have "{m..<min (Suc T) (n + LOGS_WINDOW)} \<subseteq> dom (stored content st')" using fr(2) r(2) by blast
    then show ?thesis using ready s' r by auto
  qed
qed

lemma fill_loop_returns:
  "\<forall>h\<in>set hs. results h \<noteq> One_parked \<Longrightarrow>
     fst (fill_loop E C cfg results other clk tip hs run st) \<noteq> Fill_parked"
  by (induction hs arbitrary: run st) (auto simp: Let_def split: fetch_one_end.splits fetched.splits prod.splits sum.splits)

lemma backfill_returns:
  assumes "backfill_fair E content wf C cfg m T e s"
  shows "fst (backfill_iteration E C cfg e s) \<noteq> Pass_parked"
proof -
  let ?up = "pe_up e"
  have "fetch_one E cfg ?up st h \<noteq> One_parked" for st h
  proof -
    have "fst (fetch_full_block cfg ?up h None) \<noteq> Parked" "fetch_block_receipts cfg ?up h \<noteq> Parked"
      using assms by (simp_all add: backfill_fair_def upstream_serves_def)
    then show ?thesis
      by (cases "fetch_block_receipts cfg ?up h"; cases "fst (fetch_full_block cfg ?up h None)")
        (simp_all add: fetch_one_def Let_def)
  qed
  then have loop: "fst (fill_loop E C cfg (\<lambda>h. fetch_one E cfg ?up (pe_snap e h) h) other clk tip hs run st) \<noteq> Fill_parked"
    for other clk tip hs run st by (intro fill_loop_returns) blast
  have "load_range cfg ?up a b w \<noteq> Load_parked" if "cfg_ingest_logs cfg \<and> cfg_logs_source cfg = GetLogs" for a b w
  proof -
    have "\<forall>a b. \<exists>l. fetch_logs cfg ?up a b = Got l" using assms that unfolding backfill_fair_def upstream_serves_def by blast
    then show ?thesis by (metis load_range_def rpc_fetch.simps(8) load_end.distinct(3))
  qed
  with loop have "fst (fill_range E C cfg ?up (pe_snap e) other clk a b tip run st) \<noteq> Fill_parked" for other clk a b tip run st
    by (auto simp: fill_range_def Let_def split: load_end.splits)
  then show ?thesis
    by (auto simp: backfill_iteration_def Let_def split: prod.splits pass.splits fill_end.splits)
      (metis fst_conv)+
qed

text \<open>A run writes at its own heights only.\<close>

lemma fill_loop_spares:
  assumes "\<forall>h s. storage_wf wf s \<longrightarrow> storage_wf wf (other h s) \<and> stored content (other h s) k = stored content s k"
    and "storage_wf wf st" "k \<notin> set hs"
    and "fill_loop E C cfg (\<lambda>h. fetch_one E cfg up (snap h) h) other clk tip hs run st = (r, run', st')"
  shows "storage_wf wf st' \<and> stored content st' k = stored content st k"
  using assms(2-4)
proof (induction hs arbitrary: st run)
  case (Cons h hs)
  let ?s = "other h st"
  have s: "storage_wf wf ?s" "stored content ?s k = stored content st k" using assms(1) Cons.prems(1) by auto
  have go: ?case
    if "storage_wf wf s1" "stored content s1 k = stored content st k"
      "fill_loop E C cfg (\<lambda>h. fetch_one E cfg up (snap h) h) other clk tip hs run1 s1 = (r, run', st')" for s1 run1
    using Cons.IH [OF that(1) _ that(3)] that(2) Cons.prems(2) by simp
  from Cons.prems(3) show ?case
  proof (cases rule: fill_loop_ConsE)
    case skip
    with s show ?thesis by (intro go [of ?s run])
  next
    case (cut block l x)
    show ?thesis using persist_backfilled_store(1,2) [OF s(1) cut(3)] Cons.prems(2) s(2) by auto
  next
    case (wrote block l s1 run1)
    show ?thesis
      using persist_backfilled_store(1,2) [OF s(1) wrote(2)] Cons.prems(2) s(2) by (intro go [OF _ _ wrote(3)]) auto
  qed (use s in simp)
qed simp

lemma backfill_step_spares_zero:
  assumes "\<forall>h s. storage_wf wf s \<longrightarrow> storage_wf wf (pe_other e h s) \<and> stored content (pe_other e h s) 0 = stored content s 0"
    and "storage_wf wf (bw_storage s)"
  shows "storage_wf wf (bw_storage (backfill_step E C cfg e s)) \<and>
    stored content (bw_storage (backfill_step E C cfg e s)) 0 = stored content (bw_storage s) 0"
proof -
  obtain p tip where p: "backfill_pass E cfg (pe_up e) (pe_now e) (bw_storage s) (bw_tip s) = (p, tip)"
    by (cases "backfill_pass E cfg (pe_up e) (pe_now e) (bw_storage s) (bw_tip s)")
  show ?thesis
  proof (cases p)
    case (Pass_fill a b t behind)
    have a: "0 < a"
      using p Pass_fill by (auto simp: backfill_pass_def Let_def sat_add_def u64_max_def split: if_splits prod.splits)
    define run where "run = (bw_run s)\<lparr>rs_behind_tip := behind,
      rs_progress := snd (snd (observe (pe_now e) (t - behind) t behind (rs_progress (bw_run s))))\<rparr>"
    obtain r run' st' where f: "fill_range E C cfg (pe_up e) (pe_snap e) (pe_other e) (pe_clk e) a b t run (bw_storage s) =
        (r, run', st')"
      by (cases "fill_range E C cfg (pe_up e) (pe_snap e) (pe_other e) (pe_clk e) a b t run (bw_storage s)")
    have "storage_wf wf st' \<and> stored content st' 0 = stored content (bw_storage s) 0"
    proof (cases "if cfg_ingest_logs cfg \<and> cfg_logs_source cfg = GetLogs
        then load_range cfg (pe_up e) a b (rs_logs run) else Loaded (rs_logs run)")
      case (Loaded w)
      with f have "fill_loop E C cfg (\<lambda>h. fetch_one E cfg (pe_up e) (pe_snap e h) h) (pe_other e) (pe_clk e) t
          (heights a b) (run\<lparr>rs_logs := w\<rparr>) (bw_storage s) = (r, run', st')"
        by (simp add: fill_range_def Let_def)
      from fill_loop_spares [OF assms(1,2) _ this] a show ?thesis by simp
    qed (use f assms(2) in \<open>simp_all add: fill_range_def Let_def\<close>)
    moreover have "bw_storage (backfill_step E C cfg e s) = st'"
      using f by (simp add: backfill_iteration_def p Pass_fill Let_def split_def run_def)
    ultimately show ?thesis by simp
  qed (use assms(2) p in \<open>simp_all add: backfill_iteration_def Let_def\<close>)
qed

lemma backfill_loop_spares_zero:
  assumes "\<forall>e\<in>set es. \<forall>h s. storage_wf wf s \<longrightarrow>
      storage_wf wf (pe_other e h s) \<and> stored content (pe_other e h s) 0 = stored content s 0"
    and "storage_wf wf (bw_storage s)"
  shows "storage_wf wf (bw_storage (backfill_loop E C cfg es s)) \<and>
    stored content (bw_storage (backfill_loop E C cfg es s)) 0 = stored content (bw_storage s) 0"
  unfolding backfill_loop_def
  using run_passes_keeps [where P = "\<lambda>w. storage_wf wf (bw_storage w) \<and>
      stored content (bw_storage w) 0 = stored content (bw_storage s) 0" and es = es and s = s and pass = "backfill_iteration E C cfg"]
    backfill_step_spares_zero assms by simp

lemma missing_not_replayed:
  assumes "storage_wf wf st" "stored content st h = None" "h \<le> e"
  shows "\<exists>x \<in> {Hole h, Read_failed h}. range_loop (Suc fuel) E k (Some e) (\<lambda>_. st) send_ok n h = Some ([], x)"
proof -
  have "range_stored E st (wants_record k) h = Inr v \<Longrightarrow> v = None" for v
    using get_record_refines [OF assms(1), of h v] get_element_refines [OF assms(1), of h BLOCK] assms(2)
    by (cases "get_element E st h BLOCK")
      (auto simp: range_stored_def spec_record_def spec_element_def get_by_height_def deref_view_def split: if_splits)
  then show ?thesis using assms(3) by (cases "range_stored E st (wants_record k) h") auto
qed

end

text \<open>
  The state of the worker carries what the laws assume of it: the engines, the disk and the range
  are the same throughout.
\<close>

definition worker_inv ::
  "('s, 'd) engines \<Rightarrow> ('s \<Rightarrow> u64 \<rightharpoonup> bytes) \<Rightarrow> ('s \<Rightarrow> bool) \<Rightarrow> ('d \<Rightarrow> kv_view) \<Rightarrow> ingest_cfg \<Rightarrow> u64 \<Rightarrow> u64 \<Rightarrow>
     ('s, 'd) backfill_worker \<Rightarrow> bool" where
  "worker_inv E content ok view cfg m T s \<longleftrightarrow>
     storage_engine E content ok view \<and> disk_ok E ok \<and> 0 < m \<and> m \<le> T \<and> T < u64_max \<and>
     backfill_ready E content ok cfg m T s"

interpretation worker: catch_up "backfill_iteration E C cfg" "backfill_fair E content ok C cfg m T"
  "worker_inv E content ok view cfg m T" "\<lambda>s n. {m..<n} \<subseteq> dom (stored content (bw_storage s))" "Suc T" LOGS_WINDOW
  for E :: "('s, 'd) engines" and C cfg content ok m T view
proof unfold_locales
  fix s e
  assume a: "worker_inv E content ok view cfg m T s" "backfill_fair E content ok C cfg m T e s"
  note step = storage_engine.backfill_step_advances
    [OF a(1) [unfolded worker_inv_def, THEN conjunct1] _ _ _ _ a(2)]
  show "worker_inv E content ok view cfg m T (backfill_step E C cfg e s)"
    using a(1) step [of m] unfolding worker_inv_def by simp
  show "fst (backfill_iteration E C cfg e s) \<noteq> Pass_parked"
    using storage_engine.backfill_returns [OF _ a(2)] a(1) unfolding worker_inv_def by blast
  show "{m..<min (Suc T) (n + LOGS_WINDOW)} \<subseteq> dom (stored content (bw_storage (backfill_step E C cfg e s)))"
    if "{m..<n} \<subseteq> dom (stored content (bw_storage s))" for n
    using a(1) step [OF _ _ _ _ that] unfolding worker_inv_def by simp
qed

section \<open>The polling loop catches up\<close>

record poll_env =
  pl_now :: instant
  pl_up :: upstream
  pl_clk :: "u64 \<Rightarrow> instant"
  pl_listening :: bool

definition p_ingest_new :: "ingest_cfg \<Rightarrow> ('s, 'd) storage \<Rightarrow> ('s, 'd) p_state" where
  "p_ingest_new cfg st =
     \<lparr>ps_storage = st, ps_tip = 0, ps_tip_read_at = None,
      ps_run = \<lparr>pr_progress = progress_new Chain_P (cfg_progress_period cfg), pr_behind_tip = 0, pr_published = []\<rparr>,
      ps_backfill_count = 0\<rparr>"

definition p_ingest_iteration ::
  "('s, 'd) engines \<Rightarrow> crypto \<Rightarrow> ingest_cfg \<Rightarrow> poll_env \<Rightarrow> ('s, 'd) p_state \<Rightarrow> pass_end \<times> ('s, 'd) p_state" where
  "p_ingest_iteration E C cfg e s = p_ingest_pass E C cfg (pl_up e) (pl_listening e) (pl_now e) (pl_clk e) s"

definition p_ingest_loop ::
  "('s, 'd) engines \<Rightarrow> crypto \<Rightarrow> ingest_cfg \<Rightarrow> poll_env list \<Rightarrow> ('s, 'd) p_state \<Rightarrow> ('s, 'd) p_state" where
  "p_ingest_loop E C cfg es s = run_passes (p_ingest_iteration E C cfg) es s"

abbreviation p_ingest_step ::
  "('s, 'd) engines \<Rightarrow> crypto \<Rightarrow> ingest_cfg \<Rightarrow> poll_env \<Rightarrow> ('s, 'd) p_state \<Rightarrow> ('s, 'd) p_state" where
  "p_ingest_step E C cfg e s \<equiv> snd (p_ingest_iteration E C cfg e s)"

text \<open>
  A fair environment: the upstream names a tip of at least \<open>T\<close>, serves every block from \<open>m\<close> to \<open>T\<close>
  in both encodings, with the reward outputs of the proposals among them, and the block at \<open>T\<close> does
  not wait for the one after it; nowhere does it ask for a longer wait than the operator allows.
\<close>

definition p_fair ::
  "('s, 'd) engines \<Rightarrow> crypto \<Rightarrow> ingest_cfg \<Rightarrow> u64 \<Rightarrow> u64 \<Rightarrow> poll_env \<Rightarrow> ('s, 'd) p_state \<Rightarrow> bool" where
  "p_fair E C cfg m T e s \<longleftrightarrow>
     (\<exists>t \<ge> T. fetch_height cfg (pl_up e) = Tip t) \<and>
     (\<forall>h. m \<le> h \<and> h \<le> T \<longrightarrow>
        settled (en_ser E) cfg (pl_up e) (p_fetch_block (en_ser E) C cfg (pl_up e)) h \<noteq> None) \<and>
     (\<exists>fb. p_fetch_block (en_ser E) C cfg (pl_up e) T = Blk fb \<and> fb_reward_staking_tx fb = None) \<and>
     (\<forall>h. p_fetch_block (en_ser E) C cfg (pl_up e) h \<noteq> Blk_parked) \<and>
     (\<forall>tx. fetch_reward_utxos cfg (pl_up e) tx \<noteq> Parked)"

definition p_ready ::
  "('s, 'd) engines \<Rightarrow> ('s \<Rightarrow> u64 \<rightharpoonup> bytes) \<Rightarrow> ('s \<Rightarrow> bool) \<Rightarrow> ingest_cfg \<Rightarrow> u64 \<Rightarrow> u64 \<Rightarrow> ('s, 'd) p_state \<Rightarrow> bool" where
  "p_ready E content ok cfg m T s \<longleftrightarrow>
     kept E ok m Chain_P (ps_storage s) \<and>
     (if is_empty (ps_storage s) then cfg_backfill_floor cfg = Some m else stored content (ps_storage s) m \<noteq> None) \<and>
     (ps_tip_read_at s = None \<or> T \<le> ps_tip s)"

text \<open>
  The heights of a run that must be stored when it is over: those up to \<open>T\<close>, but for a proposal at
  the very end.
\<close>

definition due :: "(u64 \<Rightarrow> block_fetch) \<Rightarrow> u64 \<Rightarrow> u64 \<Rightarrow> u64 \<Rightarrow> u64 set" where
  "due results T lo hi =
     {h. lo \<le> h \<and> h < hi \<and> h \<le> T \<and> (Suc h = hi \<longrightarrow> (\<exists>fb. results h = Blk fb \<and> fb_reward_staking_tx fb = None))}"

lemma due_0: "held results a pending \<Longrightarrow> due results T (first_open a pending) a = {}"
proof -
  assume held: "held results a pending"
  have "h = a - 1" if "a - 1 \<le> h" "h < a" for h using that by simp
  then show ?thesis using held by (fastforce simp: due_def first_open_def held_def split: option.splits)
qed

lemma due_past:
  assumes "held results a pending" "\<exists>fb. results T = Blk fb \<and> fb_reward_staking_tx fb = None" "T < a"
  shows "due results T (first_open a pending) hi = {}"
proof -
  have "pending = None \<or> T < a - 1" using assms by (cases pending; cases "T = a - 1") (auto simp: held_def)
  then have "T < first_open a pending" using assms(3) by (auto simp: first_open_def split: option.splits)
  then show ?thesis by (auto simp: due_def)
qed

lemma due_Suc:
  assumes "h \<in> due results T (first_open a pending) (a + Suc n)" "held results a pending"
    and "\<exists>fb. results T = Blk fb \<and> fb_reward_staking_tx fb = None"
  shows "h = a - 1 \<and> pending \<noteq> None \<and> a \<le> T \<or> h = a \<and> pd = None \<or>
    h \<in> due results T (first_open (Suc a) pd) (Suc a + n)"
proof (cases "h < a")
  case True
  then have p: "pending \<noteq> None" "h = a - 1"
    using assms(1) by (auto simp: due_def first_open_def split: option.splits)
  then have "a - 1 \<noteq> T" using assms(2,3) by (auto simp: held_def)
  then show ?thesis using p True assms(1) by (auto simp: due_def)
next
  case False
  then show ?thesis using assms(1) by (cases pd; cases "h = a") (auto simp: due_def first_open_def)
qed

lemma due_covered:
  assumes "held results a pending" "\<exists>fb. results T = Blk fb \<and> fb_reward_staking_tx fb = None"
    and "pending \<noteq> None \<Longrightarrow> a \<le> T \<Longrightarrow> a - 1 \<in> D" "pd = None \<Longrightarrow> a \<in> D"
    and "due results T (first_open (Suc a) pd) (Suc a + n) \<subseteq> D"
  shows "due results T (first_open a pending) (a + Suc n) \<subseteq> D"
proof
  fix h
  assume "h \<in> due results T (first_open a pending) (a + Suc n)"
  from due_Suc [OF this assms(1,2), of pd]
  consider "h = a - 1" "pending \<noteq> None" "a \<le> T" | "h = a" "pd = None"
    | "h \<in> due results T (first_open (Suc a) pd) (Suc a + n)" by blast
  then show "h \<in> D" using assms(3-) by cases auto
qed

context storage_engine
begin

lemma emit_kept:
  assumes "kept E wf m Chain_P st" "m \<le> fb_height fb" "emit E listening now tip fb rewards run st = (ok, run', st')"
  shows "kept E wf m Chain_P st'" "dom (stored content st) \<subseteq> dom (stored content st')"
    "ok \<Longrightarrow> fb_height fb \<in> dom (stored content st')" "disk_ok E wf \<Longrightarrow> ok"
proof -
  let ?es = "block_elements fb rewards"
  obtain q s where p: "put E (fb_height fb) (fb_id fb) (fb_tx_ids fb) ?es st = (q, s)"
    by (cases "put E (fb_height fb) (fb_id fb) (fb_tx_ids fb) ?es st")
  have s: "st' = s" and ok: "ok \<longleftrightarrow> q = Inr ()"
    using assms(3) p by (cases q; auto simp: emit_def store_block_def Let_def)+
  from put_kept [OF assms(1) disjI1 [OF assms(2)] p] s
  show "kept E wf m Chain_P st'" "dom (stored content st) \<subseteq> dom (stored content st')" by simp_all
  show "fb_height fb \<in> dom (stored content st')" if ok
    using put_ok(2) [of st] assms(1) p s ok that by (auto simp: kept_def)
  show ok if "disk_ok E wf"
    using put_succeeds [OF that assms(1,2), of ?es "fb_id fb" "fb_tx_ids fb"] p ok by (auto simp: block_elements_def)
qed

lemma release_kept:
  assumes "kept E wf m Chain_P st" "\<forall>p. pending = Some p \<longrightarrow> m \<le> fb_height p"
    and "release_pending E cfg up listening now tip pending fb run st = (r, run', st')"
  shows "kept E wf m Chain_P st'" "dom (stored content st) \<subseteq> dom (stored content st')"
    "disk_ok E wf \<Longrightarrow> \<forall>p. pending = Some p \<longrightarrow> (\<exists>t. resolve_reward (en_ser E) cfg up p (fb_kind fb) = Rw t) \<Longrightarrow>
       r = Fill_done \<and> (\<forall>p. pending = Some p \<longrightarrow> fb_height p \<in> dom (stored content st'))"
proof -
  have "kept E wf m Chain_P st' \<and> dom (stored content st) \<subseteq> dom (stored content st') \<and>
    (disk_ok E wf \<and> (\<forall>p. pending = Some p \<longrightarrow> (\<exists>t. resolve_reward (en_ser E) cfg up p (fb_kind fb) = Rw t)) \<longrightarrow>
       r = Fill_done \<and> (\<forall>p. pending = Some p \<longrightarrow> fb_height p \<in> dom (stored content st')))"
  proof (cases pending)
    case None
    with assms(1,3) show ?thesis by (simp add: release_pending_def)
  next
    case (Some p)
    show ?thesis
    proof (cases "resolve_reward (en_ser E) cfg up p (fb_kind fb)")
      case (Rw t)
      obtain ok run1 st1 where e: "emit E listening now tip p t run st = (ok, run1, st1)"
        by (cases "emit E listening now tip p t run st") auto
      from emit_kept [OF assms(1) _ e] assms(2,3) Some Rw e show ?thesis by (auto simp: release_pending_def)
    qed (use assms(1,3) Some in \<open>simp_all add: release_pending_def\<close>)
  qed
  then show "kept E wf m Chain_P st'" "dom (stored content st) \<subseteq> dom (stored content st')"
    "disk_ok E wf \<Longrightarrow> \<forall>p. pending = Some p \<longrightarrow> (\<exists>t. resolve_reward (en_ser E) cfg up p (fb_kind fb) = Rw t) \<Longrightarrow>
       r = Fill_done \<and> (\<forall>p. pending = Some p \<longrightarrow> fb_height p \<in> dom (stored content st'))"
    by blast+
qed

lemma release_settles:
  assumes "disk_ok E wf" "\<forall>h b. results h = Blk b \<longrightarrow> fb_height b = h"
    and "\<forall>h. m \<le> h \<and> h \<le> T \<longrightarrow> settled (en_ser E) cfg up results h \<noteq> None"
    and "kept E wf m Chain_P st" "held results a pending" "m \<le> first_open a pending" "results a = Blk fb"
    and "release_pending E cfg up listening now tip pending fb run st = (r, run', st')"
  shows "kept E wf m Chain_P st'" "dom (stored content st) \<subseteq> dom (stored content st')"
    "a \<le> T \<Longrightarrow> r = Fill_done \<and> (pending \<noteq> None \<longrightarrow> a - 1 \<in> dom (stored content st'))"
proof -
  have pend: "a \<noteq> 0 \<and> fb_height p = a - 1 \<and> m \<le> a - 1 \<and> results (a - 1) = Blk p \<and> fb_reward_staking_tx p \<noteq> None"
    if "pending = Some p" for p
    using assms(2,5,6) that by (auto simp: held_def first_open_def)
  then have pm: "\<forall>p. pending = Some p \<longrightarrow> m \<le> fb_height p" by auto
  note K = release_kept [OF assms(4) pm assms(8)]
  show "kept E wf m Chain_P st'" "dom (stored content st) \<subseteq> dom (stored content st')" by (fact K)+
  assume "a \<le> T"
  have "\<exists>t. resolve_reward (en_ser E) cfg up p (fb_kind fb) = Rw t" if "pending = Some p" for p
  proof -
    have "settled (en_ser E) cfg up results (a - 1) \<noteq> None" using assms(3) pend [OF that] \<open>a \<le> T\<close> by simp
    then show ?thesis using settled_proposal [of results "a - 1" p fb] pend [OF that] assms(7) by auto
  qed
  then show "r = Fill_done \<and> (pending \<noteq> None \<longrightarrow> a - 1 \<in> dom (stored content st'))"
    using K(3) [OF assms(1)] pend by (cases pending) auto
qed

lemma p_fill_loop_reaches:
  assumes "disk_ok E wf" "\<forall>h b. results h = Blk b \<longrightarrow> fb_height b = h"
    and "\<forall>h. m \<le> h \<and> h \<le> T \<longrightarrow> settled (en_ser E) cfg up results h \<noteq> None"
    and "\<exists>fb. results T = Blk fb \<and> fb_reward_staking_tx fb = None"
    and "kept E wf m Chain_P st" "held results a pending" "m \<le> first_open a pending"
    and "p_fill_loop E cfg up listening results clk tip [a..<a + n] pending run st = (r, run', st')"
  shows "kept E wf m Chain_P st' \<and> dom (stored content st) \<union> due results T (first_open a pending) (a + n) \<subseteq> dom (stored content st')"
  using assms(5-)
proof (induction n arbitrary: a pending run st)
  case 0
  then show ?case using due_0 by simp
next
  case (Suc n)
  have hs: "[a..<a + Suc n] = a # [Suc a..<Suc a + n]" by (simp add: upt_rec)
  have m: "m \<le> a" using Suc.prems(3) by (auto simp: first_open_def split: option.splits)
  have stop: ?case if "st' = s" "kept E wf m Chain_P s" "dom (stored content st) \<subseteq> dom (stored content s)" "T < a" for s
    using that due_past [OF Suc.prems(2) assms(4)] by simp
  have late: "T < a" if "results a = Blk_parked \<or> results a = Blk_none"
  proof -
    have "settled (en_ser E) cfg up results a = None" using that by (auto simp: settled_def)
    then show ?thesis using assms(3) m by (metis not_le)
  qed
  have go: ?case
    if rel: "release_pending E cfg up listening (clk a) tip pending fb run st = (Fill_done, run1, st1)" "results a = Blk fb"
      and s: "kept E wf m Chain_P s" "dom (stored content st1) \<subseteq> dom (stored content s)"
        "pd = None \<Longrightarrow> a \<in> dom (stored content s)" "held results (Suc a) pd"
        "p_fill_loop E cfg up listening results clk tip [Suc a..<Suc a + n] pd rn s = (r, run', st')"
    for fb run1 st1 s pd rn
  proof -
    note K = release_settles [OF assms(1-3) Suc.prems(1-3) rel(2,1)]
    have "m \<le> first_open (Suc a) pd" using m by (simp add: first_open_def split: option.splits)
    from Suc.IH [OF s(1,4) this s(5)]
    have IH: "kept E wf m Chain_P st'" "dom (stored content s) \<subseteq> dom (stored content st')"
      "due results T (first_open (Suc a) pd) (Suc a + n) \<subseteq> dom (stored content st')" by auto
    have "due results T (first_open a pending) (a + Suc n) \<subseteq> dom (stored content st')"
    proof (rule due_covered [OF Suc.prems(2) assms(4)])
      show "a - 1 \<in> dom (stored content st')" if "pending \<noteq> None" "a \<le> T"
        using K(3) [OF that(2)] that(1) s(2) IH(2) by (meson subsetD)
      show "a \<in> dom (stored content st')" if "pd = None" using s(3) [OF that] IH(2) by (rule subsetD [rotated])
    qed (rule IH(3))
    then show ?thesis using IH(1,2) K(2) s(2) by blast
  qed
  from Suc.prems(4) [unfolded hs] show ?case
  proof (cases rule: p_fill_loop_ConsE)
    case missing
    with late show ?thesis by (intro stop [OF _ Suc.prems(1)]) auto
  next
    case (unreleased fb)
    note K = release_settles [OF assms(1-3) Suc.prems(1-3) unreleased(1,2)]
    with unreleased(3) show ?thesis by (intro stop) (auto simp: not_le [symmetric])
  next
    case (hold fb run1 st1)
    note K = release_settles [OF assms(1-3) Suc.prems(1-3) hold(1,2)]
    with hold show ?thesis by (intro go [OF hold(2,1) _ _ _ _ hold(4)]) (auto simp: held_def)
  next
    case (cut fb run1 st1)
    note K = release_settles [OF assms(1-3) Suc.prems(1-3) cut(1,2)]
    from emit_kept(4) [OF K(1) _ cut(4) assms(1)] assms(2) cut(1) m show ?thesis by simp
  next
    case (emitted fb run1 st1 run2 st2)
    note K = release_settles [OF assms(1-3) Suc.prems(1-3) emitted(1,2)]
    have "fb_height fb = a" using assms(2) emitted(1) by blast
    with emit_kept [OF K(1) _ emitted(4)] m assms(1) show ?thesis
      by (intro go [OF emitted(2,1) _ _ _ _ emitted(5)]) (auto simp: held_def)
  qed
qed

lemma p_fill_range_reaches:
  assumes "disk_ok E wf" "p_fair E C cfg m T e w" "kept E wf m Chain_P st" "m \<le> a" "a \<le> Suc b"
    and "p_fill_range E C cfg (pl_up e) listening clk a b tip run st = (r, run', st')"
  shows "kept E wf m Chain_P st' \<and>
    dom (stored content st) \<union> due (p_fetch_block (en_ser E) C cfg (pl_up e)) T a (Suc b) \<subseteq> dom (stored content st')"
proof -
  have hs: "heights a b = [a..<a + (Suc b - a)]" and n: "a + (Suc b - a) = Suc b"
    using assms(5) by (simp_all add: heights_def)
  have hb: "\<forall>h fb. p_fetch_block (en_ser E) C cfg (pl_up e) h = Blk fb \<longrightarrow> fb_height fb = h"
    using p_fetch_block_height by blast
  show ?thesis
    using p_fill_loop_reaches [OF assms(1) hb _ _ assms(3) _ _ assms(6) [unfolded p_fill_range_def hs], of T]
      assms(2,4) n by (simp add: p_fair_def held_def first_open_def)
qed

text \<open>The next height of an anchored store: everything below it is there, and it is not.\<close>

lemma next_height_exact:
  assumes "p_ready E content wf cfg m T s" "m < u64_max"
    and "nx = next_height (is_empty (ps_storage s)) (max_contiguous_height E (ps_storage s)) cfg tip"
  shows "m \<le> nx" "{m..<nx} \<subseteq> dom (stored content (ps_storage s))" "nx \<notin> dom (stored content (ps_storage s)) \<or> nx = u64_max"
    "nx \<le> u64_max"
proof -
  let ?st = "ps_storage s"
  have "m \<le> nx \<and> {m..<nx} \<subseteq> dom (stored content ?st) \<and> (nx \<notin> dom (stored content ?st) \<or> nx = u64_max) \<and>
    nx \<le> u64_max"
  proof (cases "st_store ?st")
    case None
    with assms show ?thesis by (simp add: p_ready_def is_empty_def next_height_def stored_def)
  next
    case (Some b)
    then have b: "wf b" "bs_min (en_bs E) b = m" "stored content ?st = content b" "content b m \<noteq> None"
      using assms(1) by (simp_all add: p_ready_def kept_def storage_wf_def anchored_def stored_def is_empty_def)
    have nx: "nx = min (Suc (bs_contig (en_bs E) b)) u64_max"
      using Some assms(3) by (simp add: next_height_def is_empty_def max_contiguous_height_def sat_add_def)
    have "content b h \<noteq> None" if "m \<le> h" "h \<le> bs_contig (en_bs E) b" for h
      using contig_present [OF b(1), of h] b(2,4) that by simp
    with contig_next [OF b(1)] b nx assms(2) show ?thesis by (auto simp: less_Suc_eq_le domIff min_def split: if_splits)
  qed
  then show "m \<le> nx" "{m..<nx} \<subseteq> dom (stored content ?st)" "nx \<notin> dom (stored content ?st) \<or> nx = u64_max"
    "nx \<le> u64_max" by auto
qed

lemma p_fill_pass_advances:
  assumes "disk_ok E wf" "m \<le> T \<and> T < u64_max" "p_ready E content wf cfg m T s" "T \<le> ps_tip s"
    and "p_fair E C cfg m T e w" "{m..<n} \<subseteq> dom (stored content (ps_storage s))"
    and "p_fill_pass E C cfg (pl_up e) listening now clk s = (r, s')"
  shows "kept E wf m Chain_P (ps_storage s') \<and> ps_tip s' = ps_tip s \<and>
    {m..<min (Suc T) (n + (FILL_CHUNK - 1))} \<subseteq> dom (stored content (ps_storage s'))"
proof -
  define nx where "nx = next_height (is_empty (ps_storage s)) (max_contiguous_height E (ps_storage s)) cfg (ps_tip s)"
  have "m < u64_max" using assms(2) by simp
  note N = next_height_exact [OF assms(3) this nx_def]
  have n: "n \<le> nx \<or> T < nx" using N assms(2,6) by (metis atLeastLessThan_iff not_le subsetD)
  have k: "kept E wf m Chain_P (ps_storage s)" using assms(3) by (simp add: p_ready_def)
  show ?thesis
  proof (cases "nx > ps_tip s")
    case True
    then have "ps_storage s' = ps_storage s" "ps_tip s' = ps_tip s"
      using assms(7) by (auto simp: p_fill_pass_def nx_def [symmetric] Let_def)
    moreover have "{m..<min (Suc T) (n + (FILL_CHUNK - 1))} \<subseteq> {m..<nx}" using True assms(4) by auto
    ultimately show ?thesis using k N(2) by (metis subset_trans)
  next
    case False
    define lst where "lst = min (ps_tip s) (sat_add nx (FILL_CHUNK - 1))"
    have le: "nx \<le> Suc lst" using False N(4) by (auto simp: lst_def sat_add_def min_def)
    obtain run q run' st' where
      f: "p_fill_range E C cfg (pl_up e) listening clk nx lst (ps_tip s) run (ps_storage s) = (q, run', st')"
      and s': "ps_storage s' = st'" "ps_tip s' = ps_tip s"
      using assms(7) False
      by (auto simp: p_fill_pass_def nx_def [symmetric] lst_def [symmetric] Let_def simp del: One_nat_def split: prod.splits)
    note F = p_fill_range_reaches [OF assms(1,5) k N(1) le f]
    have "h \<in> due (p_fetch_block (en_ser E) C cfg (pl_up e)) T nx (Suc lst)"
      if "nx \<le> h" "h < min (Suc T) (n + (FILL_CHUNK - 1))" for h
    proof -
      have "h < Suc lst" "h = lst \<Longrightarrow> h = T"
        using that n assms(2,4) by (auto simp: lst_def sat_add_def FILL_CHUNK_def min_def split: if_splits)
      then show ?thesis using that assms(5) by (auto simp: due_def p_fair_def)
    qed
    then have "{m..<min (Suc T) (n + (FILL_CHUNK - 1))} \<subseteq>
        {m..<nx} \<union> due (p_fetch_block (en_ser E) C cfg (pl_up e)) T nx (Suc lst)"
      by (metis UnCI atLeastLessThan_iff not_le subsetI)
    then show ?thesis using F s' N(2) by blast
  qed
qed

lemma p_ingest_step_advances:
  assumes "disk_ok E wf" "m \<le> T \<and> T < u64_max" "p_ready E content wf cfg m T s" "p_fair E C cfg m T e s"
    and "{m..<n} \<subseteq> dom (stored content (ps_storage s))"
  shows "p_ready E content wf cfg m T (p_ingest_step E C cfg e s) \<and>
    {m..<min (Suc T) (n + (FILL_CHUNK - 1))} \<subseteq> dom (stored content (ps_storage (p_ingest_step E C cfg e s)))"
proof -
  obtain s1 where step: "p_ingest_step E C cfg e s =
      snd (p_fill_pass E C cfg (pl_up e) (pl_listening e) (pl_now e) (pl_clk e) s1)"
    and s1: "ps_storage s1 = ps_storage s" "T \<le> ps_tip s1"
  proof (cases "tip_stale cfg (pl_now e) (ps_tip_read_at s)")
    case True
    obtain t where "T \<le> t" "fetch_height cfg (pl_up e) = Tip t" using assms(4) by (auto simp: p_fair_def)
    with True show thesis
      by (intro that [of "s\<lparr>ps_tip_read_at := Some (pl_now e), ps_tip := t\<rparr>"])
        (simp_all add: p_ingest_iteration_def p_ingest_pass_def)
  next
    case False
    then have "T \<le> ps_tip s" using assms(3) by (auto simp: p_ready_def tip_stale_def)
    with False show thesis by (intro that [of s]) (simp_all add: p_ingest_iteration_def p_ingest_pass_def)
  qed
  obtain r s' where pass: "p_fill_pass E C cfg (pl_up e) (pl_listening e) (pl_now e) (pl_clk e) s1 = (r, s')"
    by (cases "p_fill_pass E C cfg (pl_up e) (pl_listening e) (pl_now e) (pl_clk e) s1")
  have ready: "p_ready E content wf cfg m T s1" using assms(3) s1 by (simp add: p_ready_def)
  note A = p_fill_pass_advances [OF assms(1,2) ready s1(2) assms(4) _ pass, unfolded s1(1)]
  have "m \<in> {m..<min (Suc T) (m + (FILL_CHUNK - 1))}" using assms(2) by (simp add: FILL_CHUNK_def)
  then have "m \<in> dom (stored content (ps_storage s'))"
    using A [of m, THEN conjunct2, THEN conjunct2, THEN subsetD] by fastforce
  then have "\<not> is_empty (ps_storage s')" "stored content (ps_storage s') m \<noteq> None"
    by (auto simp: is_empty_def stored_def split: option.splits)
  then show ?thesis using A [OF assms(5)] s1(2) pass step by (simp add: p_ready_def)
qed

lemma p_fill_loop_returns:
  assumes "\<forall>h. results h \<noteq> Blk_parked" "\<forall>tx. fetch_reward_utxos cfg up tx \<noteq> Parked"
  shows "fst (p_fill_loop E cfg up listening results clk tip hs pending run st) \<noteq> Fill_parked"
proof (induction hs arbitrary: pending run st)
  case (Cons h hs)
  have "resolve_reward (en_ser E) cfg up p k \<noteq> Rw_parked" for p k
    using assms(2) by (auto simp: resolve_reward_def split: option.splits block_kind_t.splits rpc_fetch.splits)
  then have "fst (release_pending E cfg up listening now tip pending fb run st) \<noteq> Fill_parked" for now fb
    by (auto simp: release_pending_def split: option.splits reward_end.splits prod.splits bool.splits)
  then show ?case using Cons assms(1)
    by (auto split: block_fetch.splits prod.splits fill_end.splits bool.splits) (metis fst_conv)+
qed simp

lemma p_ingest_returns:
  assumes "p_fair E C cfg m T e w"
  shows "fst (p_ingest_iteration E C cfg e s) \<noteq> Pass_parked"
proof -
  have "fst (p_fill_range E C cfg (pl_up e) listening clk a b tip run st) \<noteq> Fill_parked" for listening clk a b tip run st
    using p_fill_loop_returns assms by (simp add: p_fill_range_def p_fair_def)
  then have "fst (p_fill_pass E C cfg (pl_up e) listening now clk s) \<noteq> Pass_parked" for listening now clk s
    by (auto simp: p_fill_pass_def Let_def split: prod.splits fill_end.splits) (metis fst_conv)+
  then show ?thesis using assms by (auto simp: p_ingest_iteration_def p_ingest_pass_def p_fair_def)
qed

end

definition poller_inv ::
  "('s, 'd) engines \<Rightarrow> ('s \<Rightarrow> u64 \<rightharpoonup> bytes) \<Rightarrow> ('s \<Rightarrow> bool) \<Rightarrow> ('d \<Rightarrow> kv_view) \<Rightarrow> ingest_cfg \<Rightarrow> u64 \<Rightarrow> u64 \<Rightarrow>
     ('s, 'd) p_state \<Rightarrow> bool" where
  "poller_inv E content ok view cfg m T s \<longleftrightarrow>
     storage_engine E content ok view \<and> disk_ok E ok \<and> m \<le> T \<and> T < u64_max \<and> p_ready E content ok cfg m T s"

interpretation poller: catch_up "p_ingest_iteration E C cfg" "p_fair E C cfg m T"
  "poller_inv E content ok view cfg m T" "\<lambda>s n. {m..<n} \<subseteq> dom (stored content (ps_storage s))" "Suc T" "FILL_CHUNK - 1"
  for E :: "('s, 'd) engines" and C cfg content ok m T view
proof unfold_locales
  fix s e
  assume a: "poller_inv E content ok view cfg m T s" "p_fair E C cfg m T e s"
  note step = storage_engine.p_ingest_step_advances
    [OF a(1) [unfolded poller_inv_def, THEN conjunct1] _ _ _ a(2)]
  show "poller_inv E content ok view cfg m T (p_ingest_step E C cfg e s)"
    using a(1) step [of m] unfolding poller_inv_def by simp
  show "fst (p_ingest_iteration E C cfg e s) \<noteq> Pass_parked"
    using storage_engine.p_ingest_returns [OF _ a(2)] a(1) unfolding poller_inv_def by blast
  show "{m..<min (Suc T) (n + (FILL_CHUNK - 1))} \<subseteq> dom (stored content (ps_storage (p_ingest_step E C cfg e s)))"
    if "{m..<n} \<subseteq> dom (stored content (ps_storage s))" for n
    using a(1) step [OF _ _ _ that] unfolding poller_inv_def by simp
qed

section \<open>A reference upstream\<close>

definition ref_upstream :: upstream where
  "ref_upstream = (\<lambda>req _. Net_reply 200 None (Some (JObj [(''result'',
     if jget_str req ''method'' = Some ''eth_blockNumber'' then JStr (''0x'' @ to_hex 9)
     else if jget_str req ''method'' = Some ''eth_getLogs'' then JArr []
     else ref_block)])))"

definition ref_env_c :: "(mem_store, mem_db) pass_env" where
  "ref_env_c = \<lparr>pe_now = 0, pe_up = ref_upstream, pe_clk = (\<lambda>_. 0), pe_snap = (\<lambda>_. mem_fresh Chain_C),
     pe_other = (\<lambda>_ st. st)\<rparr>"

lemma mem_disk_ok: "disk_ok mem_engines mem_wf"
  by (auto simp: disk_ok_def mem_engines_def mem_blockstore_def mem_fjall_def)

lemma ref_upstream_fetch:
  "fst (fetch_full_block cfg ref_upstream h None) = Got ref_block"
  "fetch_logs cfg ref_upstream a b = Got (JArr [])"
  "fetch_block_receipts cfg ref_upstream h = Got ref_block"
  by (simp_all add: fetch_full_block_def fetch_logs_def fetch_block_receipts_def fetch_rpc_def RPC_MAX_ATTEMPTS_def numeral_3_eq_3
      ref_upstream_def rpc_body_def jget_str_def is_throttled_def rpc_result_def Let_def ref_block_def)

lemma ref_upstream_tip: "upstream_block_number ref_upstream = Some 9"
  using parse_hex_quantity_to_hex(1) [of 9]
  by (simp add: upstream_block_number_def ref_upstream_def rpc_body_def jget_str_def u64_max_def)

lemma ref_upstream_serves:
  assumes "cfg_logs_source cfg = GetLogs" "T \<le> 9"
  shows "upstream_serves mem_engines ref_crypto cfg m T ref_upstream"
proof -
  obtain raw where "decode_hash ref_crypto ref_hash = Inr raw" using ref_hash_decodes by blast
  moreover have "to_vec (en_ser mem_engines) ref_block = Some (print_json ref_block)"
    using ref_block_facts by (simp add: mem_engines_def ref_serde_def ref_to_vec_def)
  ultimately have "block_served mem_engines ref_crypto cfg ref_upstream h" for h
    using assms(1) by (simp add: block_served_def ref_upstream_fetch ref_block_facts)
  then show ?thesis
    using assms(2) by (simp add: upstream_serves_def ref_upstream_tip ref_upstream_fetch)
qed

lemma ref_env_fair:
  assumes "cfg_logs_source cfg = GetLogs" "T \<le> 9"
  shows "backfill_fair mem_engines mem_content mem_wf ref_crypto cfg m T ref_env_c s"
  using ref_upstream_serves [OF assms] by (simp add: backfill_fair_def reads_past_def ref_env_c_def) (simp add: mem_fresh_def stored_def)

definition ref_p_upstream :: upstream where
  "ref_p_upstream = (\<lambda>req attempt.
     if jget_str req ''method'' = Some ''platform.getHeight''
     then Net_reply 200 None (Some (JObj [(''result'', JObj [(''height'', JNum (PosInt 8))])]))
     else ref_p_up req attempt)"

definition ref_env_p :: poll_env where
  "ref_env_p = \<lparr>pl_now = 0, pl_up = ref_p_upstream, pl_clk = (\<lambda>_. 0), pl_listening = False\<rparr>"

lemma ref_p_upstream_fetch:
  "h \<le> u64_max \<Longrightarrow> p_fetch_block ref_serde ref_crypto cfg ref_p_upstream h = Blk (ref_fb h)"
  "fetch_height cfg ref_p_upstream = Tip 8"
  by (simp_all add: p_fetch_block_def fetch_block_encoding_def p_fetch_rpc_def P_RPC_MAX_ATTEMPTS_def numeral_3_eq_3
      ref_p_upstream_def ref_p_up_def rpc_body_def jget_str_def is_throttled_def rpc_result_def verify_ref fetch_height_def)

lemma ref_p_upstream_patient:
  "p_fetch_block ref_serde ref_crypto cfg ref_p_upstream h \<noteq> Blk_parked"
  "fetch_reward_utxos cfg ref_p_upstream tx \<noteq> Parked"
  by (simp_all add: p_fetch_block_def fetch_block_encoding_def p_fetch_rpc_def P_RPC_MAX_ATTEMPTS_def numeral_3_eq_3
      ref_p_upstream_def ref_p_up_def rpc_body_def jget_str_def is_throttled_def rpc_result_def fetch_reward_utxos_def
      split: sum.splits)

lemma ref_p_upstream_rewards:
  "resolve_reward ref_serde cfg ref_p_upstream (ref_fb 7) Commit = Rw (print_json ref_utxos)"
  using ref_rewards
  by (simp add: resolve_reward_def ref_fb_def fetch_reward_utxos_def p_fetch_rpc_def P_RPC_MAX_ATTEMPTS_def
      numeral_3_eq_3 ref_p_upstream_def ref_p_up_def rpc_body_def jget_str_def is_throttled_def rpc_result_def)

lemma ref_env_p_fair: "p_fair mem_engines ref_crypto cfg 7 8 ref_env_p s"
proof -
  have f: "p_fetch_block ref_serde ref_crypto cfg ref_p_upstream h = Blk (ref_fb h)" if "h \<in> {7, 8}" for h
    using that by (intro ref_p_upstream_fetch(1)) (auto simp: u64_max_def)
  have "settled ref_serde cfg ref_p_upstream (p_fetch_block ref_serde ref_crypto cfg ref_p_upstream) h \<noteq> None"
    if "7 \<le> h" "h \<le> 8" for h
  proof -
    have k: "fb_kind (ref_fb 8) = Commit" "fb_reward_staking_tx (ref_fb 8) = None" "fb_reward_staking_tx (ref_fb 7) \<noteq> None"
      by (simp_all add: ref_fb_def)
    have "settled ref_serde cfg ref_p_upstream (p_fetch_block ref_serde ref_crypto cfg ref_p_upstream) 7 \<noteq> None"
      using f [of 7] f [of 8] k ref_p_upstream_rewards
        settled_proposal [of "p_fetch_block ref_serde ref_crypto cfg ref_p_upstream" 7 "ref_fb 7" "ref_fb 8"] by simp
    moreover have "settled ref_serde cfg ref_p_upstream (p_fetch_block ref_serde ref_crypto cfg ref_p_upstream) 8 \<noteq> None"
      using f [of 8] k by (simp add: settled_def)
    moreover have "h = 7 \<or> h = 8" using that by linarith
    ultimately show ?thesis by blast
  qed
  then show ?thesis
    using f [of 8] by (simp add: p_fair_def ref_env_p_def ref_p_upstream_fetch(2) ref_p_upstream_patient mem_engines_def)
      (simp add: ref_fb_def)
qed

section \<open>Properties\<close>

text \<open>
  C28. The backfill worker catches up. From a store anchored at a height above genesis, and
  whatever other tasks write meanwhile, a number of passes that is known in advance stores every
  height up to \<open>T\<close>: each pass in which the upstream names a tip of at least \<open>T\<close> and serves the blocks
  up to \<open>T\<close> adds a window of 2048 heights to the gapless range, or completes it.
\<close>

theorem backfill_reaches_tip:
  assumes "storage_engine E content ok view" "disk_ok E ok" "0 < m \<and> m \<le> T \<and> T < u64_max"
    and "backfill_ready E content ok cfg m T s"
    and "fair_run (backfill_fair E content ok C cfg m T) (backfill_iteration E C cfg) es s"
    and "{m..<n} \<subseteq> dom (stored content (bw_storage s))" "n \<le> Suc T" "Suc T \<le> n + length es * LOGS_WINDOW"
  shows "{m..T} \<subseteq> dom (stored content (bw_storage (backfill_loop E C cfg es s)))"
  using worker.reaches_goal [of E content ok view cfg m T s C es n] assms
  by (simp add: worker_inv_def backfill_loop_def atLeastLessThanSuc_atLeastAtMost)

theorem backfill_reaches_tip_witness:
  "\<exists>st. st = bw_storage (backfill_loop mem_engines ref_crypto (ref_cfg\<lparr>cfg_backfill_floor := Some 7\<rparr>) [ref_env_c]
       (backfill_worker_new ref_cfg ((mem_fresh Chain_C)\<lparr>st_anchor_floor := Some 7\<rparr>))) \<and>
     {7..9} \<subseteq> dom (stored mem_content st)"
proof -
  let ?s = "backfill_worker_new ref_cfg ((mem_fresh Chain_C)\<lparr>st_anchor_floor := Some 7\<rparr>)"
  have "backfill_ready mem_engines mem_content mem_wf (ref_cfg\<lparr>cfg_backfill_floor := Some 7\<rparr>) 7 9 ?s"
    by (simp add: backfill_ready_def kept_def anchored_def backfill_worker_new_def tip_new_def mem_fresh_def storage_wf_def)
  moreover have "fair_run (backfill_fair mem_engines mem_content mem_wf ref_crypto (ref_cfg\<lparr>cfg_backfill_floor := Some 7\<rparr>) 7 9)
      (backfill_iteration mem_engines ref_crypto (ref_cfg\<lparr>cfg_backfill_floor := Some 7\<rparr>)) [ref_env_c] ?s"
    using ref_env_fair by (simp add: ref_cfg_def)
  ultimately show ?thesis
    using backfill_reaches_tip [OF mem.storage_engine_axioms mem_disk_ok, of 7 9 "ref_cfg\<lparr>cfg_backfill_floor := Some 7\<rparr>" ?s ref_crypto "[ref_env_c]" 7]
    by (simp add: u64_max_def LOGS_WINDOW_def)
qed

text \<open>
  C30. The P-Chain poller catches up. From a store anchored at its floor, genesis included, a number
  of passes that is known in advance stores every height up to \<open>T\<close>: each pass in which the upstream
  names a tip of at least \<open>T\<close> and serves the blocks up to \<open>T\<close> and the rewards of the proposals among
  them adds 8191 heights to the gapless range, or completes it. One height of a run of 8192 may stay
  open, a proposal at the end whose outcome the next block decides.
\<close>

theorem p_ingest_reaches_tip:
  assumes "storage_engine E content ok view" "disk_ok E ok" "m \<le> T \<and> T < u64_max"
    and "p_ready E content ok cfg m T s" "fair_run (p_fair E C cfg m T) (p_ingest_iteration E C cfg) es s"
    and "{m..<n} \<subseteq> dom (stored content (ps_storage s))" "n \<le> Suc T" "Suc T \<le> n + length es * (FILL_CHUNK - 1)"
  shows "{m..T} \<subseteq> dom (stored content (ps_storage (p_ingest_loop E C cfg es s)))"
  using poller.reaches_goal [of E content ok view cfg m T s C es n] assms
  by (simp add: poller_inv_def p_ingest_loop_def atLeastLessThanSuc_atLeastAtMost)

theorem p_ingest_reaches_tip_witness:
  "let cfg = ref_cfg\<lparr>cfg_backfill_floor := Some 7\<rparr>; st = (mem_fresh Chain_P)\<lparr>st_anchor_floor := Some 7\<rparr>
   in {7..8} \<subseteq> dom (stored mem_content (ps_storage
        (p_ingest_loop mem_engines ref_crypto cfg [ref_env_p] (p_ingest_new cfg st))))"
proof -
  let ?cfg = "ref_cfg\<lparr>cfg_backfill_floor := Some 7\<rparr>"
  let ?s = "p_ingest_new ?cfg ((mem_fresh Chain_P)\<lparr>st_anchor_floor := Some 7\<rparr>)"
  have "p_ready mem_engines mem_content mem_wf ?cfg 7 8 ?s"
    by (simp add: p_ready_def kept_def anchored_def p_ingest_new_def mem_fresh_def storage_wf_def is_empty_def)
  then show ?thesis
    using p_ingest_reaches_tip [OF mem.storage_engine_axioms mem_disk_ok, of 7 8 ?cfg ?s ref_crypto "[ref_env_p]" 7]
      ref_env_p_fair by (simp add: u64_max_def FILL_CHUNK_def)
qed

text \<open>
  The genesis block is never backfilled: whatever the configured floor, 0 included, no pass of
  the worker writes height 0. A replay from 0 of a store that was to hold the whole chain therefore
  sends nothing: it meets the hole at once.
\<close>

lemma genesis_never_backfilled:
  assumes "storage_engine E content ok view" "storage_wf ok (bw_storage s)" "stored content (bw_storage s) 0 = None"
    and "\<forall>e\<in>set es. \<forall>h st. storage_wf ok st \<longrightarrow>
       storage_wf ok (pe_other e h st) \<and> stored content (pe_other e h st) 0 = stored content st 0"
  shows "stored content (bw_storage (backfill_loop E C cfg es s)) 0 = None \<and>
    (\<exists>x \<in> {Hole 0, Read_failed 0}.
       range_loop (Suc fuel) E k (Some t) (\<lambda>_. bw_storage (backfill_loop E C cfg es s)) send_ok n 0 = Some ([], x))"
  using storage_engine.backfill_loop_spares_zero [OF assms(1,4,2)] assms(3)
    storage_engine.missing_not_replayed [OF assms(1)] by simp

lemma genesis_never_backfilled_instance:
  "let s = backfill_loop mem_engines ref_crypto (ref_cfg\<lparr>cfg_backfill_floor := Some 0\<rparr>) [ref_env_c]
         (backfill_worker_new ref_cfg ((mem_fresh Chain_C)\<lparr>st_anchor_floor := Some 0\<rparr>))
   in stored mem_content (bw_storage s) 0 = None \<and>
      (\<exists>x \<in> {Hole 0, Read_failed 0}. range_loop 1 mem_engines OldBlocks (Some 9) (\<lambda>_. bw_storage s) (\<lambda>_. True) 0 0 = Some ([], x))"
  using genesis_never_backfilled [OF mem.storage_engine_axioms,
      of "backfill_worker_new ref_cfg ((mem_fresh Chain_C)\<lparr>st_anchor_floor := Some 0\<rparr>)" "[ref_env_c]"
         ref_crypto "ref_cfg\<lparr>cfg_backfill_floor := Some 0\<rparr>" 0 OldBlocks 9 "\<lambda>_. True" 0]
  by (simp add: backfill_worker_new_def mem_fresh_def storage_wf_def stored_def ref_env_c_def Let_def)

end
