(* ===== verification/Websocket.thy ===== *)
theory Websocket
  imports Eth_Ingest
begin

text \<open>
  The WebSocket side of \<open>upstream.rs\<close>: the outcome of a handshake (\<open>connect_ws\<close>) and the reader of
  frames (\<open>next_frame\<close>), which answers pings, skips what is no JSON and ends on a close or an error.
  The messages of a connection are a list, with a mark where the caller's idle timer runs out.

  A session sees of them the list \<open>ws_inputs\<close>. The main result is that this list, which the code
  produces one message at a time, is the JSON of the text and binary messages before the first end
  of the connection, in their order, and that every ping among them is answered.
\<close>

section \<open>Lossy text\<close>

text \<open>
  \<open>String::from_utf8_lossy\<close>: the next character of a buffer, or the longest prefix that is the start
  of none, with its length.
\<close>

definition utf8_second3 :: "char \<Rightarrow> char \<Rightarrow> bool" where
  "utf8_second3 a b \<longleftrightarrow> utf8_lead3 a b (char_of (128 :: nat))"

definition utf8_second4 :: "char \<Rightarrow> char \<Rightarrow> bool" where
  "utf8_second4 a b \<longleftrightarrow> utf8_lead4 a b (char_of (128 :: nat)) (char_of (128 :: nat))"

fun utf8_chunk :: "bytes \<Rightarrow> bool \<times> nat" where
  "utf8_chunk [] = (False, 1)"
| "utf8_chunk (a # as) =
     (if byte_in 0 127 a then (True, 1)
      else case as of
        [] \<Rightarrow> (False, 1)
      | b # bs \<Rightarrow>
          if utf8_lead2 a b then (True, 2)
          else if utf8_second3 a b then
            (case bs of [] \<Rightarrow> (False, 2) | c # _ \<Rightarrow> if byte_in 128 191 c then (True, 3) else (False, 2))
          else if utf8_second4 a b then
            (case bs of
               [] \<Rightarrow> (False, 2)
             | c # cs \<Rightarrow>
                 if \<not> byte_in 128 191 c then (False, 2)
                 else (case cs of [] \<Rightarrow> (False, 3) | d # _ \<Rightarrow> if byte_in 128 191 d then (True, 4) else (False, 3)))
          else (False, 1))"

definition REPLACEMENT :: string where
  "REPLACEMENT = map char_of [239, 191, 189 :: nat]"

lemma utf8_chunk_pos: "utf8_chunk b = (v, k) \<Longrightarrow> 0 < k"
  by (cases b rule: utf8_chunk.cases) (auto split: list.splits if_splits)

function from_utf8_lossy :: "bytes \<Rightarrow> string" where
  "from_utf8_lossy [] = []"
| "from_utf8_lossy (a # as) =
     (case utf8_chunk (a # as) of
        (True, k) \<Rightarrow> take k (a # as) @ from_utf8_lossy (drop k (a # as))
      | (False, k) \<Rightarrow> REPLACEMENT @ from_utf8_lossy (drop k (a # as)))"
  by pat_completeness auto
termination
  by (relation "measure length") (auto simp del: utf8_chunk.simps dest: utf8_chunk_pos [OF sym])

section \<open>Messages\<close>

datatype ws_message = Ws_text string | Ws_binary bytes | Ws_ping bytes | Ws_close | Ws_other

datatype ws_item = Ws_msg ws_message | Ws_error | Ws_silence

fun next_frame :: "serde \<Rightarrow> ws_item list \<Rightarrow> ws_input \<times> bytes list \<times> ws_item list" where
  "next_frame S [] = (In_end, [], [])"
| "next_frame S (Ws_error # is) = (In_end, [], is)"
| "next_frame S (Ws_silence # is) = (In_idle, [], is)"
| "next_frame S (Ws_msg m # is) =
     (case m of
        Ws_ping p \<Rightarrow> (case next_frame S is of (i, pongs, rest) \<Rightarrow> (i, p # pongs, rest))
      | Ws_close \<Rightarrow> (In_end, [], is)
      | Ws_other \<Rightarrow> next_frame S is
      | Ws_text t \<Rightarrow> (case from_slice S t of Some v \<Rightarrow> (In_frame v, [], is) | None \<Rightarrow> next_frame S is)
      | Ws_binary b \<Rightarrow>
          (case from_slice S (from_utf8_lossy b) of Some v \<Rightarrow> (In_frame v, [], is) | None \<Rightarrow> next_frame S is))"

lemma next_frame_shorter: "next_frame S is = (In_frame v, pongs, rest) \<Longrightarrow> length rest < length is"
proof (induction "is" arbitrary: pongs)
  case (Cons i "is")
  have "length rest < length is" if "next_frame S is = (In_frame v, ps, rest)" for ps using Cons.IH [OF that] .
  with Cons.prems show ?case
    by (cases i) (auto split: ws_message.splits option.splits prod.splits intro: less_SucI)
qed simp

text \<open>What the loop of a session reads, and the pongs it sends meanwhile.\<close>

function ws_inputs :: "serde \<Rightarrow> ws_item list \<Rightarrow> ws_input list \<times> bytes list" where
  "ws_inputs S is =
     (case next_frame S is of
        (In_frame v, pongs, rest) \<Rightarrow> (case ws_inputs S rest of (vs, qs) \<Rightarrow> (In_frame v # vs, pongs @ qs))
      | (i, pongs, rest) \<Rightarrow> ([i], pongs))"
  by pat_completeness auto
termination
  by (relation "measure (length \<circ> snd)") (auto dest: next_frame_shorter [OF sym])

declare ws_inputs.simps [simp del]

section \<open>Connecting\<close>

text \<open>
  What becomes of a handshake: a socket with the messages it will deliver, an HTTP status with its
  \<open>Retry-After\<close> header, or no answer (a URL that is none included).
\<close>

datatype handshake = Hs_open "ws_item list" | Hs_http nat "bytes option" | Hs_failed

datatype link = Link "ws_item list" | Link_failed "duration option" | Link_parked

definition connect_ws :: "ingest_cfg \<Rightarrow> handshake \<Rightarrow> link" where
  "connect_ws cfg hs =
     (case hs of
        Hs_open is \<Rightarrow> Link is
      | Hs_http status hdr \<Rightarrow>
          if is_throttled status then
            (case handle_throttle cfg (default_retry_after hdr) of
               Slept d \<Rightarrow> Link_failed (Some d)
             | Fatal \<Rightarrow> Link_parked)
          else Link_failed None
      | Hs_failed \<Rightarrow> Link_failed None)"

text \<open>The handshake and the subscription request, whose sending may fail.\<close>

definition open_subscription :: "ingest_cfg \<Rightarrow> handshake \<Rightarrow> bool \<Rightarrow> link" where
  "open_subscription cfg hs sent =
     (case connect_ws cfg hs of Link is \<Rightarrow> if sent then Link is else Link_failed None | l \<Rightarrow> l)"

section \<open>Lemmas\<close>

lemma byte_in_char_of [simp]: "n < 256 \<Longrightarrow> byte_in lo hi (char_of n) \<longleftrightarrow> lo \<le> n \<and> n \<le> hi"
  by (simp add: byte_in_def)

lemma utf8_lead3_second3: "utf8_lead3 a b c \<longleftrightarrow> utf8_second3 a b \<and> byte_in 128 191 c"
  by (auto simp: utf8_lead3_def utf8_second3_def)

lemma utf8_lead4_second4: "utf8_lead4 a b c d \<longleftrightarrow> utf8_second4 a b \<and> byte_in 128 191 c \<and> byte_in 128 191 d"
  by (auto simp: utf8_lead4_def utf8_second4_def)

lemma utf8_second_disjoint: "utf8_second3 a b \<Longrightarrow> \<not> utf8_second4 a b"
  by (auto simp: utf8_second3_def utf8_second4_def utf8_lead3_def utf8_lead4_def byte_in_def)

text \<open>Text that is valid passes unchanged.\<close>

lemma utf8_run_chunk:
  "utf8_run (Suc n) (a # as) \<Longrightarrow> \<exists>k. utf8_chunk (a # as) = (True, k) \<and> utf8_run n (drop k (a # as))"
  by (auto simp: utf8_lead3_second3 utf8_lead4_second4 numeral_2_eq_2 numeral_3_eq_3 numeral_eq_Suc dest: utf8_second_disjoint
      split: if_splits list.splits)

lemma from_utf8_lossy_run: "utf8_run n b \<Longrightarrow> from_utf8_lossy b = b"
proof (induction n arbitrary: b)
  case (Suc n)
  show ?case
  proof (cases b)
    case (Cons a as)
    with utf8_run_chunk Suc.prems obtain k where "utf8_chunk b = (True, k)" "utf8_run n (drop k b)" by blast
    then show ?thesis
      using Suc.IH [of "drop k b"] Cons append_take_drop_id [of k b] by (simp del: utf8_chunk.simps append_take_drop_id)
  qed simp
qed (metis from_utf8_lossy.simps(1) list.exhaust utf8_run.simps(2))

lemma from_utf8_lossy_valid: "utf8_valid b \<Longrightarrow> from_utf8_lossy b = b"
  by (simp add: utf8_valid_def from_utf8_lossy_run)

text \<open>A reference for the reader: which message ends it, and what each message before that gives.\<close>

definition ws_stops :: "ws_item \<Rightarrow> bool" where
  "ws_stops i \<longleftrightarrow> i \<in> {Ws_error, Ws_silence, Ws_msg Ws_close}"

fun frame_of :: "serde \<Rightarrow> ws_item \<Rightarrow> json option" where
  "frame_of S (Ws_msg (Ws_text t)) = from_slice S t"
| "frame_of S (Ws_msg (Ws_binary b)) = from_slice S (from_utf8_lossy b)"
| "frame_of S _ = None"

fun ping_of :: "ws_item \<Rightarrow> bytes option" where
  "ping_of (Ws_msg (Ws_ping p)) = Some p"
| "ping_of _ = None"

definition ws_last :: "ws_item list \<Rightarrow> ws_input" where
  "ws_last is = (case dropWhile (\<lambda>i. \<not> ws_stops i) is of Ws_silence # _ \<Rightarrow> In_idle | _ \<Rightarrow> In_end)"

lemma ws_inputs_Nil [simp]: "ws_inputs S [] = ([In_end], [])"
  by (subst ws_inputs.simps) simp

lemma ws_inputs_Cons:
  "ws_inputs S (i # is) =
     (if ws_stops i then ([if i = Ws_silence then In_idle else In_end], [])
      else ((case frame_of S i of None \<Rightarrow> [] | Some v \<Rightarrow> [In_frame v]) @ fst (ws_inputs S is),
        (case ping_of i of None \<Rightarrow> [] | Some p \<Rightarrow> [p]) @ snd (ws_inputs S is)))" (is "_ = ?rhs")
proof -
  obtain j ps rest where n: "next_frame S is = (j, ps, rest)" by (cases "next_frame S is")
  show ?thesis
    unfolding ws_inputs.simps [of S "i # is"]
  proof (cases i)
    case (Ws_msg m)
    then show "(case next_frame S (i # is) of
        (In_frame v, pongs, rest) \<Rightarrow> (case ws_inputs S rest of (vs, qs) \<Rightarrow> (In_frame v # vs, pongs @ qs))
      | (k, pongs, rest) \<Rightarrow> ([k], pongs)) = ?rhs"
      by (cases m; cases j) (simp_all add: n ws_inputs.simps [of S "is"] ws_stops_def split: option.splits prod.splits)
  qed (simp_all add: ws_stops_def)
qed

lemma ws_inputs_eq:
  "ws_inputs S is =
     (map In_frame (List.map_filter (frame_of S) (takeWhile (\<lambda>i. \<not> ws_stops i) is)) @ [ws_last is],
      List.map_filter ping_of (takeWhile (\<lambda>i. \<not> ws_stops i) is))"
proof (induction "is")
  case (Cons i "is")
  show ?case
    unfolding ws_inputs_Cons Cons.IH
    by (cases i) (auto simp: ws_last_def ws_stops_def List.map_filter_simps split: option.splits)
qed (simp add: ws_last_def List.map_filter_simps)

end
