(* ===== verification/Sessions.thy ===== *)
theory Sessions
  imports Mirror Websocket
begin

text \<open>
  The session loops: the live task of the C-chain (\<open>ingest\<close> of \<open>eth/ingest.rs\<close>) and the mirror of the
  P-chain (\<open>mirror\<close> of \<open>platform/mirror.rs\<close>), each a loop of connections with a growing delay between
  them. A connection is a handshake and the messages it delivers; the loops run over the list of the
  environments their sessions meet.

  What holds of one session holds of the task: the two loops are instances of \<open>reconnect_loop\<close>, whose
  lemmas carry an invariant of a session through any number of reconnects and bound the delays.
\<close>

section \<open>Requests\<close>

definition live_request :: "ingest_cfg \<Rightarrow> json" where
  "live_request cfg =
     rpc_body ''eth_subscribe'' (JArr [JStr (if cfg_subscribe_blocks cfg then ''newBlocks'' else ''newHeads'')])"

definition old_blocks_request :: "u64 \<Rightarrow> u64 \<Rightarrow> json" where
  "old_blocks_request from target =
     rpc_body ''eth_subscribe'' (JArr [JStr ''oldBlocks'', hex_quantity from, hex_quantity target])"

definition old_records_request :: "u64 \<Rightarrow> u64 \<Rightarrow> json" where
  "old_records_request from target =
     rpc_body ''platform.subscribe''
       (JObj [(''kind'', JStr ''oldRecords''), (''from'', JNum (PosInt from)), (''to'', JNum (PosInt target))])"

definition new_records_request :: json where
  "new_records_request = rpc_body ''platform.subscribe'' (JObj [(''kind'', JStr ''newRecords'')])"

text \<open>
  The other end: the derived decoding of \<open>SubscribeParams\<close> with its untagged heights, and the
  positional parameters of \<open>eth_subscribe\<close>.
\<close>

definition de_uint64 :: "json \<Rightarrow> uint64_t option" where
  "de_uint64 v =
     (case as_u64 v of Some n \<Rightarrow> Some (U_num n) | None \<Rightarrow> map_option U_str (as_str v))"

definition de_opt :: "(json \<Rightarrow> 'a option) \<Rightarrow> json option \<Rightarrow> 'a option option" where
  "de_opt de v =
     (case v of
        None \<Rightarrow> Some None
      | Some JNull \<Rightarrow> Some None
      | Some w \<Rightarrow> map_option Some (de w))"

definition de_subscribe_params :: "json \<Rightarrow> subscribe_params option" where
  "de_subscribe_params v =
     (let fields = (case v of
            JObj _ \<Rightarrow> Some (jget v ''kind'', jget v ''from'', jget v ''to'')
          | JArr [k] \<Rightarrow> Some (Some k, None, None)
          | JArr [k, f] \<Rightarrow> Some (Some k, Some f, None)
          | JArr [k, f, t] \<Rightarrow> Some (Some k, Some f, Some t)
          | _ \<Rightarrow> None)
      in case fields of
           None \<Rightarrow> None
         | Some (k, f, t) \<Rightarrow>
             Option.bind (Option.bind k as_str) (\<lambda>kind.
             Option.bind (de_opt de_uint64 f) (\<lambda>from.
             Option.bind (de_opt de_uint64 t) (\<lambda>to.
               Some \<lparr>sp_kind = kind, sp_from = from, sp_to = to\<rparr>))))"

definition de_eth_subscribe :: "json \<Rightarrow> (string \<times> string option \<times> string option) option" where
  "de_eth_subscribe v =
     (case v of
        JArr (k # ps) \<Rightarrow>
          Option.bind (as_str k) (\<lambda>kind.
          Option.bind (de_opt as_str (get_nth ps 0)) (\<lambda>from.
          Option.bind (de_opt as_str (get_nth ps 1)) (\<lambda>to. Some (kind, from, to))))
      | _ \<Rightarrow> None)"

section \<open>Reconnecting\<close>

datatype loop_end = Loop_clean | Loop_failed | Loop_parked

text \<open>
  Sessions until the list of environments ends or one parks: the delays slept, in milliseconds, the
  attempt counter and the state.
\<close>

fun reconnect_loop ::
  "('e \<Rightarrow> 'a \<Rightarrow> loop_end \<times> 'a) \<Rightarrow> (u32 \<Rightarrow> u64) \<Rightarrow> 'e list \<Rightarrow> u32 \<Rightarrow> 'a \<Rightarrow> u64 list \<times> u32 \<times> 'a" where
  "reconnect_loop session backoff [] attempt s = ([], attempt, s)"
| "reconnect_loop session backoff (e # es) attempt s =
     (case session e s of
        (Loop_parked, s') \<Rightarrow> ([], attempt, s')
      | (r, s') \<Rightarrow>
          let attempt' = mirror_attempt (r = Loop_clean) attempt;
              (ds, a, s'') = reconnect_loop session backoff es attempt' s'
          in (backoff attempt' # ds, a, s''))"

section \<open>The live task of the C-chain\<close>

record live_env =
  le_handshake :: handshake
  le_sent :: bool
  le_ups :: "nat \<Rightarrow> upstream"
  le_listening :: bool
  le_clk :: "nat \<Rightarrow> instant"

fun session_result :: "session_end \<Rightarrow> loop_end" where
  "session_result Session_closed = Loop_clean"
| "session_result Session_idle = Loop_failed"
| "session_result (Session_storage e) = Loop_failed"
| "session_result Session_parked = Loop_parked"
| "session_result Session_open = Loop_parked"

definition live_session ::
  "('s, 'd) engines \<Rightarrow> crypto \<Rightarrow> ingest_cfg \<Rightarrow> live_env \<Rightarrow> ('s, 'd) live_state \<Rightarrow> loop_end \<times> ('s, 'd) live_state" where
  "live_session E C cfg e lv =
     (case open_subscription cfg (le_handshake e) (le_sent e) of
        Link_parked \<Rightarrow> (Loop_parked, lv)
      | Link_failed _ \<Rightarrow> (Loop_failed, lv)
      | Link is \<Rightarrow>
          (case run_session E C cfg (le_ups e) (le_listening e) (le_clk e) 0 (fst (ws_inputs (en_ser E) is)) lv of
             (r, lv') \<Rightarrow> (session_result r, lv')))"

record boot_env =
  be_health :: http_reply
  be_handshake :: handshake
  be_sent :: bool

definition bootstrap_via_oldblocks ::
  "('s, 'd) engines \<Rightarrow> crypto \<Rightarrow> ingest_cfg \<Rightarrow> boot_env \<Rightarrow> ('s, 'd) storage \<Rightarrow> boot_end \<times> ('s, 'd) storage" where
  "bootstrap_via_oldblocks E C cfg e st =
     (let from = bootstrap_from (cfg_backfill_floor cfg) (max_contiguous_height E st)
      in case fetch_upstream_contiguous (be_health e) of
           None \<Rightarrow> (Boot_health, st)
         | Some target \<Rightarrow>
             if from > target then (Boot_current, st)
             else (case open_subscription cfg (be_handshake e) (be_sent e) of
                 Link_parked \<Rightarrow> (Boot_parked, st)
               | Link_failed _ \<Rightarrow> (Boot_connect, st)
               | Link is \<Rightarrow> boot_stream E C target (fst (ws_inputs (en_ser E) is)) st))"

fun sink_with :: "('s, 'd) sink \<Rightarrow> ('s, 'd) storage \<Rightarrow> ('s, 'd) sink" where
  "sink_with (Direct _) st = Direct st"
| "sink_with (Joined buf) st = Joined (buf\<lparr>jb_storage := st\<rparr>)"

text \<open>
  The whole task: the bootstrap of a mirror, whose end is signalled whatever it is, then sessions.
  The result is whether the backfill worker has been released, and the loop's.
\<close>

definition ingest ::
  "('s, 'd) engines \<Rightarrow> crypto \<Rightarrow> ingest_cfg \<Rightarrow> boot_env \<Rightarrow> live_env list \<Rightarrow> ('s, 'd) live_state \<Rightarrow>
     bool \<times> u64 list \<times> u32 \<times> ('s, 'd) live_state" where
  "ingest E C cfg b es lv0 =
     (let lv = lv0\<lparr>lv_aimd := aimd_new (cfg_prefetch_delay_cap cfg)\<rparr>;
          sessions = reconnect_loop (live_session E C cfg) reconnect_backoff_ms es 0
      in if cfg_subscribe_blocks cfg then
           (case bootstrap_via_oldblocks E C cfg b (sink_storage (lv_sink lv)) of
              (r, st) \<Rightarrow>
                let lv' = lv\<lparr>lv_sink := sink_with (lv_sink lv) st\<rparr>
                in if r = Boot_parked then (False, [], 0, lv') else (True, sessions lv'))
         else (False, sessions lv))"

section \<open>The mirror of the P-chain\<close>

record mirror_env =
  me_health :: http_reply
  me_boot :: handshake
  me_boot_sent :: bool
  me_live :: handshake
  me_live_sent :: bool
  me_clk :: "nat \<Rightarrow> instant"

fun link_inputs :: "serde \<Rightarrow> link \<Rightarrow> ws_input list" where
  "link_inputs S (Link is) = fst (ws_inputs S is)"
| "link_inputs S _ = []"

fun link_up :: "link \<Rightarrow> bool" where
  "link_up (Link _) = True"
| "link_up _ = False"

definition mirror_session ::
  "('s, 'd) engines \<Rightarrow> crypto \<Rightarrow> ingest_cfg \<Rightarrow> mirror_env \<Rightarrow> ('s, 'd) mirror_state \<Rightarrow> loop_end \<times> ('s, 'd) mirror_state" where
  "mirror_session E C cfg e ms =
     (let boot = open_subscription cfg (me_boot e) (me_boot_sent e);
          live = open_subscription cfg (me_live e) (me_live_sent e)
      in case mirror_bootstrap E C cfg (me_health e) (link_up boot) (me_clk e) (link_inputs (en_ser E) boot) ms of
           (r, ms') \<Rightarrow>
             if r = M_connect \<and> boot = Link_parked then (Loop_parked, ms')
             else if r \<noteq> M_done \<and> r \<noteq> M_current then (Loop_failed, ms')
             else if live = Link_parked then (Loop_parked, ms')
             else (case follow_tip E C (link_up live) (link_inputs (en_ser E) live) ms' of
                 (r', ms'') \<Rightarrow> (if r' = M_closed then Loop_clean else Loop_failed, ms'')))"

definition mirror ::
  "('s, 'd) engines \<Rightarrow> crypto \<Rightarrow> ingest_cfg \<Rightarrow> mirror_env list \<Rightarrow> ('s, 'd) mirror_state \<Rightarrow>
     u64 list \<times> u32 \<times> ('s, 'd) mirror_state" where
  "mirror E C cfg es ms = reconnect_loop (mirror_session E C cfg) mirror_backoff_ms es 0 ms"

section \<open>Lemmas on the loop\<close>

lemma mirror_backoff_eq: "mirror_backoff_ms = reconnect_backoff_ms"
  by (simp add: fun_eq_iff mirror_backoff_ms_def reconnect_backoff_ms_def MAX_BACKOFF_MS_def)

lemma reconnect_keeps:
  assumes "\<And>s e. P s \<Longrightarrow> P (snd (session e s))" "P s"
  shows "P (snd (snd (reconnect_loop session backoff es attempt s)))"
  using assms(2)
proof (induction es arbitrary: attempt s)
  case (Cons e es)
  obtain r s' where p: "session e s = (r, s')" by (cases "session e s")
  then have "P s'" using assms(1) [of s e] Cons.prems by simp
  with Cons.IH p show ?case by (cases r) (simp_all add: Let_def case_prod_beta)
qed simp

lemma reconnect_delays:
  "\<forall>d\<in>set (fst (reconnect_loop session reconnect_backoff_ms es attempt s)). 500 \<le> d \<and> d \<le> 30000"
proof (induction es arbitrary: attempt s)
  case (Cons e es)
  obtain r s' where p: "session e s = (r, s')" by (cases "session e s")
  with Cons.IH reconnect_backoff_bounds show ?case by (cases r) (simp_all add: Let_def case_prod_beta)
qed simp

text \<open>A session that has ended cleanly is followed by the shortest delay.\<close>

lemma clean_end_resets: "session e s = (Loop_clean, s') \<Longrightarrow>
    \<exists>ds a t. reconnect_loop session reconnect_backoff_ms (e # es) attempt s = (500 # ds, a, t)"
  by (simp add: Let_def case_prod_beta mirror_attempt_def reconnect_backoff_eq)

text \<open>Messages that end the reading end the session: it is never left open.\<close>

lemma ws_inputs_ends:
  "\<exists>vs i. fst (ws_inputs S is) = map In_frame vs @ [i] \<and> i \<in> {In_idle, In_end}"
  unfolding ws_inputs_eq by (auto simp: ws_last_def split: list.splits ws_item.splits)

lemma run_session_ends:
  "i \<in> {In_idle, In_end} \<Longrightarrow> fst (run_session E C cfg ups l clk n (map In_frame vs @ [i]) lv) \<noteq> Session_open"
proof (induction vs arbitrary: n lv)
  case (Cons v vs)
  have "e \<noteq> Session_open" if "session_event E C cfg up l now ev lv = (Some e, lv')" for up now ev e lv'
    using that by (auto simp: session_event_def Let_def split: ws_event.splits rpc_fetch.splits prod.splits persist_end.splits)
  with Cons show ?case by (auto split: option.splits prod.splits)
qed auto

section \<open>Lemmas on requests\<close>

lemma old_records_understood:
  assumes "from \<le> u64_max" "target \<le> u64_max"
  shows "\<exists>p. Option.bind (jget (old_records_request from target) ''params'') de_subscribe_params = Some p \<and>
    platform_subscribe E st p =
      Inr (serve_sub E Chain_P st \<lparr>sr_kind = OldRecords, sr_from = Some from, sr_to = Some target\<rparr> PLATFORM_SUB_KINDS)"
  using assms
  by (simp add: old_records_request_def rpc_body_def de_subscribe_params_def de_opt_def de_uint64_def
      platform_subscribe_def from_wire_def)

lemma old_blocks_understood:
  assumes "from \<le> u64_max" "target \<le> u64_max"
  shows "\<exists>k f t. Option.bind (jget (old_blocks_request from target) ''params'') de_eth_subscribe = Some (k, f, t) \<and>
    eth_subscribe E api k f t =
      Inr (serve_sub E Chain_C (ea_storage api) \<lparr>sr_kind = OldBlocks, sr_from = Some from, sr_to = Some target\<rparr> ETH_SUB_KINDS)"
proof -
  have "parse_quantity (''0x'' @ to_hex n) = Inr n" if "n \<le> u64_max" for n
    using from_str_radix_to_hex [OF that] by (simp add: parse_quantity_def strip_0x_def)
  then show ?thesis
    using assms
    by (simp add: old_blocks_request_def rpc_body_def de_eth_subscribe_def de_opt_def hex_quantity_def get_nth_def
        eth_subscribe_def from_wire_def parse_opt_quantity_def)
qed

section \<open>Lemmas on a replay\<close>

text \<open>
  A socket that delivers messages: each as the text \<open>wrap\<close> makes of it, in their order, and between
  them only what has no payload (pings, the acknowledgement of the request).
\<close>

fun delivers :: "serde \<Rightarrow> (bytes \<Rightarrow> string) \<Rightarrow> ws_item list \<Rightarrow> bytes list \<Rightarrow> bool" where
  "delivers S wrap is [] = True"
| "delivers S wrap [] (t # ts) = False"
| "delivers S wrap (i # is) (t # ts) =
     (i = Ws_msg (Ws_text (wrap t)) \<and> delivers S wrap is ts \<or>
      \<not> ws_stops i \<and> (case frame_of S i of None \<Rightarrow> True | Some f \<Rightarrow> notification_payload f = None) \<and>
        delivers S wrap is (t # ts))"

lemma delivers_carries:
  assumes "delivers S wrap is (map (\<lambda>h. the (m h)) hs)"
    and "\<forall>h\<in>set hs. \<exists>f v. from_slice S (the (m h)) = Some v \<and> from_slice S (wrap (the (m h))) = Some f \<and>
      notification_payload f = Some v"
  shows "carries S m (fst (ws_inputs S is)) hs"
  using assms
proof (induction "is" arbitrary: hs)
  case Nil
  then show ?case by (cases hs) simp_all
next
  case (Cons i "is")
  show ?case
  proof (cases hs)
    case hs: (Cons h hs')
    from Cons.prems(1) hs consider "i = Ws_msg (Ws_text (wrap (the (m h))))" "delivers S wrap is (map (\<lambda>h. the (m h)) hs')"
      | "\<not> ws_stops i" "case frame_of S i of None \<Rightarrow> True | Some f \<Rightarrow> notification_payload f = None"
        "delivers S wrap is (map (\<lambda>h. the (m h)) hs)" by auto
    then show ?thesis
    proof cases
      case 1
      then show ?thesis using Cons.IH [of hs'] Cons.prems(2) hs by (auto simp: ws_inputs_Cons ws_stops_def)
    next
      case 2
      then show ?thesis using Cons.IH [of hs] Cons.prems(2) hs by (auto simp: ws_inputs_Cons split: option.splits)
    qed
  qed simp
qed

section \<open>Lemmas on the live task\<close>

text \<open>
  What every step of the task keeps, with a fact \<open>G\<close> about the store that each write keeps.
\<close>

definition live_inv :: "(('s, 'd) storage \<Rightarrow> bool) \<Rightarrow> duration \<Rightarrow> ('s, 'd) live_state \<Rightarrow> bool" where
  "live_inv G cap lv \<longleftrightarrow>
     G (sink_storage (lv_sink lv)) \<and> (\<forall>buf. lv_sink lv = Joined buf \<longrightarrow> join_inv buf) \<and>
     ad_delay (lv_aimd lv) \<le> ad_max (lv_aimd lv) \<and> ad_max (lv_aimd lv) = cap"

text \<open>
  A session as another task sees it: what it makes of the store the two share, whatever the live task
  has buffered and learned before.
\<close>

definition live_writes ::
  "('s, 'd) engines \<Rightarrow> crypto \<Rightarrow> ingest_cfg \<Rightarrow> live_env \<Rightarrow> ('s, 'd) live_state \<Rightarrow> ('s, 'd) storage \<Rightarrow> ('s, 'd) storage" where
  "live_writes E C cfg e lv st =
     sink_storage (lv_sink (snd (live_session E C cfg e (lv\<lparr>lv_sink := sink_with (lv_sink lv) st\<rparr>))))"

definition live_sound :: "('s, 'd) live_state \<Rightarrow> bool" where
  "live_sound lv \<longleftrightarrow> (\<forall>buf. lv_sink lv = Joined buf \<longrightarrow> join_inv buf) \<and> ad_delay (lv_aimd lv) \<le> ad_max (lv_aimd lv)"

context put_guard
begin

lemma persist_backfilled_keeps:
  "G st \<Longrightarrow> persist_backfilled E C h block l st = (r, st') \<Longrightarrow> G st'"
  using put_keeps by (fastforce simp: persist_backfilled_def split: option.splits sum.splits prod.splits)

lemma persist_live_inv:
  assumes "live_inv G cap lv"
  shows "live_inv G cap (snd (persist_live E C cfg up listening now h expected block lv))"
proof (cases "lv_sink lv")
  case (Direct st)
  have st: "G st" using assms Direct by (simp add: live_inv_def)
  have "G (fst (snd (persist_block E C listening h expected block st pub)))" for pub
    using st put_keeps [OF st]
    by (fastforce simp: persist_block_def split: option.splits prod.splits sum.splits)
  then show ?thesis using assms Direct by (auto simp: persist_live_def live_inv_def case_prod_beta)
next
  case (Joined buf)
  let ?ok = "\<lambda>b. G (jb_storage b) \<and> join_inv b"
  have b: "?ok buf" using assms Joined by (simp add: live_inv_def)
  have feed: "?ok (snd (join_feed E a jb))" if "?ok jb" for a jb
    using that join_feed_keeps [of jb a] join_feed_inv by blast
  have blk: "?ok (snd (on_block E h hash txs bb t jb))" if "?ok jb" for hash txs bb t jb
    using feed [OF that, of "Arr_Block h hash txs bb t"] by simp
  have log: "?ok (snd (on_logs E h l t jb))" if "?ok jb" for l t jb
    using feed [OF that, of "Arr_Logs h l t"] by simp
  have "?ok (fst (snd (persist_block_logs E C cfg up listening now now h expected block buf pub)))" for pub
  proof (cases "prepare_block (en_ser E) C expected block")
    case (Some p)
    obtain hash txs bb where p: "p = (hash, txs, bb)" by (cases p)
    obtain r buf1 where ob: "on_block E h hash txs bb now buf = (r, buf1)" by (cases "on_block E h hash txs bb now buf")
    have b1: "?ok buf1" using blk [OF b, of hash txs bb now] ob by simp
    show ?thesis
      using log [OF b1] b1 Some p ob
      by (auto simp: persist_block_logs_def buffer_block_def join_live_logs_def Let_def case_prod_beta
          split: sum.splits rpc_fetch.splits prod.splits)
  qed (use b in \<open>simp add: persist_block_logs_def buffer_block_def\<close>)
  then show ?thesis using assms Joined by (auto simp: persist_live_def live_inv_def case_prod_beta)
qed

lemma session_event_inv:
  assumes "live_inv G cap lv"
  shows "live_inv G cap (snd (session_event E C cfg up listening now ev lv))"
proof -
  have cont: "live_inv G cap (snd (case persist_live E C cfg up listening now h hash block l of
        (Persist_ok, lv') \<Rightarrow> (None, lv')
      | (Persist_err e, lv') \<Rightarrow> (Some (Session_storage e), lv')
      | (Persist_parked, lv') \<Rightarrow> (Some Session_parked, lv')))"
    if "live_inv G cap l" for h hash block l
    using persist_live_inv [OF that] by (auto split: prod.splits persist_end.splits) (metis snd_conv)+
  show ?thesis
  proof (cases ev)
    case (Ev_new_head h hash)
    obtain r a ds where f: "fetch_full_block cfg up h (Some (lv_aimd lv)) = (r, a, ds)"
      by (cases "fetch_full_block cfg up h (Some (lv_aimd lv))") auto
    have "a = Some (lv_aimd lv) \<or> (\<exists>b. a = Some (aimd_record b (lv_aimd lv)))"
      using fetch_rpc_budget [OF f [unfolded fetch_full_block_def]] by blast
    then have "live_inv G cap (lv\<lparr>lv_aimd := (case a of None \<Rightarrow> lv_aimd lv | Some x \<Rightarrow> x)\<rparr>)"
      using assms aimd_record_bounded [of "lv_aimd lv"] by (auto simp: live_inv_def)
    with cont [OF this] Ev_new_head f show ?thesis by (cases r) (simp_all add: session_event_def Let_def)
  qed (use assms cont [OF assms] in \<open>simp_all add: session_event_def Let_def\<close>)
qed

lemma run_session_inv:
  "live_inv G cap lv \<Longrightarrow>
     live_inv G cap (snd (run_session E C cfg ups listening clk n is lv))"
proof (induction "is" arbitrary: n lv)
  case (Cons i "is")
  show ?case
  proof (cases i)
    case (In_frame v)
    show ?thesis
    proof (cases "classify_frame v")
      case None
      with Cons In_frame show ?thesis by simp
    next
      case (Some ev)
      obtain r lv' where s: "session_event E C cfg (ups n) listening (clk n) ev lv = (r, lv')"
        by (cases "session_event E C cfg (ups n) listening (clk n) ev lv")
      then have "live_inv G cap lv'"
        using session_event_inv [OF Cons.prems, of C cfg "ups n" listening "clk n" ev] by simp
      with Cons.IH s In_frame Some show ?thesis by (cases r) simp_all
    qed
  qed (use Cons.prems in simp_all)
qed simp

lemma live_session_inv:
  "live_inv G cap lv \<Longrightarrow> live_inv G cap (snd (live_session E C cfg e lv))"
  using run_session_inv [of cap lv C cfg "le_ups e" "le_listening e" "le_clk e" 0]
  by (auto simp: live_session_def case_prod_beta split: link.splits)

lemma live_writes_keeps:
  assumes "live_sound lv" "G st"
  shows "G (live_writes E C cfg e lv st)"
proof -
  have "live_inv G (ad_max (lv_aimd lv)) (lv\<lparr>lv_sink := sink_with (lv_sink lv) st\<rparr>)"
    using assms by (cases "lv_sink lv") (auto simp: live_inv_def live_sound_def join_inv_def)
  from live_session_inv [OF this, of C cfg e] show ?thesis by (simp add: live_inv_def live_writes_def)
qed

lemma boot_stream_keeps:
  "G st \<Longrightarrow> boot_stream E C target is st = (r, st') \<Longrightarrow> G st'"
proof (induction "is" arbitrary: st)
  case (Cons i "is")
  show ?case
  proof (cases "\<exists>v h hash block. i = In_frame v \<and> classify_frame v = Some (Ev_new_block h hash block)")
    case True
    then obtain v h hash block where v: "i = In_frame v" "classify_frame v = Some (Ev_new_block h hash block)" by blast
    obtain q st1 where p: "persist_backfilled E C h block EMPTY_ARRAY st = (q, st1)"
      by (cases "persist_backfilled E C h block EMPTY_ARRAY st")
    have "st' = st1 \<or> boot_stream E C target is st1 = (r, st')"
      using Cons.prems(2) v p by (cases q) (auto split: if_splits)
    with Cons.IH [of st1] persist_backfilled_keeps [OF Cons.prems(1) p] show ?thesis by blast
  next
    case False
    then have "st' = st \<or> boot_stream E C target is st = (r, st')"
      using Cons.prems(2) by (cases i) (auto split: option.splits ws_event.splits)
    with Cons.IH [of st] Cons.prems(1) show ?thesis by blast
  qed
qed simp

lemma bootstrap_keeps:
  assumes "G st" "bootstrap_via_oldblocks E C cfg b st = (r, st')"
  shows "G st'"
proof -
  have "st' = st \<or> (\<exists>target is. boot_stream E C target is st = (r, st'))"
    using assms(2) by (auto simp: bootstrap_via_oldblocks_def Let_def split: option.splits if_splits link.splits)
  then show ?thesis using boot_stream_keeps [OF assms(1)] assms(1) by blast
qed

lemma ingest_inv:
  assumes "G (sink_storage (lv_sink lv))" "\<forall>buf. lv_sink lv = Joined buf \<longrightarrow> join_inv buf"
    and "ingest E C cfg b es lv = (released, ds, attempt, lv')"
  shows "live_inv G (cfg_prefetch_delay_cap cfg) lv' \<and> (\<forall>d\<in>set ds. 500 \<le> d \<and> d \<le> 30000)"
proof -
  let ?cap = "cfg_prefetch_delay_cap cfg"
  let ?lv = "lv\<lparr>lv_aimd := aimd_new ?cap\<rparr>"
  let ?loop = "reconnect_loop (live_session E C cfg) reconnect_backoff_ms es 0"
  have start: "live_inv G ?cap (?lv\<lparr>lv_sink := sink_with (lv_sink lv) st\<rparr>)" if "G st" for st
    using assms(2) that by (cases "lv_sink lv") (auto simp: live_inv_def aimd_new_def join_inv_def)
  have same: "sink_with (lv_sink lv) (sink_storage (lv_sink lv)) = lv_sink lv" by (cases "lv_sink lv") simp_all
  have loop: "live_inv G ?cap (snd (snd (?loop l))) \<and> (\<forall>d\<in>set (fst (?loop l)). 500 \<le> d \<and> d \<le> 30000)"
    if "live_inv G ?cap l" for l
    by (rule conjI [OF reconnect_keeps [where P = "live_inv G ?cap"] reconnect_delays])
      (use live_session_inv that in auto)
  obtain r st where bo: "bootstrap_via_oldblocks E C cfg b (sink_storage (lv_sink lv)) = (r, st)"
    by (cases "bootstrap_via_oldblocks E C cfg b (sink_storage (lv_sink lv))")
  note S0 = start [OF assms(1), unfolded same] and S1 = start [OF bootstrap_keeps [OF assms(1) bo]]
  show ?thesis
    using assms(3) loop [OF S0] loop [OF S1] S1 bo by (auto simp: ingest_def Let_def split: if_splits)
qed

end

context storage_engine
begin

lemma ingest_grows:
  assumes "storage_wf wf (sink_storage (lv_sink lv))" "\<forall>buf. lv_sink lv = Joined buf \<longrightarrow> join_inv buf"
    and "ingest E C cfg b es lv = (released, ds, attempt, lv')"
  shows "live_inv (\<lambda>st. storage_wf wf st \<and> dom (stored content (sink_storage (lv_sink lv))) \<subseteq> dom (stored content st))
      (cfg_prefetch_delay_cap cfg) lv' \<and> (\<forall>d\<in>set ds. 500 \<le> d \<and> d \<le> 30000)"
  using growing.ingest_inv [OF _ assms(2,3)] assms(1) by blast

lemma live_writes_rooted:
  assumes "kept E wf m c st" "st_store st \<noteq> None" "live_sound lv"
  shows "kept E wf m c (live_writes E C cfg e lv st) \<and> dom (stored content st) \<subseteq> dom (stored content (live_writes E C cfg e lv st))"
  using rooted.live_writes_keeps [OF assms(3), where st = st and m = m and c = c and K = "dom (stored content st)"] assms(1,2) by blast

text \<open>A mirror session, wherever it ends.\<close>

lemma mirror_session_checked:
  assumes "storage_wf wf (mi_storage ms)"
  shows "storage_wf wf (mi_storage (snd (mirror_session E C cfg e ms))) \<and>
    only_checked (en_ser E) C (stored content (mi_storage ms)) (stored content (mi_storage (snd (mirror_session E C cfg e ms))))"
proof -
  let ?boot = "open_subscription cfg (me_boot e) (me_boot_sent e)" and ?live = "open_subscription cfg (me_live e) (me_live_sent e)"
  obtain r ms1 where b: "mirror_bootstrap E C cfg (me_health e) (link_up ?boot) (me_clk e) (link_inputs (en_ser E) ?boot) ms = (r, ms1)"
    by (cases "mirror_bootstrap E C cfg (me_health e) (link_up ?boot) (me_clk e) (link_inputs (en_ser E) ?boot) ms")
  note B = mirror_bootstrap_checked [OF assms b]
  have "snd (mirror_session E C cfg e ms) = ms1 \<or>
      (\<exists>q. follow_stream E C (link_inputs (en_ser E) ?live) ms1 = (q, snd (mirror_session E C cfg e ms)))"
    using b by (auto simp: mirror_session_def follow_tip_def Let_def split: prod.splits)
  then show ?thesis
  proof
    assume "\<exists>q. follow_stream E C (link_inputs (en_ser E) ?live) ms1 = (q, snd (mirror_session E C cfg e ms))"
    then obtain q where "follow_stream E C (link_inputs (en_ser E) ?live) ms1 = (q, snd (mirror_session E C cfg e ms))" ..
    from follow_stream_checked [OF _ this] B show ?thesis by (auto intro: only_checked_trans)
  qed (use B in simp)
qed

lemma mirror_checked:
  assumes "storage_wf wf (mi_storage ms)" "mirror E C cfg es ms = (ds, attempt, ms')"
  shows "only_checked (en_ser E) C (stored content (mi_storage ms)) (stored content (mi_storage ms'))"
proof -
  let ?P = "\<lambda>s. storage_wf wf (mi_storage s) \<and>
    only_checked (en_ser E) C (stored content (mi_storage ms)) (stored content (mi_storage s))"
  have "?P (snd (snd (mirror E C cfg es ms)))"
    unfolding mirror_def
    by (rule reconnect_keeps [where P = ?P]) (use mirror_session_checked assms(1) only_checked_trans in \<open>auto 0 3\<close>)
  then show ?thesis using assms(2) by simp
qed

end

section \<open>Guarantees\<close>

text \<open>
  C20. A mirror trusts its upstream no further than the bytes verify. Whatever an upstream sends, over
  any number of sessions and reconnects and wherever each of them ends, every height of the store
  that changed holds a record whose bytes hash to the identifier its JSON reports and whose JSON
  reports that height.
\<close>

theorem mirror_writes_only_verified:
  assumes "storage_engine E content ok view" "storage_wf ok (mi_storage ms)"
    and "mirror E C cfg es ms = (ds, attempt, ms')"
  shows "\<forall>h. stored content (mi_storage ms') h = stored content (mi_storage ms) h \<or>
    (\<exists>bv jv fb rewards. verify (en_ser E) C bv jv None = Inr fb \<and> fb_height fb = h \<and>
       stored content (mi_storage ms') h = Some (encode (block_elements fb rewards)))"
  using storage_engine.mirror_checked [OF assms]
  unfolding only_checked_def checked_record_def verify_record_def by blast

definition ref_health :: "u64 \<Rightarrow> http_reply" where
  "ref_health h = Net_reply 200 None (Some (JObj [(''chains'', JObj [(chain_as_str Chain_P, JObj [(''blocks'',
     JObj [(''max_contiguous_height'', JNum (PosInt h))])])])]))"

definition ref_mirror_env :: "ws_item list \<Rightarrow> mirror_env" where
  "ref_mirror_env is = \<lparr>me_health = ref_health 8, me_boot = Hs_open is, me_boot_sent = True,
     me_live = Hs_failed, me_live_sent = True, me_clk = (\<lambda>_. 0)\<rparr>"

definition ref_notification :: "bytes \<Rightarrow> string" where
  "ref_notification t = (case from_slice ref_serde t of None \<Rightarrow> [] | Some v \<Rightarrow> print_json (sub_frame v))"

lemma ref_notification_parses:
  assumes "from_slice ref_serde t = Some v" "plain v"
  shows "from_slice ref_serde (ref_notification t) = Some (sub_frame v)"
proof -
  have "plain (sub_frame v)" using assms(2) by (simp add: sub_frame_def u64_max_def)
  from ref.parse_print [OF this] show ?thesis
    using assms(1) \<open>plain (sub_frame v)\<close> by (simp add: ref_notification_def ref_serde_def ref_to_vec_def)
qed

theorem mirror_writes_only_verified_witness:
  "\<exists>ds a ms'. mirror mem_engines ref_crypto ref_cfg
       [ref_mirror_env [Ws_msg (Ws_ping []), Ws_msg (Ws_text (ref_notification ref_record))]]
       (ref_mirror (mem_fresh Chain_P)) = (ds, a, ms') \<and>
     (\<exists>bv jv fb rewards. verify ref_serde ref_crypto bv jv None = Inr fb \<and> fb_height fb = 8 \<and>
        stored mem_content (mi_storage ms') 8 = Some (encode (block_elements fb rewards)))"
proof -
  let ?items = "[Ws_msg (Ws_ping []), Ws_msg (Ws_text (ref_notification ref_record))]"
  let ?ms = "ref_mirror (mem_fresh Chain_P)"
  note f = ref_notification_parses [OF ref_record_parses(1) ref_record_print(2)]
  obtain ds a ms' where m: "mirror mem_engines ref_crypto ref_cfg [ref_mirror_env ?items] ?ms = (ds, a, ms')"
    by (cases "mirror mem_engines ref_crypto ref_cfg [ref_mirror_env ?items] ?ms") auto
  have len: "length (block_elements (ref_fb 8) EMPTY_ARRAY) = arity Chain_P" by (simp add: block_elements_def)
  note p = mem_put_first [OF len, of 8 "fb_id (ref_fb 8)" "fb_tx_ids (ref_fb 8)"]
  have inp: "fst (ws_inputs ref_serde ?items) = [In_frame (sub_frame ref_record_json), In_end]"
    using f by (simp add: ws_inputs_Cons ws_stops_def)
  have tgt: "p_upstream_contiguous (ref_health 8) = Some 8"
    by (simp add: ref_health_def p_upstream_contiguous_def is_success_def upstream_blocks_field_def)
  have fr: "mirror_from mem_engines ref_cfg (mem_fresh Chain_P) = 0"
    by (simp add: mirror_from_def is_empty_def mem_fresh_def ref_cfg_def)
  have ser: "en_ser mem_engines = ref_serde" by (simp add: mem_engines_def)
  have "mi_storage ms' = mem_put 8 (fb_id (ref_fb 8)) (fb_tx_ids (ref_fb 8)) (block_elements (ref_fb 8) EMPTY_ARRAY) (mem_fresh Chain_P)"
    using m ref_persist
    by (auto simp: mirror_def mirror_session_def ref_mirror_env_def open_subscription_def connect_ws_def ser inp
        mirror_bootstrap_def tgt fr follow_tip_def ref_mirror_def Let_def)
  then have "stored mem_content (mi_storage ms') 8 \<noteq> None" using mem.put_ok(2) [OF mem_fresh_wf p] by simp
  moreover have "stored mem_content (mi_storage ?ms) 8 = None" by (simp add: ref_mirror_def stored_def mem_fresh_def)
  moreover have "storage_wf mem_wf (mi_storage ?ms)" by (simp add: ref_mirror_def)
  ultimately have "\<exists>bv jv fb rewards. verify ref_serde ref_crypto bv jv None = Inr fb \<and> fb_height fb = 8 \<and>
      stored mem_content (mi_storage ms') 8 = Some (encode (block_elements fb rewards))"
    using mirror_writes_only_verified [OF mem.storage_engine_axioms _ m, THEN spec, of 8] unfolding ser by metis
  with m show ?thesis by blast
qed

text \<open>
  C38. The live task of the C-chain keeps its state sound through every reconnect. Whatever
  handshakes, frames, replies and silences its sessions meet, and after the bootstrap of a mirror:
  the store stays well formed and loses no height, the join buffer stays within its bound, the
  learned delay stays within its cap, and each delay between two sessions is between half a
  second and thirty seconds.
\<close>

theorem live_task_invariant:
  assumes "storage_engine E content ok view" "storage_wf ok (sink_storage (lv_sink lv))"
    and "\<forall>buf. lv_sink lv = Joined buf \<longrightarrow> join_inv buf"
    and "ingest E C cfg b es lv = (released, ds, attempt, lv')"
  shows "storage_wf ok (sink_storage (lv_sink lv')) \<and>
    dom (stored content (sink_storage (lv_sink lv))) \<subseteq> dom (stored content (sink_storage (lv_sink lv'))) \<and>
    (\<forall>buf. lv_sink lv' = Joined buf \<longrightarrow> join_inv buf) \<and>
    ad_delay (lv_aimd lv') \<le> cfg_prefetch_delay_cap cfg \<and>
    (\<forall>d\<in>set ds. 500 \<le> d \<and> d \<le> 30000)"
  using storage_engine.ingest_grows [OF assms] unfolding live_inv_def by simp

definition ref_live_env :: "handshake \<Rightarrow> live_env" where
  "ref_live_env hs = \<lparr>le_handshake = hs, le_sent = True, le_ups = (\<lambda>_ _ _. Net_error), le_listening = False, le_clk = (\<lambda>_. 0)\<rparr>"

theorem live_task_invariant_witness:
  "let st = mem_put 7 ''hash'' [] [''{}'', ''[]''] (mem_fresh Chain_C);
       lv = \<lparr>lv_sink = Joined (join_new st 4), lv_aimd = aimd_new 0, lv_published = []\<rparr>;
       m = ingest mem_engines ref_crypto ref_cfg \<lparr>be_health = Net_error, be_handshake = Hs_failed, be_sent = True\<rparr>
         [ref_live_env (Hs_http 503 None), ref_live_env (Hs_open [Ws_msg (Ws_ping []), Ws_msg Ws_close])] lv
   in fst (snd m) = [1000, 500] \<and> 7 \<in> dom (stored mem_content (sink_storage (lv_sink (snd (snd (snd m))))))"
proof -
  let ?es = "[''{}'', ''[]'']"
  define st where "st = mem_put 7 ''hash'' [] ?es (mem_fresh Chain_C)"
  define lv where "lv = \<lparr>lv_sink = Joined (join_new st 4), lv_aimd = aimd_new 0, lv_published = []\<rparr>"
  define envs where "envs = [ref_live_env (Hs_http 503 None), ref_live_env (Hs_open [Ws_msg (Ws_ping []), Ws_msg Ws_close])]"
  define b where "b = \<lparr>be_health = Net_error, be_handshake = Hs_failed, be_sent = True\<rparr>"
  have p: "put mem_engines 7 ''hash'' [] ?es (mem_fresh Chain_C) = (Inr (), st)"
    unfolding st_def by (rule mem_put_first) simp
  note ok = mem.put_ok [OF mem_fresh_wf p]
  have s: "sink_storage (lv_sink lv) = st" "\<forall>buf. lv_sink lv = Joined buf \<longrightarrow> join_inv buf"
    by (simp_all add: lv_def join_new_def join_inv_def)
  obtain r ds a lv' where m: "ingest mem_engines ref_crypto ref_cfg b envs lv = (r, ds, a, lv')"
    by (cases "ingest mem_engines ref_crypto ref_cfg b envs lv") auto
  have "ds = [1000, 500]"
    using m by (simp add: ingest_def envs_def ref_live_env_def live_session_def open_subscription_def connect_ws_def
        is_throttled_def handle_throttle_def default_retry_after_def retry_after_from_headers_def ref_cfg_def
        ws_inputs_Cons ws_stops_def mirror_attempt_def reconnect_backoff_eq from_secs_def Let_def)
  moreover have "7 \<in> dom (stored mem_content (sink_storage (lv_sink lv')))"
    using live_task_invariant [OF mem.storage_engine_axioms _ s(2) m] ok(1,2) s(1) by auto
  ultimately show ?thesis using m unfolding st_def lv_def envs_def b_def by (simp add: Let_def)
qed

end
