(* ===== verification/Pipelines.thy ===== *)
theory Pipelines
  imports Startup Sessions Catch_Up
begin

text \<open>
  What drives one instance (\<open>spawn_pipeline\<close> of \<open>main.rs\<close>): the live task and the backfill worker of the
  C-chain, the mirror or the polling loop of the P-chain. \<open>pipeline_run\<close> is the relation between the store
  an instance starts with and every store its tasks can make of it, their steps in any order.

  All four loops write through \<open>put\<close> alone, so they are clients of \<open>put_guard\<close>: what one \<open>put\<close> keeps, a
  running instance keeps.
\<close>

section \<open>The loops as clients of \<open>put\<close>\<close>

context put_guard
begin

subsection \<open>The backfill worker\<close>

lemma fill_loop_keeps:
  assumes "\<And>h st. G st \<Longrightarrow> G (other h st)"
  shows "G st \<Longrightarrow> fill_loop E C cfg results other clk tip hs run st = (r, run', st') \<Longrightarrow> G st'"
proof (induction hs arbitrary: run st)
  case (Cons h hs)
  let ?s = "other h st"
  have s: "G ?s" using assms Cons.prems(1) .
  show ?case
  proof (cases "results h")
    case (One f)
    show ?thesis
    proof (cases f)
      case (Fetched_block height block l)
      obtain q s1 where p: "persist_backfilled E C height block (run_logs (en_ser E) cfg (rs_logs run) height l) ?s = (q, s1)"
        by (cases "persist_backfilled E C height block (run_logs (en_ser E) cfg (rs_logs run) height l) ?s")
      then have "G s1" using persist_backfilled_keeps [OF s] by blast
      with Cons One Fetched_block p show ?thesis by (cases q) (auto simp: Let_def)
    qed (use Cons One s in \<open>simp add: Let_def\<close>)
  qed (use Cons s in \<open>simp_all add: Let_def\<close>)
qed simp

lemma backfill_iteration_keeps:
  assumes "\<And>h st. G st \<Longrightarrow> G (pe_other e h st)" "G (bw_storage s)"
  shows "G (bw_storage (backfill_step E C cfg e s))"
proof -
  have "G st'" if "fill_range E C cfg (pe_up e) (pe_snap e) (pe_other e) clk a b tip run (bw_storage s) = (r, run', st')"
    for clk a b tip run r run' st'
    using that assms(2) fill_loop_keeps [of "pe_other e", OF assms(1) assms(2)]
    by (auto simp: fill_range_def Let_def split: load_end.splits)
  then show ?thesis
    using assms(2) by (auto simp: backfill_iteration_def Let_def split: prod.splits pass.splits)
qed

subsection \<open>The polling loop\<close>

lemma store_block_keeps: "G st \<Longrightarrow> store_block E fb rewards st = (r, st') \<Longrightarrow> G st'"
  using put_keeps by (fastforce simp: store_block_def split: prod.splits sum.splits)

lemma emit_keeps: "G st \<Longrightarrow> emit E listening now tip fb rewards run st = (ok, run', st') \<Longrightarrow> G st'"
  using store_block_keeps by (fastforce simp: emit_def Let_def split: prod.splits option.splits)

lemma release_pending_keeps:
  "G st \<Longrightarrow> release_pending E cfg up listening now tip pending fb run st = (r, run', st') \<Longrightarrow> G st'"
  using emit_keeps by (fastforce simp: release_pending_def split: option.splits reward_end.splits prod.splits)

lemma p_fill_loop_keeps:
  "G st \<Longrightarrow> p_fill_loop E cfg up listening results clk tip hs pending run st = (r, run', st') \<Longrightarrow> G st'"
proof (induction hs arbitrary: pending run st)
  case (Cons h hs)
  from Cons.prems(2) show ?case
  proof (cases rule: p_fill_loop_ConsE)
    case missing
    with Cons.prems(1) show ?thesis by simp
  next
    case (unreleased fb)
    with Cons.prems(1) show ?thesis by (rule_tac release_pending_keeps)
  next
    case (hold fb run1 st1)
    with Cons.prems(1) show ?thesis by (metis Cons.IH release_pending_keeps)
  next
    case (cut fb run1 st1)
    with Cons.prems(1) show ?thesis by (metis emit_keeps release_pending_keeps)
  next
    case (emitted fb run1 st1 run2 st2)
    with Cons.prems(1) show ?thesis by (metis Cons.IH emit_keeps release_pending_keeps)
  qed
qed simp

lemma p_ingest_iteration_keeps:
  assumes "G (ps_storage s)"
  shows "G (ps_storage (p_ingest_step E C cfg e s))"
proof -
  have "G (ps_storage (snd (p_fill_pass E C cfg up listening now clk s')))" if "G (ps_storage s')" for up listening now clk s'
    using that p_fill_loop_keeps [OF that]
    by (auto simp: p_fill_pass_def p_fill_range_def Let_def split: prod.splits)
  with assms show ?thesis
    by (auto simp: p_ingest_iteration_def p_ingest_pass_def split: height_poll.splits)
qed

subsection \<open>The mirror\<close>

lemma persist_record_keeps: "G st \<Longrightarrow> persist_record E C rec st = (r, st') \<Longrightarrow> G st'"
  using store_block_keeps
  by (auto simp: persist_record_def split: option.splits if_splits list.splits sum.splits)

lemma mirror_stream_keeps:
  "G (mi_storage ms) \<Longrightarrow> mirror_stream E C target clk n is prog ms = (r, prog', ms') \<Longrightarrow> G (mi_storage ms')"
proof (induction "is" arbitrary: n prog ms)
  case (Cons i "is")
  show ?case
  proof (cases "\<exists>f rec. i = In_frame f \<and> notification_payload f = Some rec")
    case True
    then obtain f rec where f: "i = In_frame f" "notification_payload f = Some rec" by blast
    obtain q st1 where p: "persist_record E C rec (mi_storage ms) = (q, st1)" by (cases "persist_record E C rec (mi_storage ms)")
    have st1: "G st1" using persist_record_keeps [OF Cons.prems(1) p] .
    show ?thesis
    proof (cases q)
      case (Some h)
      with Cons.prems(2) f p st1 Cons.IH [of "ms\<lparr>mi_storage := st1, mi_behind_tip := target - h\<rparr>" "Suc n"]
      show ?thesis by (auto simp: Let_def split: if_splits)
    qed (use Cons.prems(2) f p st1 in auto)
  next
    case False
    with Cons show ?thesis by (cases i) (auto split: option.splits)
  qed
qed simp

lemma follow_stream_keeps:
  "G (mi_storage ms) \<Longrightarrow> follow_stream E C is ms = (r, ms') \<Longrightarrow> G (mi_storage ms')"
proof (induction "is" arbitrary: ms)
  case (Cons i "is")
  show ?case
  proof (cases "\<exists>f rec. i = In_frame f \<and> notification_payload f = Some rec")
    case True
    then obtain f rec where f: "i = In_frame f" "notification_payload f = Some rec" by blast
    obtain q st1 where p: "persist_record E C rec (mi_storage ms) = (q, st1)" by (cases "persist_record E C rec (mi_storage ms)")
    with persist_record_keeps [OF Cons.prems(1) p] Cons.prems(2) f show ?thesis
      by (cases q) (auto intro: Cons.IH [rotated])
  next
    case False
    with Cons show ?thesis by (cases i) (auto split: option.splits)
  qed
qed simp

lemma mirror_session_keeps:
  assumes "G (mi_storage ms)"
  shows "G (mi_storage (snd (mirror_session E C cfg e ms)))"
proof -
  let ?boot = "open_subscription cfg (me_boot e) (me_boot_sent e)"
  obtain r ms1 where b: "mirror_bootstrap E C cfg (me_health e) (link_up ?boot) (me_clk e) (link_inputs (en_ser E) ?boot) ms = (r, ms1)"
    by (cases "mirror_bootstrap E C cfg (me_health e) (link_up ?boot) (me_clk e) (link_inputs (en_ser E) ?boot) ms")
  then have "G (mi_storage ms1)"
    using assms by (auto simp: mirror_bootstrap_def Let_def dest: mirror_stream_keeps [rotated] split: option.splits if_splits prod.splits)
  with b show ?thesis
    by (auto simp: mirror_session_def follow_tip_def Let_def dest: follow_stream_keeps split: prod.splits)
qed

end

section \<open>Everything a running instance can do\<close>

text \<open>
  The steps are those of the tasks \<open>spawn_pipeline\<close> starts. While a pass of the backfill worker runs, the
  live task goes on before each height the pass takes.
\<close>

inductive pipeline_run ::
  "('s, 'd) engines \<Rightarrow> crypto \<Rightarrow> ('s, 'd) instance_t \<Rightarrow> ('s, 'd) storage \<Rightarrow> ('s, 'd) storage \<Rightarrow> bool"
  for E C inst where
  spawned: "pipeline_run E C inst st st"
| bootstrap: "spawn_pipeline inst = C_live_and_backfill \<Longrightarrow> pipeline_run E C inst st0 st \<Longrightarrow>
     bootstrap_via_oldblocks E C (in_cfg inst) b st = (r, st') \<Longrightarrow> pipeline_run E C inst st0 st'"
| live: "spawn_pipeline inst = C_live_and_backfill \<Longrightarrow> pipeline_run E C inst st0 st \<Longrightarrow> live_sound lv \<Longrightarrow>
     pipeline_run E C inst st0 (live_writes E C (in_cfg inst) e lv st)"
| backfill: "spawn_pipeline inst = C_live_and_backfill \<Longrightarrow> pipeline_run E C inst st0 (bw_storage w) \<Longrightarrow>
     (\<And>h st. pipeline_run E C inst st (pe_other pe h st)) \<Longrightarrow>
     pipeline_run E C inst st0 (bw_storage (backfill_step E C (in_cfg inst) pe w))"
| mirror: "spawn_pipeline inst = P_mirror_loop \<Longrightarrow> pipeline_run E C inst st0 (mi_storage ms) \<Longrightarrow>
     pipeline_run E C inst st0 (mi_storage (snd (mirror_session E C (in_cfg inst) me ms)))"
| poll: "spawn_pipeline inst = P_poll_loop \<Longrightarrow> pipeline_run E C inst st0 (ps_storage s) \<Longrightarrow>
     pipeline_run E C inst st0 (ps_storage (p_ingest_step E C (in_cfg inst) pl s))"

context put_guard
begin

lemma pipeline_run_keeps: "pipeline_run E C inst st0 st \<Longrightarrow> G st0 \<Longrightarrow> G st"
proof (induction rule: pipeline_run.induct)
  case (bootstrap st0 st b r st')
  then show ?case using bootstrap_keeps by blast
next
  case (backfill st0 w pe)
  then show ?case by (intro backfill_iteration_keeps) blast+
qed (auto intro: live_writes_keeps mirror_session_keeps p_ingest_iteration_keeps)

end

end
