(* ===== verification/Rates.thy ===== *)
theory Rates
  imports Complex_Main Progress
begin

text \<open>
  The floating-point figures of the progress lines (\<open>progress.rs\<close>): the rate and the estimated time of
  arrival of a stretch, the rate of a summary, and the texts they are printed as. The operations on \<open>f64\<close>
  are a record of functions, which the rationals with exact arithmetic instantiate.
\<close>

section \<open>The figures\<close>

record 'f f64_ops =
  f_zero :: 'f
  f_of_u64 :: "u64 \<Rightarrow> 'f"
  f_as_secs :: "duration \<Rightarrow> 'f"
  f_le :: "'f \<Rightarrow> 'f \<Rightarrow> bool"
  f_less :: "'f \<Rightarrow> 'f \<Rightarrow> bool"
  f_div :: "'f \<Rightarrow> 'f \<Rightarrow> 'f"
  f_round :: "'f \<Rightarrow> u64"
  f_show2 :: "'f \<Rightarrow> string"

text \<open>\<open>f_round\<close> is \<open>round\<close> followed by the cast to \<open>u64\<close>, \<open>f_show2\<close> the format \<open>{:.2}\<close>.\<close>

definition eta :: "'f f64_ops \<Rightarrow> instant \<Rightarrow> u64 \<Rightarrow> u64 \<Rightarrow> backfill_progress \<Rightarrow> 'f \<times> u64 option" where
  "eta F now contiguous behind p =
     (case stretch now contiguous p of
        None \<Rightarrow> (f_zero F, None)
      | Some (filled, d) \<Rightarrow>
          (let elapsed = f_as_secs F d
           in if f_le F elapsed (f_zero F) \<or> filled = 0 then (f_zero F, None)
              else let rate = f_div F (f_of_u64 F filled) elapsed
                   in (rate, Some (f_round F (f_div F (f_of_u64 F behind) rate)))))"

text \<open>The fields \<open>bps\<close> and \<open>eta\<close> of the line \<open>observe\<close> logs for a running stretch.\<close>

definition backfill_fields :: "'f f64_ops \<Rightarrow> instant \<Rightarrow> u64 \<Rightarrow> u64 \<Rightarrow> backfill_progress \<Rightarrow> string \<times> string" where
  "backfill_fields F now contiguous behind p =
     (case eta F now contiguous behind p of
        (rate, left) \<Rightarrow> (f_show2 F rate, case left of None \<Rightarrow> ''?'' | Some secs \<Rightarrow> format_secs secs))"

definition summary_rate :: "'f f64_ops \<Rightarrow> u64 \<Rightarrow> duration \<Rightarrow> 'f" where
  "summary_rate F added d =
     (let elapsed = f_as_secs F d
      in if f_less F (f_zero F) elapsed then f_div F (f_of_u64 F added) elapsed else f_zero F)"

text \<open>The field \<open>bps\<close> of a summary line; the first has none.\<close>

definition summary_bps :: "'f f64_ops \<Rightarrow> summary_line \<Rightarrow> string option" where
  "summary_bps F l = map_option (\<lambda>(added, d). f_show2 F (summary_rate F added d)) (sm_interval l)"

section \<open>Lemmas\<close>

text \<open>
  What the conversions promise: a positive count and the quotient of two positive numbers are positive.
  Under it the estimate never divides by anything else, so what \<open>f64\<close> does with a divisor of zero, an
  infinity or not a number, never reaches a line.
\<close>

definition f64_positive :: "'f f64_ops \<Rightarrow> bool" where
  "f64_positive F \<longleftrightarrow> (\<forall>n>0. \<not> f_le F (f_of_u64 F n) (f_zero F)) \<and>
     (\<forall>a b. \<not> f_le F a (f_zero F) \<longrightarrow> \<not> f_le F b (f_zero F) \<longrightarrow> \<not> f_le F (f_div F a b) (f_zero F))"

lemma eta_divides_by_positive:
  assumes "f64_positive F" "\<And>a b. \<not> f_le F b (f_zero F) \<Longrightarrow> d a b = f_div F a b"
  shows "eta (F\<lparr>f_div := d\<rparr>) now contiguous behind p = eta F now contiguous behind p"
proof (cases "stretch now contiguous p")
  case (Some s)
  obtain n u where s: "s = (n, u)" by (cases s)
  let ?n = n and ?e = "f_as_secs F u"
  have "\<not> f_le F ?e (f_zero F) \<Longrightarrow> 0 < ?n \<Longrightarrow> \<not> f_le F (f_div F (f_of_u64 F ?n) ?e) (f_zero F)"
    using assms(1) unfolding f64_positive_def by blast
  with Some s assms(2) show ?thesis by (auto simp: eta_def Let_def)
qed (simp_all add: eta_def)

text \<open>In exact arithmetic the estimate extrapolates the stretch: what is left takes its share of the time so far.\<close>

definition exact_ops :: "(rat \<Rightarrow> string) \<Rightarrow> rat f64_ops" where
  "exact_ops shown = \<lparr>f_zero = 0, f_of_u64 = of_nat, f_as_secs = (\<lambda>d. of_nat d / of_nat nanos_per_sec), f_le = (\<le>),
     f_less = (<), f_div = (/), f_round = (\<lambda>x. nat (round x)), f_show2 = shown\<rparr>"

lemma exact_ops_positive: "f64_positive (exact_ops shown)"
  by (simp add: f64_positive_def exact_ops_def not_le)

lemma eta_extrapolates:
  assumes "bp_start_height p = Some h" "bp_start_time p = Some t" "h < contiguous" "t < now"
  shows "eta (exact_ops shown) now contiguous behind p =
    (of_nat (contiguous - h) / (of_nat (now - t) / of_nat nanos_per_sec),
     Some (nat (round (of_nat (behind * (now - t)) / of_nat ((contiguous - h) * nanos_per_sec) :: rat))))"
  using assms by (simp add: eta_def stretch_def exact_ops_def Let_def nanos_per_sec_def field_simps)

text \<open>
  The estimate says "?" exactly while there is nothing to extrapolate from: no stretch, no time elapsed, or
  no block filled.
\<close>

lemma eta_unknown_iff:
  "snd (eta (exact_ops shown) now contiguous behind p) = None \<longleftrightarrow>
     (\<forall>filled d. stretch now contiguous p = Some (filled, d) \<longrightarrow> d = 0 \<or> filled = 0)"
  by (auto simp: eta_def exact_ops_def Let_def nanos_per_sec_def divide_le_0_iff split: option.splits)

end
