(* ===== verification/Program.thy ===== *)
theory Program
  imports Pipelines Serving Conn Rates
begin

text \<open>
  The program (\<open>main\<close> of \<open>main.rs\<close>, with \<open>serve\<close> of \<open>rpc.rs\<close>): from the parsed command line to the exit
  status. What the process meets is a record \<open>world\<close>: its environment variables, files and network, whether
  the address can be bound, what the running tasks make of the stores, and what ends the run. What it does
  is a list of effects in order. The disk maps a data directory to its blockstore and its database, as the next
  process on the machine finds them: what is written but not synced counts, and a power failure that loses
  it is not modelled.

  The theorems are about whole runs: what a run that only prints touches, in which order a run starts and
  stops, and that a second run resumes where the first one ended.
\<close>

section \<open>Tracing\<close>

record tracing =
  tr_ansi :: bool
  tr_time :: bool
  tr_filter :: string

text \<open>\<open>rust_log\<close> is the filter \<open>RUST_LOG\<close> holds, when it is set and parses.\<close>

definition init_tracing :: "string option \<Rightarrow> bool \<Rightarrow> string \<Rightarrow> tracing" where
  "init_tracing rust_log interactive default_level =
     (let scoped = (if default_level \<in> {''debug'', ''trace''} then ''info,neve='' @ default_level else default_level)
      in \<lparr>tr_ansi = interactive, tr_time = interactive, tr_filter = unwrap_or rust_log scoped\<rparr>)"

section \<open>Serving\<close>

record serve_config =
  sc_addr :: string
  sc_max_connections :: u32
  sc_idle_timeout :: "duration option"
  sc_max_blocks_per_request :: u64

datatype serve_error = Module_error module_error | Bind_error

record ('s, 'd) server =
  sr_table :: "(string \<times> ('s, 'd) chain_serve) list"
  sr_chains :: "('s, 'd) chain_serve list"
  sr_config :: serve_config

definition serve :: "bool \<Rightarrow> serve_config \<Rightarrow> ('s, 'd) chain_serve list \<Rightarrow> serve_error + ('s, 'd) server" where
  "serve bound cfg chs =
     and_then (map_err Module_error (build_module chs)) (\<lambda>table.
       if bound then Inr \<lparr>sr_table = table, sr_chains = chs, sr_config = cfg\<rparr> else Inl Bind_error)"

text \<open>
  The accept loop over what the listener and the stop handle deliver: every accepted socket is
  handed on inside its idle timeout, a failed accept is skipped, a stop ends the loop.
\<close>

datatype 'a accept_event = Accepted 'a | Accept_failed | Stopped

fun accept_loop :: "duration option \<Rightarrow> (instant \<times> 'a accept_event) list \<Rightarrow> ('a \<times> idle_timeout) list" where
  "accept_loop idle [] = []"
| "accept_loop idle ((now, Accepted sock) # es) = (sock, idle_new idle now) # accept_loop idle es"
| "accept_loop idle ((now, Accept_failed) # es) = accept_loop idle es"
| "accept_loop idle ((now, Stopped) # es) = []"

section \<open>What ends a run\<close>

definition sleep_or_pending :: "duration option \<Rightarrow> instant option" where
  "sleep_or_pending stop = stop"

text \<open>The signals that arrive, with their times; the handlers are for these three.\<close>

definition SIGNALS :: "string list" where
  "SIGNALS = [''SIGINT'', ''SIGTERM'', ''SIGQUIT'']"

definition wait_for_signal :: "(string \<Rightarrow> instant option) \<Rightarrow> (instant \<times> string) list" where
  "wait_for_signal arrives = List.map_filter (\<lambda>s. map_option (\<lambda>t. (t, s)) (arrives s)) SIGNALS"

text \<open>The arms of the \<open>select!\<close> that become ready, each with its time; one of the earliest is taken.\<close>

definition shutdown_arms ::
  "(instant \<times> string option) option \<Rightarrow> duration option \<Rightarrow> (string \<Rightarrow> instant option) \<Rightarrow> instant option \<Rightarrow>
     (instant \<times> trigger) list" where
  "shutdown_arms joined stop arrives fatal =
     (case joined of None \<Rightarrow> [] | Some (t, r) \<Rightarrow> [(t, Ingest_returned r)]) @
     (case sleep_or_pending stop of None \<Rightarrow> [] | Some t \<Rightarrow> [(t, Stop_time_reached)]) @
     map (\<lambda>(t, s). (t, Signal_received s)) (wait_for_signal arrives) @
     (case fatal of None \<Rightarrow> [] | Some t \<Rightarrow> [(t, Fatal_upstream)])"

text \<open>
  The runtime's part of \<open>select!\<close>, not the program's: it takes an arm that is ready first, and which one of several
  is not determined; \<open>pick\<close> stands for the choice.
\<close>

definition earliest :: "(instant \<times> trigger) list \<Rightarrow> (instant \<times> trigger) list" where
  "earliest arms = filter (\<lambda>(t, _). list_all (\<lambda>(t', _). t \<le> t') arms) arms"

definition select_arm :: "nat \<Rightarrow> (instant \<times> trigger) list \<Rightarrow> (instant \<times> trigger) option" where
  "select_arm pick arms =
     (case earliest arms of [] \<Rightarrow> None | ready \<Rightarrow> Some (ready ! (pick mod length ready)))"

section \<open>The run\<close>

record ('s, 'd) world =
  w_libs :: libs
  w_var :: "string \<Rightarrow> string option"
  w_files :: files
  w_example :: string
  w_rust_log :: "string option"
  w_tty :: bool
  w_crypto_ok :: bool
  w_buckets :: "rat list \<Rightarrow> bool"
  w_recorder_set :: bool
  w_version :: string
  w_commit :: string
  w_now :: nat
  w_client_ok :: bool
  w_net :: net
  w_mkdir :: "string \<Rightarrow> bool"
  w_bind :: "string \<Rightarrow> bool"
  w_work :: "('s, 'd) instance_t \<Rightarrow> ('s, 'd) storage"
  w_ingests :: "('s, 'd) instance_t \<Rightarrow> (instant \<times> string option) option"
  w_join :: "(instant \<times> string option) option list \<Rightarrow> (instant \<times> string option) option"
  w_signals :: "string \<Rightarrow> instant option"
  w_fatal :: "instant option"
  w_pick :: nat

record ('s, 'd) disk =
  dk_store :: "string \<Rightarrow> 's option"
  dk_db :: "string \<Rightarrow> 'd"

text \<open>
  \<open>w_work\<close> is what the tasks of an instance have made of its store when the run ends, or so far,
  \<open>w_ingests\<close> when and how its ingest returns, if it does, \<open>w_join\<close> the library's \<open>try_join_all\<close> of them, and
  \<open>w_fatal\<close> when an upstream condition is found fatal.
\<close>

datatype effect =
    Stdout string
  | Stderr string notice
  | Crypto_installed
  | Tracing_on tracing
  | Logged level notice
  | Metrics_installed "recording list"
  | Upkeep_spawned
  | Starting "chain list" network string
  | Instance_built chain
  | Listening string
  | Summary_spawned chain duration
  | Pipeline_spawned chain pipeline
  | Stop_time_set duration
  | Flushed chain bool

datatype main_error =
    Config_error cfg_error
  | Crypto_error
  | Metrics_error install_error
  | Client_error
  | Start_error start_error
  | Serve_error serve_error
  | Run_error string

datatype exit = Running | Exited "main_error + unit"

type_synonym ('s, 'd) run_result = "exit \<times> effect list \<times> ('s, 'd) disk"

fun notice_level :: "notice \<Rightarrow> level" where
  "notice_level (Deprecated_var _ _) = Level_warn"
| "notice_level (Deprecated_flag _ _) = Level_warn"
| "notice_level _ = Level_info"

definition print_notice :: "notice \<Rightarrow> effect" where
  "print_notice n = Stderr (if notice_level n = Level_warn then ''warning: '' else ''note: '') n"

definition emit_notices :: "resolved \<Rightarrow> effect list" where
  "emit_notices r = map (\<lambda>n. Logged (notice_level n) n) (rs_notices r)"

definition disk_put :: "string \<Rightarrow> ('s, 'd) storage \<Rightarrow> ('s, 'd) disk \<Rightarrow> ('s, 'd) disk" where
  "disk_put dir st dk = dk\<lparr>dk_store := (dk_store dk)(dir := st_store st), dk_db := (dk_db dk)(dir := st_db st)\<rparr>"

text \<open>The instances, one after the other; the first that cannot be built ends the run.\<close>

fun build_instances ::
  "('s, 'd) engines \<Rightarrow> crypto \<Rightarrow> ('s, 'd) world \<Rightarrow> upstream_cfg \<Rightarrow> chain_cfg list \<Rightarrow> ('s, 'd) disk \<Rightarrow>
     (start_error + ('s, 'd) instance_t list) \<times> chain list \<times> ('s, 'd) disk" where
  "build_instances E C W up [] dk = (Inr [], [], dk)"
| "build_instances E C W up (cfg # cfgs) dk =
     (let dir = ch_data_dir cfg in
      case build_instance E C (w_net W) (w_mkdir W dir) (dk_store dk dir) (dk_db dk dir) cfg up of
        (Inl e, d) \<Rightarrow> (Inl e, [], dk\<lparr>dk_db := (dk_db dk)(dir := d)\<rparr>)
      | (Inr inst, d) \<Rightarrow>
          (case build_instances E C W up cfgs (dk\<lparr>dk_db := (dk_db dk)(dir := d)\<rparr>) of
             (r, built, dk') \<Rightarrow> (map_sum id (\<lambda>insts. inst # insts) r, ch_chain cfg # built, dk')))"

definition serve_cfg :: "resolved \<Rightarrow> serve_config" where
  "serve_cfg r =
     \<lparr>sc_addr = sv_addr (rs_server r), sc_max_connections = sv_max_connections (rs_server r),
      sc_idle_timeout = sv_idle_timeout (rs_server r), sc_max_blocks_per_request = sv_max_blocks_per_request (rs_server r)\<rparr>"

definition pipeline_effects :: "('s, 'd) instance_t \<Rightarrow> effect list" where
  "pipeline_effects inst =
     [Summary_spawned (cs_chain (in_serve inst)) (cfg_progress_period (in_cfg inst)),
      Pipeline_spawned (cs_chain (in_serve inst)) (spawn_pipeline inst)]"

text \<open>
  From the server on: the pipelines, the wait for the first trigger, and the flush of every store. While no
  arm of the wait is ready, the program is running. The stores go back to the disk as they are in memory, whether
  or not a flush succeeds: the flush only guards against a power failure, and steady writes reach the file system
  without it.
\<close>

definition run_instances ::
  "('s, 'd) engines \<Rightarrow> ('s, 'd) world \<Rightarrow> resolved \<Rightarrow> ('s, 'd) instance_t list \<Rightarrow> ('s, 'd) disk \<Rightarrow> ('s, 'd) run_result" where
  "run_instances E W r insts dk =
     (let spawned = concat (map pipeline_effects insts) @
            (case rs_stop_time r of None \<Rightarrow> [] | Some d \<Rightarrow> [Stop_time_set d]);
          stores = map (w_work W) insts;
          dirs = map (cs_data_dir \<circ> in_serve) insts
      in case select_arm (w_pick W) (shutdown_arms (w_join W (map (w_ingests W) insts)) (rs_stop_time r) (w_signals W) (w_fatal W)) of
           None \<Rightarrow> (Running, spawned, fold (\<lambda>(dir, st). disk_put dir st) (zip dirs stores) dk)
         | Some (_, t) \<Rightarrow>
             (case run_until_shutdown E t stores of
                (outcome, flushed) \<Rightarrow>
                  (Exited (case outcome of None \<Rightarrow> Inr () | Some m \<Rightarrow> Inl (Run_error m)),
                   spawned @ map (\<lambda>(inst, r, _). Flushed (cs_chain (in_serve inst)) (\<not> isl r)) (zip insts flushed),
                   fold (\<lambda>(dir, st). disk_put dir st) (zip dirs (map snd flushed)) dk)))"

text \<open>The run of a resolved configuration that is not only printed.\<close>

definition run_resolved ::
  "('s, 'd) engines \<Rightarrow> crypto \<Rightarrow> ('s, 'd) world \<Rightarrow> resolved \<Rightarrow> ('s, 'd) disk \<Rightarrow> ('s, 'd) run_result" where
  "run_resolved E C W r dk =
     (if \<not> w_crypto_ok W then (Exited (Inl Crypto_error), [], dk)
      else
        let logging = [Crypto_installed, Tracing_on (init_tracing (w_rust_log W) (w_tty W) (log_level_as_str (rs_log_level r)))] @
              emit_notices r
        in case install (w_buckets W) (w_recorder_set W) (w_version W) (w_commit W) (w_now W) of
             Inl e \<Rightarrow> (Exited (Inl (Metrics_error e)), logging, dk)
           | Inr (_, recs) \<Rightarrow>
           if \<not> w_client_ok W then (Exited (Inl Client_error), logging @ [Metrics_installed recs, Upkeep_spawned], dk)
           else
             let starting = logging @ [Metrics_installed recs, Upkeep_spawned,
                   Starting (map fst (rs_chains r)) (rs_network r) (redact_url (up_base (rs_upstream r)))]
             in case build_instances E C W (rs_upstream r) (map snd (rs_chains r)) dk of
                  (Inl e, built, dk') \<Rightarrow> (Exited (Inl (Start_error e)), starting @ map Instance_built built, dk')
                | (Inr insts, built, dk') \<Rightarrow>
                    (case serve (w_bind W (sv_addr (rs_server r))) (serve_cfg r) (map in_serve insts) of
                       Inl e \<Rightarrow> (Exited (Inl (Serve_error e)), starting @ map Instance_built built, dk')
                     | Inr srv \<Rightarrow>
                         (case run_instances E W r insts dk' of
                            (x, evs, dk'') \<Rightarrow>
                              (x, starting @ map Instance_built built @ [Listening (sc_addr (sr_config srv))] @ evs, dk''))))"

definition main :: "('s, 'd) engines \<Rightarrow> crypto \<Rightarrow> ('s, 'd) world \<Rightarrow> cli \<Rightarrow> ('s, 'd) disk \<Rightarrow> ('s, 'd) run_result" where
  "main E C W cl dk =
     (if cl_print_config_example cl then (Exited (Inr ()), [Stdout (w_example W)], dk)
      else case resolve_with (w_libs W) (w_files W) cl (env_from_process (w_var W)) of
        Inl e \<Rightarrow> (Exited (Inl (Config_error e)), [], dk)
      | Inr r \<Rightarrow>
          (case rs_print r of
             None \<Rightarrow> run_resolved E C W r dk
           | Some mode \<Rightarrow>
               let notes = map print_notice (rs_notices r) in
               (case mode of
                  Print_example \<Rightarrow> (Exited (Inr ()), notes @ [Stdout (w_example W)], dk)
                | Print_config \<Rightarrow>
                    (case to_redacted_toml (w_libs W) r of
                       Inl e \<Rightarrow> (Exited (Inl (Config_error e)), notes, dk)
                     | Inr doc \<Rightarrow> (Exited (Inr ()), notes @ [Stdout doc], dk)))))"

section \<open>Lemmas on the effects\<close>

text \<open>The chains of the instances, the pipelines and the flushes, in the order of the run.\<close>

definition built_chains :: "effect list \<Rightarrow> chain list" where
  "built_chains = List.map_filter (\<lambda>e. case e of Instance_built c \<Rightarrow> Some c | _ \<Rightarrow> None)"

definition spawned_chains :: "effect list \<Rightarrow> chain list" where
  "spawned_chains = List.map_filter (\<lambda>e. case e of Pipeline_spawned c _ \<Rightarrow> Some c | _ \<Rightarrow> None)"

definition flushed_chains :: "effect list \<Rightarrow> chain list" where
  "flushed_chains = List.map_filter (\<lambda>e. case e of Flushed c _ \<Rightarrow> Some c | _ \<Rightarrow> None)"

lemma map_filter_append: "List.map_filter f (xs @ ys) = List.map_filter f xs @ List.map_filter f ys"
  by (simp add: List.map_filter_def)

lemma map_filter_none: "(\<And>x. x \<in> set xs \<Longrightarrow> f x = None) \<Longrightarrow> List.map_filter f xs = []"
  by (induction xs) (simp_all add: List.map_filter_simps)

lemma map_filter_map_some: "(\<And>x. x \<in> set xs \<Longrightarrow> f (g x) = Some (h x)) \<Longrightarrow> List.map_filter f (map g xs) = map h xs"
  by (induction xs) (simp_all add: List.map_filter_simps)

lemmas chains_of_effects = built_chains_def spawned_chains_def flushed_chains_def map_filter_append List.map_filter_simps

lemma chains_append:
  "built_chains (xs @ ys) = built_chains xs @ built_chains ys"
  "spawned_chains (xs @ ys) = spawned_chains xs @ spawned_chains ys"
  "flushed_chains (xs @ ys) = flushed_chains xs @ flushed_chains ys"
  by (simp_all add: chains_of_effects)

definition is_listening :: "effect \<Rightarrow> bool" where
  "is_listening e \<longleftrightarrow> (\<exists>a. e = Listening a)"

text \<open>The effects of a phase that neither serves nor flushes.\<close>

definition quiet :: "effect list \<Rightarrow> bool" where
  "quiet evs \<longleftrightarrow> (\<forall>e\<in>set evs. \<not> is_listening e) \<and> spawned_chains evs = [] \<and> flushed_chains evs = []"

lemma quiet_append [simp]: "quiet (xs @ ys) \<longleftrightarrow> quiet xs \<and> quiet ys"
  by (auto simp: quiet_def chains_of_effects)

lemma quiet_simps [simp]:
  "quiet []" "quiet [Stdout doc]" "quiet [Crypto_installed, Tracing_on t]" "quiet [Metrics_installed recs, Upkeep_spawned]"
  "quiet [Metrics_installed recs, Upkeep_spawned, Starting cs n u]"
  by (simp_all add: quiet_def chains_of_effects is_listening_def)

lemma quiet_map:
  assumes "\<And>x. \<not> is_listening (g x)" "\<And>x c p. g x \<noteq> Pipeline_spawned c p" "\<And>x c b. g x \<noteq> Flushed c b"
  shows "quiet (map g xs)"
proof -
  have "spawned_chains (map g xs) = []" "flushed_chains (map g xs) = []"
    unfolding spawned_chains_def flushed_chains_def
    using assms(2,3) by (intro map_filter_none; force split: effect.splits)+
  with assms(1) show ?thesis by (auto simp: quiet_def)
qed


section \<open>Lemmas on the instances\<close>

text \<open>What is built from one chain's settings and the disk.\<close>

abbreviation built_from ::
  "('s, 'd) engines \<Rightarrow> crypto \<Rightarrow> ('s, 'd) world \<Rightarrow> upstream_cfg \<Rightarrow> ('s, 'd) disk \<Rightarrow> chain_cfg \<Rightarrow>
     (start_error + ('s, 'd) instance_t) \<times> 'd" where
  "built_from E C W up dk cfg \<equiv>
     build_instance E C (w_net W) (w_mkdir W (ch_data_dir cfg)) (dk_store dk (ch_data_dir cfg)) (dk_db dk (ch_data_dir cfg)) cfg up"

lemma build_instance_dirs:
  assumes "build_instance E C N mk disk d cfg up = (Inr inst, d')"
  shows "cs_data_dir (in_serve inst) = ch_data_dir cfg" "cs_chain (in_serve inst) = ch_chain cfg"
    "st_db (cs_storage (in_serve inst)) = d'"
  using assms
  by (auto simp: build_instance_def storage_open_def Let_def split: sum.splits prod.splits if_splits option.splits)

lemma built_from_other:
  "dir \<noteq> ch_data_dir k \<Longrightarrow> built_from E C W up (dk\<lparr>dk_db := (dk_db dk)(dir := d)\<rparr>) k = built_from E C W up dk k"
  by simp

lemma build_instances_Inr:
  assumes "distinct (map ch_data_dir cfgs)" "build_instances E C W up cfgs dk = (Inr insts, built, dk')"
  shows "list_all2 (\<lambda>cfg inst. built_from E C W up dk cfg = (Inr inst, dk_db dk' (ch_data_dir cfg))) cfgs insts"
    and "built = map ch_chain cfgs" "dk_store dk' = dk_store dk"
    and "dir \<notin> ch_data_dir ` set cfgs \<Longrightarrow> dk_db dk' dir = dk_db dk dir"
proof -
  have "list_all2 (\<lambda>cfg inst. built_from E C W up dk cfg = (Inr inst, dk_db dk' (ch_data_dir cfg))) cfgs insts \<and>
      built = map ch_chain cfgs \<and> dk_store dk' = dk_store dk \<and>
      (\<forall>dir. dir \<notin> ch_data_dir ` set cfgs \<longrightarrow> dk_db dk' dir = dk_db dk dir)"
    using assms
  proof (induction cfgs arbitrary: dk insts built)
    case (Cons cfg cfgs)
    let ?dir = "ch_data_dir cfg"
    obtain r d where b: "built_from E C W up dk cfg = (r, d)" by (cases "built_from E C W up dk cfg")
    define dk1 where "dk1 = dk\<lparr>dk_db := (dk_db dk)(?dir := d)\<rparr>"
    obtain inst insts' built' where r: "r = Inr inst" and i: "insts = inst # insts'" and bt: "built = ch_chain cfg # built'"
      and rest: "build_instances E C W up cfgs dk1 = (Inr insts', built', dk')"
      using Cons.prems(2) b by (cases r; cases "build_instances E C W up cfgs dk1") (auto simp: Let_def dk1_def map_sum_def split: sum.splits)
    have d: "distinct (map ch_data_dir cfgs)" "?dir \<notin> ch_data_dir ` set cfgs" using Cons.prems(1) by auto
    note IH = Cons.IH [OF d(1) rest]
    have same: "built_from E C W up dk1 k = built_from E C W up dk k" if "k \<in> set cfgs" for k
      unfolding dk1_def using d(2) that by (intro built_from_other) (metis imageI)
    have "list_all2 (\<lambda>cfg inst. built_from E C W up dk cfg = (Inr inst, dk_db dk' (ch_data_dir cfg))) cfgs insts'"
      using IH same by (auto simp: list_all2_conv_all_nth)
    moreover have "dk_db dk' ?dir = d" using IH d(2) by (simp add: dk1_def)
    ultimately show ?case using IH b r i bt by (auto simp: dk1_def)
  qed simp
  then show "list_all2 (\<lambda>cfg inst. built_from E C W up dk cfg = (Inr inst, dk_db dk' (ch_data_dir cfg))) cfgs insts"
    "built = map ch_chain cfgs" "dk_store dk' = dk_store dk"
    "dir \<notin> ch_data_dir ` set cfgs \<Longrightarrow> dk_db dk' dir = dk_db dk dir" by auto
qed

lemma build_instances_ok:
  assumes "distinct (map ch_data_dir cfgs)" "\<forall>cfg\<in>set cfgs. \<exists>inst d. built_from E C W up dk cfg = (Inr inst, d)"
  obtains insts built dk' where "build_instances E C W up cfgs dk = (Inr insts, built, dk')"
proof -
  have "\<exists>insts built dk'. build_instances E C W up cfgs dk = (Inr insts, built, dk')"
    using assms
  proof (induction cfgs arbitrary: dk)
    case (Cons cfg cfgs)
    let ?dir = "ch_data_dir cfg"
    obtain inst d where b: "built_from E C W up dk cfg = (Inr inst, d)" using Cons.prems(2) by auto
    define dk1 where "dk1 = dk\<lparr>dk_db := (dk_db dk)(?dir := d)\<rparr>"
    have "built_from E C W up dk1 k = built_from E C W up dk k" if "k \<in> set cfgs" for k
      unfolding dk1_def using Cons.prems(1) that by (intro built_from_other) (auto dest: imageI)
    then have "\<exists>insts built dk'. build_instances E C W up cfgs dk1 = (Inr insts, built, dk')"
      using Cons.prems by (intro Cons.IH) auto
    with b show ?case by (auto simp: Let_def dk1_def)
  qed simp
  with that show thesis by blast
qed

text \<open>Whoever fails to start, the instances before it are reported in order.\<close>

lemma build_instances_prefix:
  "build_instances E C W up cfgs dk = (r, built, dk') \<Longrightarrow> \<exists>k. built = map ch_chain (take k cfgs) \<and> (isl r \<longrightarrow> k < length cfgs)"
proof (induction cfgs arbitrary: dk r built)
  case (Cons cfg cfgs)
  obtain q d where b: "built_from E C W up dk cfg = (q, d)" by (cases "built_from E C W up dk cfg")
  show ?case
  proof (cases q)
    case (Inl e)
    with b Cons.prems show ?thesis by (intro exI [of _ 0]) (auto simp: Let_def)
  next
    case (Inr inst)
    obtain r1 built1 where rest: "build_instances E C W up cfgs (dk\<lparr>dk_db := (dk_db dk)(ch_data_dir cfg := d)\<rparr>) = (r1, built1, dk')"
      and e: "r = map_sum id (\<lambda>insts. inst # insts) r1" "built = ch_chain cfg # built1"
      using b Inr Cons.prems by (auto simp: Let_def split: prod.splits)
    from Cons.IH [OF rest] obtain k where "built1 = map ch_chain (take k cfgs)" "isl r1 \<longrightarrow> k < length cfgs" by blast
    with e show ?thesis by (cases r1) (auto intro!: exI [of _ "Suc k"])
  qed
qed simp

lemma resolved_dirs_distinct:
  assumes "resolved_ok r"
  shows "distinct (map ch_data_dir (map snd (rs_chains r)))"
proof -
  have "ch_data_dir (snd e) \<noteq> ch_data_dir (snd e')" if "e \<in> set (rs_chains r)" "e' \<in> set (rs_chains r)" "e \<noteq> e'" for e e'
  proof -
    have "fst e \<noteq> fst e'" using that assms by (auto simp: resolved_ok_def distinct_map inj_on_def)
    with that assms show ?thesis by (fastforce simp: resolved_ok_def path_eq_def)
  qed
  moreover have "distinct (rs_chains r)" using assms by (simp add: resolved_ok_def distinct_map)
  ultimately show ?thesis by (auto simp: distinct_map inj_on_def)
qed

text \<open>The disk after the stores of a list of directories have been put there.\<close>

lemma fold_disk_put:
  assumes "distinct (map fst xs)"
  shows "dk_store (fold (\<lambda>(dir, st). disk_put dir st) xs dk) dir = (case map_of xs dir of Some st \<Rightarrow> st_store st | None \<Rightarrow> dk_store dk dir) \<and>
    dk_db (fold (\<lambda>(dir, st). disk_put dir st) xs dk) dir = (case map_of xs dir of Some st \<Rightarrow> st_db st | None \<Rightarrow> dk_db dk dir)"
  using assms
proof (induction xs arbitrary: dk)
  case (Cons x xs)
  obtain d st where x: "x = (d, st)" by (cases x)
  have n: "d = dir \<Longrightarrow> map_of xs dir = None" using Cons.prems x by (auto simp: map_of_eq_None_iff)
  then show ?case using Cons.IH [of "disk_put d st dk"] Cons.prems by (auto simp: x disk_put_def split: option.splits)
qed simp


section \<open>Lemmas on the run\<close>

lemma resolve_with_flags:
  assumes "resolve_with L fs cl en = Inr r"
  shows "rs_print r = (if cl_print_config_example cl then Some Print_example
      else if cl_print_config cl then Some Print_config else None)" "rs_stop_time r = cl_stop_time cl"
  using assms by (auto simp: resolve_with_def build_def Let_def and_then_Inr_iff split: if_splits option.splits)

text \<open>The join fails with the error of one of the futures, when that one fails.\<close>

definition join_fails_with_part :: "((instant \<times> string option) option list \<Rightarrow> (instant \<times> string option) option) \<Rightarrow> bool" where
  "join_fails_with_part join \<longleftrightarrow> (\<forall>fs t e. join fs = Some (t, Some e) \<longrightarrow> Some (t, Some e) \<in> set fs)"

lemma select_arm_earliest:
  assumes "(t, tr) \<in> set arms"
  obtains t' tr' where "select_arm pick arms = Some (t', tr')" "(t', tr') \<in> set arms" "t' \<le> t"
proof -
  define m where "m = Min (fst ` set arms)"
  have m: "m \<in> fst ` set arms" "\<forall>a\<in>set arms. m \<le> fst a" using assms by (auto simp: m_def intro!: Min_in)
  then have e: "earliest arms \<noteq> []"
    by (fastforce simp: earliest_def filter_empty_conv list_all_iff)
  let ?a = "earliest arms ! (pick mod length (earliest arms))"
  have "?a \<in> set (earliest arms)" using e by (intro nth_mem) simp
  then have "?a \<in> set arms" "fst ?a \<le> t" using assms by (auto simp: earliest_def list_all_iff)
  moreover have "select_arm pick arms = Some ?a" using e by (simp add: select_arm_def split: list.splits)
  ultimately show thesis using that [of "fst ?a" "snd ?a"] by simp
qed

lemma pipeline_effects_chains:
  "spawned_chains (concat (map pipeline_effects insts)) = map (cs_chain \<circ> in_serve) insts"
  "flushed_chains (concat (map pipeline_effects insts)) = []"
  "\<forall>e\<in>set (concat (map pipeline_effects insts)). \<not> is_listening e"
  by (induction insts) (simp_all add: pipeline_effects_def chains_of_effects is_listening_def)

lemma run_instances_effects:
  assumes "run_instances E W r insts dk = (x, evs, dk')"
  shows "spawned_chains evs = map (cs_chain \<circ> in_serve) insts" "\<forall>e\<in>set evs. \<not> is_listening e"
    "flushed_chains evs = (if x = Running then [] else map (cs_chain \<circ> in_serve) insts)"
proof -
  let ?stop = "case rs_stop_time r of None \<Rightarrow> [] | Some d \<Rightarrow> [Stop_time_set d]"
  let ?flush = "\<lambda>ps. map (\<lambda>(inst, r, _). Flushed (cs_chain (in_serve inst)) (\<not> isl r)) (zip insts ps)"
  have stop: "spawned_chains ?stop = [] \<and> flushed_chains ?stop = [] \<and> (\<forall>e\<in>set ?stop. \<not> is_listening e)"
    by (cases "rs_stop_time r") (simp_all add: chains_of_effects is_listening_def)
  have flush: "spawned_chains (?flush ps) = []" "\<forall>e\<in>set (?flush ps). \<not> is_listening e"
    "length ps = length insts \<Longrightarrow> flushed_chains (?flush ps) = map (cs_chain \<circ> in_serve) insts" for ps
  proof -
    show "spawned_chains (?flush ps) = []" unfolding spawned_chains_def by (intro map_filter_none) auto
    show "\<forall>e\<in>set (?flush ps). \<not> is_listening e" by (auto simp: is_listening_def)
    have "flushed_chains (?flush ps) = map (cs_chain \<circ> in_serve \<circ> fst) (zip insts ps)"
      unfolding flushed_chains_def by (intro map_filter_map_some) auto
    also assume "length ps = length insts"
    then have "map (cs_chain \<circ> in_serve \<circ> fst) (zip insts ps) = map (cs_chain \<circ> in_serve) insts"
      by (metis map_fst_zip map_map)
    finally show "flushed_chains (?flush ps) = map (cs_chain \<circ> in_serve) insts" .
  qed
  let ?arm = "select_arm (w_pick W) (shutdown_arms (w_join W (map (w_ingests W) insts)) (rs_stop_time r) (w_signals W) (w_fatal W))"
  obtain tl where tl: "evs = (concat (map pipeline_effects insts) @ ?stop) @ tl"
    "spawned_chains tl = []" "\<forall>e\<in>set tl. \<not> is_listening e"
    "flushed_chains tl = (if x = Running then [] else map (cs_chain \<circ> in_serve) insts)"
  proof (cases ?arm)
    case None
    with assms show thesis by (intro that [of "[]"]) (auto simp: run_instances_def chains_of_effects Let_def)
  next
    case (Some a)
    let ?ps = "map (persist E) (map (w_work W) insts)"
    have "evs = (concat (map pipeline_effects insts) @ ?stop) @ ?flush ?ps" "x \<noteq> Running"
      using assms Some by (auto simp: run_instances_def run_until_shutdown_def Let_def split: prod.splits)
    then show thesis using flush(1,2) [of ?ps] flush(3) [of ?ps] by (intro that [of "?flush ?ps"]) simp_all
  qed
  show "spawned_chains evs = map (cs_chain \<circ> in_serve) insts"
    "flushed_chains evs = (if x = Running then [] else map (cs_chain \<circ> in_serve) insts)"
    using stop tl(2,4) pipeline_effects_chains(1,2) [of insts] by (simp_all add: tl(1) chains_append)
  show "\<forall>e\<in>set evs. \<not> is_listening e"
    using stop tl(3) pipeline_effects_chains(3) [of insts] unfolding tl(1) set_append by blast
qed

lemma started_of_build:
  assumes "resolved_ok r" "build_instances E C W (rs_upstream r) (map snd (rs_chains r)) dk = (Inr insts, built, dk')"
  shows "started E C (w_net W) r insts" "built = map fst (rs_chains r)" "map (cs_chain \<circ> in_serve) insts = map fst (rs_chains r)"
proof -
  note B = build_instances_Inr [OF resolved_dirs_distinct [OF assms(1)] assms(2)]
  show s: "started E C (w_net W) r insts"
    using B(1) unfolding started_def list_all2_map1 by (rule list_all2_mono) blast
  show "map (cs_chain \<circ> in_serve) insts = map fst (rs_chains r)" by (rule started_chains [OF assms(1) s])
  show "built = map fst (rs_chains r)"
    using B(2) assms(1) by (auto simp: resolved_ok_def chain_ok_def)
qed


definition metrics_ok :: "('s, 'd) world \<Rightarrow> bool" where
  "metrics_ok W \<longleftrightarrow> \<not> isl (install (w_buckets W) (w_recorder_set W) (w_version W) (w_commit W) (w_now W))"

lemma quiet_notices [simp]: "quiet (emit_notices r)" "quiet (map print_notice ns)"
  unfolding emit_notices_def by (rule quiet_map; simp add: is_listening_def print_notice_def)+

lemma quiet_built [simp]: "quiet (map Instance_built cs)"
  by (rule quiet_map) (simp_all add: is_listening_def)

lemma built_chains_of [simp]: "built_chains (map Instance_built cs) = cs" "built_chains (emit_notices r) = []"
proof -
  show "built_chains (map Instance_built cs) = cs"
    unfolding built_chains_def using map_filter_map_some [of cs _ Instance_built id] by simp
  show "built_chains (emit_notices r) = []"
    unfolding built_chains_def emit_notices_def by (rule map_filter_none) auto
qed

lemma install_ok:
  assumes "metrics_ok W"
  shows "install (w_buckets W) (w_recorder_set W) (w_version W) (w_commit W) (w_now W) =
    Inr (describe_metrics, process_metadata (w_version W) (w_commit W) (w_now W))"
  using assms by (cases "set_buckets (w_buckets W) bucket_settings") (auto simp: metrics_ok_def install_def split: if_splits)

text \<open>A run that gets as far as the server, and every other one.\<close>

lemma run_resolved_cases:
  assumes "resolved_ok r" "run_resolved E C W r dk = (x, evs, dk')"
  obtains
    (failed) e where "x = Exited (Inl e)" "quiet evs" "\<And>m. e \<noteq> Run_error m"
  | (served) insts built dk1 table pre evs1 where
      "build_instances E C W (rs_upstream r) (map snd (rs_chains r)) dk = (Inr insts, built, dk1)"
      "build_module (map in_serve insts) = Inr table" "run_instances E W r insts dk1 = (x, evs1, dk')"
      "evs = pre @ Listening (sv_addr (rs_server r)) # evs1" "quiet pre" "built_chains pre = built"
      "w_crypto_ok W" "metrics_ok W" "w_client_ok W" "w_bind W (sv_addr (rs_server r))"
proof -
  define lg where "lg = [Crypto_installed, Tracing_on (init_tracing (w_rust_log W) (w_tty W) (log_level_as_str (rs_log_level r)))] @ emit_notices r"
  define recs where "recs = process_metadata (w_version W) (w_commit W) (w_now W)"
  define st where "st = lg @ [Metrics_installed recs, Upkeep_spawned,
      Starting (map fst (rs_chains r)) (rs_network r) (redact_url (up_base (rs_upstream r)))]"
  have ql: "quiet lg" "quiet st" unfolding lg_def st_def quiet_append by simp_all
  have bl: "built_chains st = []" using built_chains_of(2) [of r] by (simp add: st_def lg_def chains_of_effects)
  show thesis
  proof (cases "w_crypto_ok W \<and> metrics_ok W \<and> w_client_ok W")
    case False
    then show thesis using assms(2) ql(1) failed unfolding run_resolved_def [of E C W r dk, folded lg_def, unfolded Let_def]
      by (auto simp: metrics_ok_def split: if_splits sum.splits)
  next
    case ok: True
    then have "install (w_buckets W) (w_recorder_set W) (w_version W) (w_commit W) (w_now W) = Inr (describe_metrics, recs)"
      unfolding recs_def by (intro install_ok) blast
    note def = run_resolved_def [of E C W r dk, folded lg_def, unfolded Let_def this sum.case prod.case, folded st_def]
    obtain b built dk1 where b: "build_instances E C W (rs_upstream r) (map snd (rs_chains r)) dk = (b, built, dk1)"
      by (cases "build_instances E C W (rs_upstream r) (map snd (rs_chains r)) dk") auto
    show thesis
    proof (cases b)
      case (Inl e)
      then show thesis using assms(2) b ok ql(2) unfolding def by (intro failed [of "Start_error e"]) auto
    next
      case (Inr insts)
      show thesis
      proof (cases "serve (w_bind W (sv_addr (rs_server r))) (serve_cfg r) (map in_serve insts)")
        case (Inl e)
        then show thesis using assms(2) b Inr ok ql(2) unfolding def by (intro failed [of "Serve_error e"]) auto
      next
        case s: (Inr srv)
        then obtain table where t: "build_module (map in_serve insts) = Inr table" "w_bind W (sv_addr (rs_server r))"
          "sc_addr (sr_config srv) = sv_addr (rs_server r)"
          by (auto simp: serve_def and_then_Inr_iff serve_cfg_def split: if_splits elim!: map_err.elims)
        obtain evs1 where "run_instances E W r insts dk1 = (x, evs1, dk')"
          "evs = (st @ map Instance_built built) @ Listening (sv_addr (rs_server r)) # evs1"
          using assms(2) b Inr ok s t(3) unfolding def by (auto split: prod.splits)
        then show thesis
          using b Inr t ok ql(2) bl by (intro served [of insts built dk1 table evs1 "st @ map Instance_built built"]) (auto simp: chains_append)
      qed
    qed
  qed
qed

lemma run_resolved_listens:
  assumes "resolve_with L fs cl en = Inr r"
    and "build_instances E C W (rs_upstream r) (map snd (rs_chains r)) dk = (Inr insts, built, dk')"
    and "w_crypto_ok W" "metrics_ok W" "w_client_ok W" "w_bind W (sv_addr (rs_server r))"
  shows "Listening (sv_addr (rs_server r)) \<in> set (fst (snd (run_resolved E C W r dk)))"
proof -
  obtain table where "build_module (map in_serve insts) = Inr table"
    using module_of_started [OF assms(1) started_of_build(1) [OF resolve_with_ok [OF assms(1)] assms(2)]] by blast
  then have "\<exists>srv. serve (w_bind W (sv_addr (rs_server r))) (serve_cfg r) (map in_serve insts) = Inr srv \<and>
      sc_addr (sr_config srv) = sv_addr (rs_server r)"
    using assms(6) by (simp add: serve_def serve_cfg_def)
  then show ?thesis using assms(2,3,5) install_ok [OF assms(4)] by (auto simp: run_resolved_def Let_def split: prod.splits)
qed

text \<open>
  The accept loop hands on every socket accepted before the stop, in order, each with an idle timer of its
  own that starts when it is accepted; failed accepts in between lose nothing.
\<close>

lemma accept_loop_eq:
  "accept_loop idle es =
     List.map_filter (\<lambda>(now, ev). case ev of Accepted sock \<Rightarrow> Some (sock, idle_new idle now) | _ \<Rightarrow> None)
       (takeWhile (\<lambda>(_, ev). ev \<noteq> Stopped) es)"
  by (induction idle es rule: accept_loop.induct) (simp_all add: List.map_filter_simps)

section \<open>Restarting\<close>

text \<open>The blocks a directory holds.\<close>

definition disk_blocks :: "('s \<Rightarrow> u64 \<rightharpoonup> bytes) \<Rightarrow> ('s, 'd) disk \<Rightarrow> string \<Rightarrow> u64 \<rightharpoonup> bytes" where
  "disk_blocks content dk dir = (case dk_store dk dir of None \<Rightarrow> Map.empty | Some s \<Rightarrow> content s)"

text \<open>The interface of a disk that can be read again: what is well formed opens.\<close>

definition reopens :: "('s, 'd) engines \<Rightarrow> ('s \<Rightarrow> bool) \<Rightarrow> bool" where
  "reopens E ok \<longleftrightarrow> (\<forall>s. ok s \<longrightarrow> (\<exists>s'. bs_open (en_bs E) s = Inr s'))"

context healthy_engine
begin

lemma opened_store:
  assumes "storage_open E disk d c i fl = (Inr st, d')" "\<forall>s. disk = Some s \<longrightarrow> wf s"
  shows "storage_wf wf st" "st_chain st = c" "st_db st = d'" "stamped (view d') c i"
    "stored content st = (case disk of None \<Rightarrow> Map.empty | Some s \<Rightarrow> content s)"
    "st_store st \<noteq> None \<Longrightarrow> min_height E st = bs_min (en_bs E) (the disk)"
proof -
  have v: "verify_and_stamp_meta (en_fj E) c i (disk \<noteq> None) d = (Inr (), d')"
    using assms(1) by (auto simp: storage_open_def split: prod.splits sum.splits option.splits)
  show "stamped (view d') c i" using verify_ok(1) [OF v] .
  have "storage_wf wf st \<and> st_chain st = c \<and> st_db st = d' \<and>
      stored content st = (case disk of None \<Rightarrow> Map.empty | Some s \<Rightarrow> content s) \<and>
      (st_store st \<noteq> None \<longrightarrow> min_height E st = bs_min (en_bs E) (the disk))"
  proof (cases disk)
    case None
    with assms(1) v show ?thesis by (auto simp: storage_open_def storage_wf_def stored_def)
  next
    case (Some s)
    with assms(1) v obtain s' where o: "bs_open (en_bs E) s = Inr s'"
      and st: "st = \<lparr>st_chain = c, st_store = Some s', st_db = d', st_anchor_floor = fl\<rparr>"
      by (auto simp: storage_open_def split: sum.splits)
    have "wf s" using assms(2) Some by simp
    from open_same [OF this o] Some st show ?thesis by (simp add: storage_wf_def stored_def min_height_def)
  qed
  then show "storage_wf wf st" "st_chain st = c" "st_db st = d'"
    "stored content st = (case disk of None \<Rightarrow> Map.empty | Some s \<Rightarrow> content s)"
    "st_store st \<noteq> None \<Longrightarrow> min_height E st = bs_min (en_bs E) (the disk)" by auto
qed

text \<open>An instance that ran can be built again from what it left, with all its blocks.\<close>

lemma reopened_instance:
  assumes "build_instance E C N mk disk d cfg up = (Inr inst, d')" "\<forall>s. disk = Some s \<longrightarrow> wf s" "reopens E wf"
    and "utf8_valid (cs_identity (in_serve inst))" "pipeline_run E C inst (cs_storage (in_serve inst)) st"
    and "view d2 = view (st_db st)"
  shows "\<exists>inst2. build_instance E C N mk (st_store st) d2 cfg up = (Inr inst2, d2) \<and>
      stored content (cs_storage (in_serve inst2)) = stored content st \<and>
      (st_store st \<noteq> None \<longrightarrow> min_height E (cs_storage (in_serve inst2)) = min_height E st)"
    and "dom (case disk of None \<Rightarrow> Map.empty | Some s \<Rightarrow> content s) \<subseteq> dom (stored content st)"
proof -
  let ?st0 = "cs_storage (in_serve inst)" and ?i = "cs_identity (in_serve inst)"
  from assms(1) obtain
    id: "fetch_identity C N (ch_chain cfg) (ch_rpc_url cfg) (ch_max_wait cfg) = Inr ?i" and mk: mk
    and o: "storage_open E disk d (ch_chain cfg) ?i (resolve_anchor_floor N (disk \<noteq> None) cfg up) = (Inr ?st0, d')"
    by (auto simp: build_instance_def Let_def split: sum.splits prod.splits if_splits)
  note O = opened_store [OF o assms(2)]
  have b: "storage_wf wf st \<and> st_chain st = ch_chain cfg \<and> view (st_db st) Meta = view d' Meta"
    using bound.pipeline_run_keeps [OF assms(5), of "ch_chain cfg" "view d' Meta"] O(1-3) by simp
  show "dom (case disk of None \<Rightarrow> Map.empty | Some s \<Rightarrow> content s) \<subseteq> dom (stored content st)"
    using growing.pipeline_run_keeps [OF assms(5), of "dom (stored content ?st0)"] O(1,5) by simp
  have "stamped (view d2) (ch_chain cfg) ?i" using O(4) b assms(6) by (simp add: stamped_def)
  then have v: "verify_and_stamp_meta (en_fj E) (ch_chain cfg) ?i hb d2 = (Inr (), d2)" for hb
    using assms(4) by (rule verify_stamped_same)
  have "\<exists>st2. storage_open E (st_store st) d2 (ch_chain cfg) ?i fl = (Inr st2, d2)" for fl
    using v assms(3) b by (auto simp: storage_open_def reopens_def storage_wf_def split: option.splits)
  then obtain st2 where o2: "storage_open E (st_store st) d2 (ch_chain cfg) ?i
      (resolve_anchor_floor N (st_store st \<noteq> None) cfg up) = (Inr st2, d2)" by blast
  have "\<forall>s. st_store st = Some s \<longrightarrow> wf s" using b by (auto simp: storage_wf_def)
  note O2 = opened_store [OF o2 this]
  have e: "st_store st2 \<noteq> None \<longleftrightarrow> st_store st \<noteq> None" using storage_open_store(1) [OF o2] by (simp add: is_empty_def)
  have "stored content st2 = stored content st" using O2(5) by (simp add: stored_def)
  moreover have "st_store st \<noteq> None \<longrightarrow> min_height E st2 = min_height E st" using O2(6) e by (auto simp: min_height_def)
  ultimately show "\<exists>inst2. build_instance E C N mk (st_store st) d2 cfg up = (Inr inst2, d2) \<and>
      stored content (cs_storage (in_serve inst2)) = stored content st \<and>
      (st_store st \<noteq> None \<longrightarrow> min_height E (cs_storage (in_serve inst2)) = min_height E st)"
    using id mk o2 by (auto simp: build_instance_def Let_def)
qed

end

text \<open>What a run leaves in the directory of an instance is what its tasks made of the store, flushed or not.\<close>

lemma run_instances_disk:
  assumes "fjall_laws (en_fj E) view" "distinct (map (cs_data_dir \<circ> in_serve) insts)"
    and "run_instances E W r insts dk = (x, evs, dk')" "inst \<in> set insts"
  shows "dk_store dk' (cs_data_dir (in_serve inst)) = st_store (w_work W inst)"
    and "view (dk_db dk' (cs_data_dir (in_serve inst))) = view (st_db (w_work W inst))"
proof -
  let ?f = "cs_data_dir \<circ> in_serve" and ?w = "w_work W" and ?p = "\<lambda>inst. snd (persist E (w_work W inst))"
  have put: "dk_store (fold (\<lambda>(dir, st). disk_put dir st) (zip (map ?f insts) (map g insts)) dk) (?f inst) = st_store (g inst) \<and>
      dk_db (fold (\<lambda>(dir, st). disk_put dir st) (zip (map ?f insts) (map g insts)) dk) (?f inst) = st_db (g inst)" for g
  proof -
    have d: "distinct (map fst (zip (map ?f insts) (map g insts)))" using assms(2) by simp
    have "(?f inst, g inst) \<in> set (zip (map ?f insts) (map g insts))" using assms(4) by (simp add: zip_map_map zip_same_conv_map)
    then have "map_of (zip (map ?f insts) (map g insts)) (?f inst) = Some (g inst)" using d by simp
    with fold_disk_put [OF d, of dk "?f inst"] show ?thesis by simp
  qed
  have flushed: "st_store (?p inst) = st_store (?w inst)" "view (st_db (?p inst)) = view (st_db (?w inst))"
    using fjall_laws.persist_same [OF assms(1), of "st_db (?w inst)"] by (auto simp: persist_def split: prod.splits)
  have "\<exists>g. dk' = fold (\<lambda>(dir, st). disk_put dir st) (zip (map ?f insts) (map g insts)) dk \<and> g \<in> {?w, ?p}"
  proof (cases "select_arm (w_pick W) (shutdown_arms (w_join W (map (w_ingests W) insts)) (rs_stop_time r) (w_signals W) (w_fatal W))")
    case None
    with assms(3) show ?thesis by (intro exI [of _ ?w]) (simp add: run_instances_def Let_def)
  next
    case (Some a)
    with assms(3) show ?thesis
      by (intro exI [of _ ?p]) (auto simp: run_instances_def run_until_shutdown_def Let_def comp_def split: prod.splits)
  qed
  then obtain g where "dk' = fold (\<lambda>(dir, st). disk_put dir st) (zip (map ?f insts) (map g insts)) dk" "g \<in> {?w, ?p}" by blast
  with put [of g] flushed
  show "dk_store dk' (cs_data_dir (in_serve inst)) = st_store (w_work W inst)"
    "view (dk_db dk' (cs_data_dir (in_serve inst))) = view (st_db (w_work W inst))" by auto
qed

lemma list_all2_partner:
  "list_all2 P xs ys \<Longrightarrow> x \<in> set xs \<Longrightarrow> \<exists>y\<in>set ys. P x y"
  "list_all2 P xs ys \<Longrightarrow> y \<in> set ys \<Longrightarrow> \<exists>x\<in>set xs. P x y"
  by (induction rule: list_all2_induct) auto

lemma list_all2_dirs:
  "list_all2 (\<lambda>cfg inst. built_from E C W up dk cfg = (Inr inst, d cfg)) cfgs insts \<Longrightarrow>
     map (cs_data_dir \<circ> in_serve) insts = map ch_data_dir cfgs"
  by (induction rule: list_all2_induct) (auto dest: build_instance_dirs(1))

text \<open>After a run, every chain's instance can be built again, with what the run left.\<close>

lemma instance_rebuilt:
  assumes "healthy_engine E content ok view" "reopens E ok" "\<forall>dir s. dk_store dk dir = Some s \<longrightarrow> ok s"
    and "\<forall>c url mw i. fetch_identity C (w_net W) c url mw = Inr i \<longrightarrow> utf8_valid i"
    and "\<forall>inst. pipeline_run E C inst (cs_storage (in_serve inst)) (w_work W inst)"
    and "distinct (map ch_data_dir cfgs)" "build_instances E C W up cfgs dk = (Inr insts, built, dk0)"
    and "run_instances E W r insts dk0 = (x, evs, dk1)" "cfg \<in> set cfgs"
  shows "\<exists>inst2 d. built_from E C W up dk1 cfg = (Inr inst2, d) \<and>
      stored content (cs_storage (in_serve inst2)) = disk_blocks content dk1 (ch_data_dir cfg) \<and>
      dom (disk_blocks content dk (ch_data_dir cfg)) \<subseteq> dom (disk_blocks content dk1 (ch_data_dir cfg))"
proof -
  have fl: "fjall_laws (en_fj E) view" using assms(1) by (simp add: healthy_engine_def storage_engine_def)
  note B = build_instances_Inr [OF assms(6,7)]
  from list_all2_partner(1) [OF B(1) assms(9)] obtain inst d where
    i: "inst \<in> set insts" "built_from E C W up dk cfg = (Inr inst, d)" by blast
  note D = build_instance_dirs [OF i(2)]
  have "distinct (map (cs_data_dir \<circ> in_serve) insts)" using assms(6) list_all2_dirs [OF B(1)] by simp
  note L = run_instances_disk [OF fl this assms(8) i(1), unfolded D(1)]
  have u: "utf8_valid (cs_identity (in_serve inst))"
    using i(2) assms(4) by (auto simp: build_instance_def Let_def split: sum.splits prod.splits if_splits)
  have "\<forall>s. dk_store dk (ch_data_dir cfg) = Some s \<longrightarrow> ok s" using assms(3) by blast
  from healthy_engine.reopened_instance [OF assms(1) i(2) this assms(2) u assms(5) [rule_format] L(2)] L(1)
  show ?thesis by (fastforce simp: disk_blocks_def stored_def)
qed

section \<open>A concrete world\<close>

text \<open>
  A P-chain on an empty disk: the upstream answers with its genesis, and until the stop time the polling
  loop makes one pass.
\<close>

definition ref_work :: "(mem_store, mem_db) instance_t \<Rightarrow> (mem_store, mem_db) storage" where
  "ref_work inst =
     (if spawn_pipeline inst = P_poll_loop
      then ps_storage (p_ingest_step mem_engines ref_crypto (in_cfg inst) ref_env_p (p_ingest_new (in_cfg inst) (cs_storage (in_serve inst))))
      else cs_storage (in_serve inst))"

fun ref_join :: "(instant \<times> string option) option list \<Rightarrow> (instant \<times> string option) option" where
  "ref_join [] = None"
| "ref_join (f # fs) =
     (case (f, ref_join fs) of
        (Some (t, Some e), Some (t', r)) \<Rightarrow> Some (if t \<le> t' then (t, Some e) else (t', r))
      | (Some (t, Some e), None) \<Rightarrow> Some (t, Some e)
      | (_, r) \<Rightarrow> r)"

lemma ref_join_law: "join_fails_with_part ref_join"
proof -
  have "ref_join fs = Some (t, Some e) \<Longrightarrow> Some (t, Some e) \<in> set fs" for fs t e
    by (induction fs) (auto split: option.splits if_splits prod.splits)
  then show ?thesis by (simp add: join_fails_with_part_def)
qed

definition ref_world :: "(mem_store, mem_db) world" where
  "ref_world =
     \<lparr>w_libs = ref_libs, w_var = (\<lambda>_. None), w_files = ref_files, w_example = ''# every key'', w_rust_log = None,
      w_tty = False, w_crypto_ok = True, w_buckets = (\<lambda>_. True), w_recorder_set = False,
      w_version = ''0.1.0'', w_commit = ''unknown'', w_now = 0, w_client_ok = True, w_net = ref_net, w_mkdir = (\<lambda>_. True),
      w_bind = (\<lambda>_. True), w_work = ref_work, w_ingests = (\<lambda>_. None), w_join = ref_join, w_signals = (\<lambda>_. None), w_fatal = None, w_pick = 0\<rparr>"

definition ref_main_cli :: cli where
  "ref_main_cli = (ref_cli [Chain_P] [])\<lparr>cl_print_config := False, cl_stop_time := Some 30\<rparr>"

definition ref_disk :: "(mem_store, mem_db) disk" where
  "ref_disk = \<lparr>dk_store = (\<lambda>_. None), dk_db = (\<lambda>_. [])\<rparr>"

lemma ref_world_run: "pipeline_run mem_engines ref_crypto inst (cs_storage (in_serve inst)) (w_work ref_world inst)"
proof (cases "spawn_pipeline inst = P_poll_loop")
  case True
  let ?s = "p_ingest_new (in_cfg inst) (cs_storage (in_serve inst))"
  have "pipeline_run mem_engines ref_crypto inst (cs_storage (in_serve inst)) (ps_storage ?s)"
    unfolding p_ingest_new_def by (simp add: pipeline_run.spawned)
  from pipeline_run.poll [OF True this] True show ?thesis by (simp add: ref_world_def ref_work_def)
qed (simp add: ref_world_def ref_work_def pipeline_run.spawned)

lemma ref_resolves:
  "\<exists>r cfg. resolve_with (w_libs ref_world) (w_files ref_world) ref_main_cli (env_from_process (w_var ref_world)) = Inr r \<and>
     rs_chains r = [(Chain_P, cfg)] \<and> ch_chain cfg = Chain_P \<and> rs_print r = None"
  by (simp add: run_defs ref_world_def ref_main_cli_def env_from_process_def DEFAULT_CONFIG_PATH_def)

lemma ref_listens:
  "\<exists>r x evs dk'. resolve_with (w_libs ref_world) (w_files ref_world) ref_main_cli (env_from_process (w_var ref_world)) = Inr r \<and>
     rs_chains r \<noteq> [] \<and> main mem_engines ref_crypto ref_world ref_main_cli ref_disk = (x, evs, dk') \<and>
     Listening (sv_addr (rs_server r)) \<in> set evs"
proof -
  from ref_resolves obtain r cfg where
    r: "resolve_with (w_libs ref_world) (w_files ref_world) ref_main_cli (env_from_process (w_var ref_world)) = Inr r"
    and c: "rs_chains r = [(Chain_P, cfg)]" "ch_chain cfg = Chain_P" "rs_print r = None" by blast
  from ref_build [OF c(2)] obtain inst d where
    "build_instance mem_engines ref_crypto ref_net True None [] cfg (rs_upstream r) = (Inr inst, d)" by blast
  then have b: "\<exists>insts built dk'. build_instances mem_engines ref_crypto ref_world (rs_upstream r) (map snd (rs_chains r)) ref_disk =
      (Inr insts, built, dk')"
    by (simp add: c(1) ref_world_def ref_disk_def Let_def)
  have "main mem_engines ref_crypto ref_world ref_main_cli ref_disk = run_resolved mem_engines ref_crypto ref_world r ref_disk"
    using r c(3) by (simp add: main_def) (simp add: ref_main_cli_def ref_cli_def)
  moreover have "Listening (sv_addr (rs_server r)) \<in> set (fst (snd (run_resolved mem_engines ref_crypto ref_world r ref_disk)))"
    using b by (elim exE) (rule run_resolved_listens [OF r], simp_all add: ref_world_def metrics_ok_def install_fails_iff)
  ultimately show ?thesis using r c(1) by (metis list.distinct(1) prod.collapse)
qed

lemma ref_world_identities:
  "fetch_identity ref_crypto (w_net ref_world) c url mw = Inr i \<Longrightarrow> utf8_valid i"
proof (cases c)
  case Chain_P
  assume "fetch_identity ref_crypto (w_net ref_world) c url mw = Inr i"
  with Chain_P have "i = block_id_of ref_crypto (ref_p_raw 0)"
    by (simp add: fetch_identity_def ref_world_def ref_net_def ref_genesis)
  moreover have "utf8_valid (block_id_of ref_crypto (ref_p_raw 0))" by (rule utf8_valid_ascii) code_simp
  ultimately show ?thesis by simp
qed (simp add: fetch_identity_def ref_world_def ref_net_def)

section \<open>Properties\<close>

text \<open>
  C18. A run that only prints touches nothing. With \<open>--print-config\<close> or \<open>--print-config-example\<close> the
  program changes no store, opens no socket and installs nothing: its effects are the notices on the
  standard error and, when it succeeds, one document on the standard output, so that the output can be
  used as a configuration file. It returns, and what it prints and how it exits do not depend on the
  value of the upstream token.
\<close>

theorem print_run_touches_nothing:
  assumes "cl_print_config cl \<or> cl_print_config_example cl"
    and "same_but_token cl (w_files W) (env_from_process (w_var W)) fs' (env_from_process var')"
    and "main E C W cl dk = (x, evs, dk')"
  shows "dk' = dk \<and> main E C (W\<lparr>w_files := fs', w_var := var'\<rparr>) cl dk = (x, evs, dk) \<and>
    (\<exists>notes docs. evs = map print_notice notes @ map Stdout docs \<and>
       (x = Exited (Inr ()) \<and> length docs = 1 \<or> (\<exists>e. x = Exited (Inl (Config_error e))) \<and> docs = []))"
proof (cases "cl_print_config_example cl")
  case True
  then show ?thesis using assms(3)
    by (auto simp: main_def intro!: exI [of _ "[] :: notice list"] exI [of _ "[w_example W]"])
next
  case False
  let ?r = "resolve_with (w_libs W) (w_files W) cl (env_from_process (w_var W))"
    and ?r' = "resolve_with (w_libs W) fs' cl (env_from_process var')"
  have sim: "map_sum id (observed (w_libs W)) ?r' = map_sum id (observed (w_libs W)) ?r"
    using assms(2) by (rule resolve_with_hides_token)
  show ?thesis
  proof (cases ?r)
    case (Inl e)
    moreover from this sim have "?r' = Inl e" by (cases ?r') auto
    ultimately show ?thesis using assms(3) False
      by (auto simp: main_def intro!: exI [of _ "[] :: notice list"] exI [of _ "[] :: string list"])
  next
    case (Inr r)
    with sim obtain r' where r': "?r' = Inr r'" "observed (w_libs W) r' = observed (w_libs W) r" by (cases ?r') auto
    have p: "rs_print r = Some Print_config" "rs_print r' = Some Print_config"
      using resolve_with_flags(1) [OF Inr] resolve_with_flags(1) [OF r'(1)] False assms(1) by simp_all
    have o: "to_redacted_toml (w_libs W) r' = to_redacted_toml (w_libs W) r" "rs_notices r' = rs_notices r"
      using r'(2) by (simp_all add: observed_def)
    show ?thesis
    proof (cases "to_redacted_toml (w_libs W) r")
      case (Inl e)
      with assms(3) False Inr r' p o show ?thesis
        by (auto simp: main_def Let_def intro!: exI [of _ "rs_notices r"] exI [of _ "[] :: string list"])
    next
      case doc: (Inr doc)
      with assms(3) False Inr r' p o show ?thesis
        by (auto simp: main_def Let_def intro!: exI [of _ "rs_notices r"] exI [of _ "[doc]"])
    qed
  qed
qed

theorem print_run_touches_nothing_witness:
  "let W = ref_world\<lparr>w_var := (\<lambda>k. if k = ''NEVE_UPSTREAM_TOKEN'' then Some ''abc'' else None)\<rparr>;
       W' = ref_world\<lparr>w_var := (\<lambda>k. if k = ''NEVE_UPSTREAM_TOKEN'' then Some ''xyz'' else None)\<rparr>
   in \<exists>x evs. main mem_engines ref_crypto W (ref_cli [] []) ref_disk = (x, evs, ref_disk) \<and>
        main mem_engines ref_crypto W' (ref_cli [] []) ref_disk = (x, evs, ref_disk)"
proof -
  define var where "var t = (\<lambda>k. if k = ''NEVE_UPSTREAM_TOKEN'' then Some t else None)" for t :: string
  let ?W = "ref_world\<lparr>w_var := var ''abc''\<rparr>"
  have s: "same_but_token (ref_cli [] []) (w_files ?W) (env_from_process (w_var ?W)) ref_files (env_from_process (var ''xyz''))"
    by (simp add: same_but_token_def ref_world_def ref_files_def ref_cli_def env_from_process_def var_def equally_usable_def set_args_facts)
  obtain x evs dk' where m: "main mem_engines ref_crypto ?W (ref_cli [] []) ref_disk = (x, evs, dk')"
    by (cases "main mem_engines ref_crypto ?W (ref_cli [] []) ref_disk") auto
  have "ref_world\<lparr>w_var := var ''abc'', w_files := ref_files, w_var := var ''xyz''\<rparr> = ref_world\<lparr>w_var := var ''xyz''\<rparr>"
    by (simp add: ref_world_def)
  with print_run_touches_nothing [OF _ s m] m show ?thesis
    unfolding var_def [symmetric] Let_def by (auto simp: ref_cli_def)
qed

text \<open>
  C14. The program starts all or nothing, in order, and stops as a whole. A run that does not get as far
  as listening has started no ingest and returns, with success only if it was asked to print. Otherwise
  there is one moment from which it listens: before it, an instance of every selected chain has been
  built, in order, and nothing else runs; the table behind the server answers exactly the methods of
  those chains, each by its own instance; after it, one pipeline per chain is started, and when the run
  ends, every store is flushed once, whatever ended it.
\<close>

theorem startup_in_order:
  assumes "main E C W cl dk = (x, evs, dk')"
  shows "quiet evs \<and> (\<exists>q. x = Exited q \<and> (q = Inr () \<longrightarrow> cl_print_config cl \<or> cl_print_config_example cl)) \<or>
    (\<exists>r insts table pre post.
       resolve_with (w_libs W) (w_files W) cl (env_from_process (w_var W)) = Inr r \<and>
       evs = pre @ Listening (sv_addr (rs_server r)) # post \<and>
       quiet pre \<and> built_chains pre = map fst (rs_chains r) \<and>
       started E C (w_net W) r insts \<and> build_module (map in_serve insts) = Inr table \<and>
       (\<forall>name s. map_of table name = Some s \<longleftrightarrow>
          s \<in> set (map in_serve insts) \<and> name \<in> set (chain_methods (cs_chain s))) \<and>
       (\<forall>e\<in>set post. \<not> is_listening e) \<and> spawned_chains post = map fst (rs_chains r) \<and>
       flushed_chains post = (if x = Running then [] else map fst (rs_chains r)))"
proof (cases "cl_print_config_example cl")
  case True
  then show ?thesis using assms by (auto simp: main_def)
next
  case False
  show ?thesis
  proof (cases "resolve_with (w_libs W) (w_files W) cl (env_from_process (w_var W))")
    case (Inl e)
    then show ?thesis using assms False by (auto simp: main_def)
  next
    case (Inr r)
    have ok: "resolved_ok r" using Inr by (rule resolve_with_ok)
    show ?thesis
    proof (cases "rs_print r")
      case (Some mode)
      have "cl_print_config cl \<or> cl_print_config_example cl"
        using Some resolve_with_flags(1) [OF Inr] by (auto split: if_splits)
      with assms False Inr Some show ?thesis
        by (auto simp: main_def Let_def split: print_mode.splits sum.splits)
    next
      case None
      with assms False Inr have run: "run_resolved E C W r dk = (x, evs, dk')" by (simp add: main_def)
      from ok run show ?thesis
      proof (cases rule: run_resolved_cases)
        case (failed e)
        then show ?thesis by simp
      next
        case (served insts built dk1 table pre evs1)
        note S = started_of_build [OF ok served(1)] and R = run_instances_effects [OF served(3)]
        from module_of_started [OF Inr S(1)] served(2)
        have "\<forall>name s. map_of table name = Some s \<longleftrightarrow>
          s \<in> set (map in_serve insts) \<and> name \<in> set (chain_methods (cs_chain s))" by auto
        with served S R Inr show ?thesis by (intro disjI2 exI conjI) (assumption | simp)+
      qed
    qed
  qed
qed

theorem startup_in_order_witness:
  "\<exists>x evs dk' pre post a. main mem_engines ref_crypto ref_world ref_main_cli ref_disk = (x, evs, dk') \<and>
     evs = pre @ Listening a # post \<and> built_chains pre \<noteq> [] \<and> spawned_chains post = built_chains pre"
proof -
  from ref_listens obtain r x evs dk' where
    r: "resolve_with (w_libs ref_world) (w_files ref_world) ref_main_cli (env_from_process (w_var ref_world)) = Inr r" "rs_chains r \<noteq> []"
    and m: "main mem_engines ref_crypto ref_world ref_main_cli ref_disk = (x, evs, dk')"
    and l: "Listening (sv_addr (rs_server r)) \<in> set evs" by blast
  have "\<not> quiet evs" using l by (auto simp: quiet_def is_listening_def)
  with startup_in_order [OF m] r obtain pre post where
    "evs = pre @ Listening (sv_addr (rs_server r)) # post" "built_chains pre = map fst (rs_chains r)"
    "spawned_chains post = map fst (rs_chains r)" by auto
  with m r(2) show ?thesis by fastforce
qed


text \<open>
  C33. A run ends no later than the first thing that should end it. Once the stop time is reached, one of
  the handled signals has arrived or an upstream condition is fatal, the program has returned; and it
  returns with an error of the run only if by then an ingest had failed with it or the condition was
  fatal.
\<close>

theorem run_ends_at_first_trigger:
  assumes "join_fails_with_part (w_join W)" "main E C W cl dk = (x, evs, dk')"
    and "cl_stop_time cl = Some t \<or> (\<exists>s\<in>set SIGNALS. w_signals W s = Some t) \<or> w_fatal W = Some t"
  shows "x \<noteq> Running \<and>
    (\<forall>m. x = Exited (Inl (Run_error m)) \<longrightarrow>
       (\<exists>t'\<le>t. w_fatal W = Some t' \<or> (\<exists>inst. w_ingests W inst = Some (t', Some m))))"
proof (cases "\<exists>r. resolve_with (w_libs W) (w_files W) cl (env_from_process (w_var W)) = Inr r \<and> run_resolved E C W r dk = (x, evs, dk')")
  case False
  with assms(2) show ?thesis
    by (auto simp: main_def Let_def split: if_splits sum.splits option.splits print_mode.splits)
next
  case True
  then obtain r where r: "resolve_with (w_libs W) (w_files W) cl (env_from_process (w_var W)) = Inr r"
    "run_resolved E C W r dk = (x, evs, dk')" by blast
  from resolve_with_ok [OF r(1)] r(2) show ?thesis
  proof (cases rule: run_resolved_cases)
    case (failed e)
    then show ?thesis by auto
  next
    case (served insts built dk1 table pre evs1)
    let ?arms = "shutdown_arms (w_join W (map (w_ingests W) insts)) (rs_stop_time r) (w_signals W) (w_fatal W)"
    have "\<exists>tr. (t, tr) \<in> set ?arms"
      using assms(3) resolve_with_flags(2) [OF r(1)]
      by (fastforce simp: shutdown_arms_def sleep_or_pending_def wait_for_signal_def List.map_filter_def image_iff)
    then obtain t' tr where s: "select_arm (w_pick W) ?arms = Some (t', tr)" "(t', tr) \<in> set ?arms" "t' \<le> t"
      using select_arm_earliest by metis
    have x: "x = Exited (case run_outcome tr of None \<Rightarrow> Inr () | Some m \<Rightarrow> Inl (Run_error m))"
      using served(3) s(1) by (auto simp: run_instances_def run_until_shutdown_def Let_def)
    have "w_fatal W = Some t' \<or> (\<exists>inst. w_ingests W inst = Some (t', Some m))" if "run_outcome tr = Some m" for m
    proof -
      have "w_join W (map (w_ingests W) insts) = Some (t', Some m) \<or> w_fatal W = Some t'"
        using that s(2) by (auto simp: shutdown_arms_def run_outcome_def split: trigger.splits option.splits)
      moreover have "w_join W (map (w_ingests W) insts) = Some (t', Some m) \<Longrightarrow> Some (t', Some m) \<in> w_ingests W ` set insts"
        using assms(1) unfolding join_fails_with_part_def by (metis list.set_map)
      ultimately show ?thesis by (metis imageE)
    qed
    then show ?thesis using x s(3) by (auto split: option.splits)
  qed
qed

theorem run_ends_at_first_trigger_witness:
  "\<exists>x evs dk'. main mem_engines ref_crypto ref_world ref_main_cli ref_disk = (x, evs, dk') \<and> x \<noteq> Running \<and>
     (\<exists>a. Listening a \<in> set evs) \<and> (\<forall>m. x \<noteq> Exited (Inl (Run_error m)))"
proof -
  from ref_listens obtain a x evs dk' where
    m: "main mem_engines ref_crypto ref_world ref_main_cli ref_disk = (x, evs, dk')" and l: "Listening a \<in> set evs" by blast
  have "cl_stop_time ref_main_cli = Some 30" by (simp add: ref_main_cli_def)
  moreover have "join_fails_with_part (w_join ref_world)" using ref_join_law by (simp add: ref_world_def)
  ultimately show ?thesis using run_ends_at_first_trigger [OF _ m, of 30] m l by (auto simp: ref_world_def)
qed

text \<open>
  C13. A restart resumes. A run that got as far as listening, whatever its tasks did meanwhile and however
  it was ended, leaves a disk on which the same command starts again and listens: it has lost no block it
  was started with, the second run opens every store with exactly the blocks the first one left, and its
  loops, of either chain, go on one past the contiguous range of every store that has been created. The disk is
  what the next process on the same machine reads, so the file system's cache is part of it.
\<close>

theorem restart_resumes:
  assumes "healthy_engine E content ok view" "reopens E ok" "\<forall>dir s. dk_store dk dir = Some s \<longrightarrow> ok s"
    and "\<forall>c url mw i. fetch_identity C (w_net W) c url mw = Inr i \<longrightarrow> utf8_valid i"
    and "\<forall>inst. pipeline_run E C inst (cs_storage (in_serve inst)) (w_work W inst)"
    and "resolve_with (w_libs W) (w_files W) cl (env_from_process (w_var W)) = Inr r"
    and "main E C W cl dk = (x, evs, dk1)" "Listening a \<in> set evs"
  shows "\<exists>insts built dk2.
    build_instances E C W (rs_upstream r) (map snd (rs_chains r)) dk1 = (Inr insts, built, dk2) \<and>
    (\<forall>inst\<in>set insts. let st = cs_storage (in_serve inst); dir = cs_data_dir (in_serve inst) in
       stored content st = disk_blocks content dk1 dir \<and> dom (disk_blocks content dk dir) \<subseteq> dom (stored content st) \<and>
       (dk_store dk1 dir \<noteq> None \<longrightarrow> resumes E inst)) \<and>
    Listening a \<in> set (fst (snd (main E C W cl dk1)))"
proof -
  have ok: "resolved_ok r" using assms(6) by (rule resolve_with_ok)
  let ?cfgs = "map snd (rs_chains r)" and ?up = "rs_upstream r"
  note dd = resolved_dirs_distinct [OF ok]
  have ls: "is_listening (Listening a)" by (simp add: is_listening_def)
  have np: "\<not> cl_print_config_example cl" "rs_print r = None"
    using assms(6-8) by (auto simp: main_def print_notice_def Let_def split: if_splits option.splits print_mode.splits sum.splits)
  then have main: "main E C W cl dk' = run_resolved E C W r dk'" for dk' using assms(6) by (simp add: main_def)
  from ok assms(7) [unfolded main] obtain insts0 built0 dk0 table0 pre0 evs0 where
    b0: "build_instances E C W ?up ?cfgs dk = (Inr insts0, built0, dk0)" and r0: "run_instances E W r insts0 dk0 = (x, evs0, dk1)"
    and a: "evs = pre0 @ Listening (sv_addr (rs_server r)) # evs0" "quiet pre0"
    and g: "w_crypto_ok W" "metrics_ok W" "w_client_ok W" "w_bind W (sv_addr (rs_server r))"
    by (cases rule: run_resolved_cases) (use assms(8) ls in \<open>auto simp: quiet_def\<close>)
  have addr: "a = sv_addr (rs_server r)"
    using assms(8) a ls run_instances_effects(2) [OF r0] by (auto simp: quiet_def is_listening_def)
  note again = instance_rebuilt [OF assms(1-5) dd b0 r0]
  then have "\<forall>cfg\<in>set ?cfgs. \<exists>inst d. built_from E C W ?up dk1 cfg = (Inr inst, d)" by blast
  from build_instances_ok [OF dd this] obtain insts built dk2 where
    b: "build_instances E C W ?up ?cfgs dk1 = (Inr insts, built, dk2)" .
  note B2 = build_instances_Inr [OF dd b]
  have each: "stored content (cs_storage (in_serve inst)) = disk_blocks content dk1 (cs_data_dir (in_serve inst)) \<and>
      dom (disk_blocks content dk (cs_data_dir (in_serve inst))) \<subseteq> dom (stored content (cs_storage (in_serve inst))) \<and>
      (dk_store dk1 (cs_data_dir (in_serve inst)) \<noteq> None \<longrightarrow> resumes E inst)"
    if "inst \<in> set insts" for inst
  proof -
    from list_all2_partner(2) [OF B2(1) that] obtain cfg d where c: "cfg \<in> set ?cfgs" "built_from E C W ?up dk1 cfg = (Inr inst, d)" by blast
    note D = build_instance_dirs [OF c(2)]
    have "dk_store dk1 (ch_data_dir cfg) \<noteq> None \<longrightarrow> resumes E inst" using existing_store_resumes [OF c(2)] by blast
    with again [OF c(1)] c(2) show ?thesis unfolding D(1) by auto
  qed
  have "Listening a \<in> set (fst (snd (run_resolved E C W r dk1)))"
    using run_resolved_listens [OF assms(6) b g] by (simp add: addr)
  moreover have "\<forall>inst\<in>set insts. let st = cs_storage (in_serve inst); dir = cs_data_dir (in_serve inst) in
      stored content st = disk_blocks content dk1 dir \<and> dom (disk_blocks content dk dir) \<subseteq> dom (stored content st) \<and>
      (dk_store dk1 dir \<noteq> None \<longrightarrow> resumes E inst)"
    unfolding Let_def using each by (intro ballI)
  ultimately show ?thesis unfolding main using b by blast
qed

theorem restart_resumes_witness:
  "\<exists>x evs dk1 a. main mem_engines ref_crypto ref_world ref_main_cli ref_disk = (x, evs, dk1) \<and> Listening a \<in> set evs \<and>
     Listening a \<in> set (fst (snd (main mem_engines ref_crypto ref_world ref_main_cli dk1)))"
proof -
  from ref_listens obtain r x evs dk1 where
    r: "resolve_with (w_libs ref_world) (w_files ref_world) ref_main_cli (env_from_process (w_var ref_world)) = Inr r"
    and m: "main mem_engines ref_crypto ref_world ref_main_cli ref_disk = (x, evs, dk1)"
    and l: "Listening (sv_addr (rs_server r)) \<in> set evs" by blast
  have o: "reopens mem_engines mem_wf" by (simp add: reopens_def mem_engines_def mem_blockstore_def)
  have d: "\<forall>dir s. dk_store ref_disk dir = Some s \<longrightarrow> mem_wf s" by (simp add: ref_disk_def)
  have u: "\<forall>c url mw i. fetch_identity ref_crypto (w_net ref_world) c url mw = Inr i \<longrightarrow> utf8_valid i"
    using ref_world_identities by blast
  have w: "\<forall>inst. pipeline_run mem_engines ref_crypto inst (cs_storage (in_serve inst)) (w_work ref_world inst)"
    using ref_world_run by blast
  from restart_resumes [OF mem.healthy_engine_axioms o d u w r m l] m l show ?thesis by blast
qed

end
