(* ===== verification/Spec2Isabelle.thy ===== *)
theory Spec2Isabelle
  imports Storage_Guarantees Upstream Eth_Rpc Backfill Health Platform_Rpc Mirror Bulk Middleware Conn Config_Guarantees Startup Serving Catch_Up Sessions Pipelines Program
begin

text \<open>
  neve is a caching mirror for blocks of the Avalanche C-Chain and P-Chain. One process runs one
  instance per configured chain; an instance pulls blocks from an upstream (avalanchego or
  another neve), stores each height once with what it derives from the block, and serves it over
  JSON-RPC, subscriptions and a bulk export. This is a shallow embedding of the program: every
  definition translates the code of the file named with it (paths are relative to \<open>src/\<close> of the
  crate), and the theorems are about those definitions.

  \<^bold>\<open>How the parts interact.\<close> The configuration (\<open>config.rs\<close>) resolves a file, the environment and
  the command line into one \<open>resolved\<close> record. \<open>main.rs\<close> builds from each of its chains an instance:
  it opens the storage, anchors a fresh store at a floor, and starts the loops of the chain. On
  the C-Chain a live session feeds blocks and logs into the join buffer, whose completed pairs
  are written, while the backfill worker closes what lies between the stored frontier and the
  upstream's tip; on the P-Chain one polling loop does both; a mirror of another neve bootstraps
  over a range subscription and follows the tip. What is written is read by the API methods, the
  subscriptions, the bulk export and the health report, all behind one HTTP stack.

  \<^bold>\<open>Theories, in the order of the imports.\<close>

  \<^item> \<open>Neve_Prelude\<close>: machine types, the functions of the Rust standard library the sources
    call, the result type, and the shared lemmas with the collection \<open>neve_simps\<close>.
  \<^item> \<open>Json\<close> and \<open>Json_Reference\<close>: \<open>serde_json::Value\<close>, the locale \<open>serde_laws\<close> of what is relied on
    of \<open>serde_json\<close>, and an executable compact codec that satisfies it.
  \<^item> \<open>Chain\<close> (\<open>chain.rs\<close>): networks and chains, their names, paths and directories; a selection of
    chains has one canonical order; distinct chains have distinct directories.
  \<^item> \<open>Record_Codec\<close> (\<open>record.rs\<close>): the concatenated record and the borrowing of its elements;
    its round trip.
  \<^item> \<open>Codec\<close> (\<open>platform/codec.rs\<close>, \<open>platform/mod.rs\<close>): CB58, hexadecimal with a checksum, the
    numbering of a block's transactions; the locale \<open>crypto_laws\<close>.
  \<^item> \<open>Stores\<close>: the interfaces of the two storage engines, as records of operations with the locales
    \<open>blockstore_laws\<close>, \<open>healthy_blockstore\<close>, \<open>fjall_laws\<close> and \<open>healthy_fjall\<close>, and in-memory
    engines that satisfy them.
  \<^item> \<open>Storage\<close> and \<open>Storage_Guarantees\<close> (\<open>storage.rs\<close>): the handle \<open>storage\<close>, opening and stamping,
    every reader, \<open>put\<close> in its two stages; the locales \<open>storage_engine\<close> and \<open>healthy_engine\<close>
    combine the engine interfaces, and the guarantees are stated over any engines with those laws:
    what a write leaves behind, failures included; what a directory is bound to; that no
    interleaving of writers leaves an index entry without its block. The locale \<open>put_guard\<close> is the
    interface of the writing tasks: a fact that one \<open>put\<close> keeps is kept by the join buffer, a session and
    the whole live task.
  \<^item> \<open>Http\<close> and \<open>Upstream\<close> (\<open>upstream.rs\<close>): the answers of an upstream as a function, pacing,
    throttling, redaction of URLs, reconnect delays; bounds on the request rate.
  \<^item> \<open>Join\<close> (\<open>join.rs\<close>): the buffer of half-arrived heights; pairs complete in either order, only
    fed pairs are written, the buffer is bounded and never stuck.
  \<^item> \<open>Eth_Ingest\<close> (\<open>eth/ingest.rs\<close>) and \<open>Backfill\<close> (\<open>eth/backfill.rs\<close>): the upstream call with its
    retry budget, frames, the live session, the bootstrap of a mirror, the window of logs, the
    cached tip and the ordered fill; a call stays within its budget, and a fill leaves no gap.
  \<^item> \<open>Platform_Ingest\<close> (\<open>platform/ingest.rs\<close>) and \<open>Mirror\<close> (\<open>platform/mirror.rs\<close>): the two
    encodings of a height and their cross-check, the one-deep hold of reward proposals, one pass
    of the loop, and a mirror session over the frames it receives.
  \<^item> \<open>Websocket\<close> (the rest of \<open>upstream.rs\<close>) and \<open>Sessions\<close> (the tasks of \<open>eth/ingest.rs\<close> and
    \<open>platform/mirror.rs\<close>): the handshake, the reader of frames and its reference, the subscription
    requests with the decoding at the other end, and the loops that reconnect; what one session keeps,
    the task keeps.
  \<^item> \<open>Catch_Up\<close> (the loops of \<open>eth/backfill.rs\<close> and \<open>platform/ingest.rs\<close>): sequences of passes, each in an
    environment of its own, over the locale \<open>catch_up\<close>; a number of fair passes that is known in advance
    stores every height up to the tip.
  \<^item> \<open>Subscribe\<close> (\<open>subscribe.rs\<close>), \<open>Eth_Rpc\<close> (\<open>eth/rpc.rs\<close>), \<open>Platform_Rpc\<close> (\<open>platform/rpc.rs\<close>),
    \<open>Bulk\<close> (\<open>bulk.rs\<close>): the readers of the store. Ranges are served completely and in order or not
    at all, what ingest wrote is what the methods answer, and what is announced can be read at that moment.
  \<^item> \<open>Progress\<close> and \<open>Rates\<close> (\<open>progress.rs\<close>), \<open>Health\<close> (\<open>health.rs\<close>), \<open>Middleware\<close> (\<open>middleware.rs\<close>), \<open>Conn\<close>
    (\<open>conn.rs\<close>): the tracker of stretches behind the tip with its rate and estimate, the summary
    loop, the report and the probe that reads it, the status rewrite of a miss, and the idle timeout
    as a state machine.
  \<^item> \<open>Config_Tree\<close>, \<open>Config_Schema\<close>, \<open>Config_Layers\<close>, \<open>Config\<close> and \<open>Config_Guarantees\<close>
    (\<open>config.rs\<close>): the TOML tree with the locale \<open>document\<close>, the schema of the file, the layers that
    edit the tree, the resolution and its redacted rendering; the token is in nothing that is
    shown, a resolved configuration is well formed, an accepted \<open>--set\<close> is in effect.
  \<^item> \<open>Metrics\<close> (\<open>metrics.rs\<close>): the series, the recording helpers and the guards of the gauges, over the
    locale \<open>raii_gauge\<close>; the number of series is bounded, and what is open is counted exactly; the recorder is installed with
    bounds for exactly the histograms.
  \<^item> \<open>Startup\<close> (\<open>main.rs\<close>) and \<open>Serving\<close> (\<open>rpc.rs\<close> and the layers of \<open>metrics.rs\<close>): the building of an
    instance, its loops and its shutdown, the method table and the HTTP stack. These two compose
    the configuration with storage, ingest and serving.
  \<^item> \<open>Pipelines\<close>: the inductive relation \<open>pipeline_run\<close> of an instance to what any sequence of steps of its
    tasks can make of its store; by \<open>put_guard\<close>, what one write keeps, all of them keep.
  \<^item> \<open>Program\<close> (\<open>main\<close> of \<open>main.rs\<close>, \<open>serve\<close> of \<open>rpc.rs\<close>): a whole run from the command line to the exit status,
    as a function of what the process meets (\<open>world\<close>) and of the disk, with its effects in order. A run
    that prints touches nothing; a run starts all or nothing and in order; it ends at the first trigger;
    and a second run resumes where the first one ended.
  \<^item> This theory composes both ends of an exchange: a mirror against the health report, the admission and
    the replay of a running upstream; and the two writers of the C-chain, the backfill worker and the
    sessions of the live task, which go on before, between and during its passes.

  \<^bold>\<open>How the code is represented.\<close> A \<open>u64\<close> is a natural number with the saturation and the bound checks
  of the sources written out; a byte is a character, so buffers and strings are both \<open>string\<close>. A
  \<open>Result\<close> is a sum with the error on the left, a miss is \<open>None\<close>. Shared state behind a lock is
  passed explicitly, one call per critical section. Where the code reads state that another task
  may have changed since, the definition takes the sequence of states it sees, and the theorem
  quantifies over every sequence with the property that other tasks keep (stored heights stay).
  A task that parks for ever is a value (\<open>Parked\<close>), so is every early return. Libraries outside the
  repository are records of functions: the storage engines, \<open>serde_json\<close>, SHA-256, base 58 and
  hexadecimal, TOML text, the duration and address parsers, the RFC 3339 formatter. Each theorem
  names the laws it needs of them as hypotheses, and its witness evaluates it on an executable
  instance.

  \<^bold>\<open>Fuel.\<close> Four loops take fuel, because the code follows a store that changes meanwhile, or because a
  parser recurses. \<open>scan_range\<close> gets one step more than there are heights and needs one per chunk;
  \<open>range_loop\<close> and \<open>bulk_body\<close> are shown to end with their complete answer for any fuel beyond the
  number of heights, and of two frames per height; the reference parser needs at most the length
  of its input. Everything else is structural or has a termination proof. The retry loops run over
  the list of their attempts. The endless outer loops run over a list of the environments of their passes
  (backfill, polling) or sessions (the live task, the mirror), which ends early where one parks; a
  theorem about every list is one about every moment of the loop.

  \<^bold>\<open>What the development found.\<close> Some lemmas state behaviour the code's comments do not intend, so that
  a change of it shows here: \<open>malformed_tx_shifts_index\<close>, \<open>follow_leaves_gap\<close>, \<open>served_chains_exact\<close>,
  \<open>unresolved_proposal_respins\<close>, \<open>genesis_never_backfilled\<close>, \<open>tokened_mirror_misses_health\<close>,
  \<open>c_probe_reads_p_heights\<close>, \<open>empty_store_exports_nothing\<close>, \<open>any_token_lifts_cap\<close>, \<open>derived_endpoint_path\<close>,
  \<open>unreachable_endpoint_shown\<close> and \<open>completing_block_in_neither\<close>.

  \<^bold>\<open>Not modelled.\<close> The transport: sockets and the HTTP client below the replies and messages they
  deliver, the JSON-RPC server that drives an accepted connection, its registration of handlers and, but
  for the subscriptions, its parsing of parameters. The runtime: a task is what its steps make of the
  store, and a signal, a timer or a failed task is the time at which it is seen; the scheduler is not
  modelled. Behind the calls: the log subscriber, the recorder of the metrics facade with the upkeep and
  the process collector. Power failures: the disk is what the next process on the same machine finds, whether it
  was synced or not. Parsers that are libraries: TOML text, \<open>clap\<close>'s command line, durations. The
  floating-point operations are parameters, both those of the progress lines and the reciprocal that turns
  a request rate into an interval. \<open>test_support.rs\<close> and the tests, and \<open>build.rs\<close>, hold no behaviour of
  the program.
\<close>

section \<open>A mirror and its upstream\<close>

text \<open>A bootstrap whose socket delivers the records of the missing range copies them.\<close>

lemma delivered_bootstrap:
  assumes "storage_engine E content ok view" "p_upstream_contiguous health = Some target"
    and "storage_wf ok (mi_storage ms)" "from = mirror_from E cfg (mi_storage ms)" "from \<le> target"
    and "\<And>h. from \<le> h \<Longrightarrow> h \<le> target \<Longrightarrow> \<exists>rec. m h = Some rec \<and> replayable (en_ser E) C h rec"
    and "\<forall>h rec v. m h = Some rec \<and> from_slice (en_ser E) rec = Some v \<longrightarrow>
       (\<exists>f. from_slice (en_ser E) (wrap rec) = Some f \<and> notification_payload f = Some v)"
    and "delivers (en_ser E) wrap is (map (\<lambda>h. the (m h)) (heights from target))"
  shows "\<exists>r ms'. mirror_bootstrap E C cfg health True clk (fst (ws_inputs (en_ser E) is)) ms = (r, ms') \<and>
    mirrored E content m from target (mi_storage ms) r (mi_storage ms')"
proof -
  let ?S = "en_ser E"
  have "\<exists>f v. from_slice ?S (the (m h)) = Some v \<and> from_slice ?S (wrap (the (m h))) = Some f \<and> notification_payload f = Some v"
    if h: "h \<in> set (heights from target)" for h
  proof -
    have "from \<le> h" "h \<le> target" using h by (auto simp: heights_def)
    from assms(6) [OF this] obtain rec where r: "m h = Some rec" "replayable ?S C h rec" by blast
    from storage_engine.replayable_parts [OF assms(1) r(2)] obtain v where "from_slice ?S rec = Some v" by metis
    with assms(7) r(1) show ?thesis by fastforce
  qed
  then have c: "carries ?S m (fst (ws_inputs ?S is)) (heights from target)"
    using delivers_carries [OF assms(8)] by blast
  define ms0 where "ms0 = ms\<lparr>mi_backfill_count := (mi_backfill_count ms + 1) mod 2 ^ 64\<rparr>"
  define prog where "prog = snd (snd (observe (clk 0) (from - 1) target (sat_add (target - from) 1)
      (progress_new Chain_P (cfg_progress_period cfg))))"
  obtain r prog' ms' where s: "mirror_stream E C target clk 1 (fst (ws_inputs ?S is)) prog ms0 = (r, prog', ms')"
    by (cases "mirror_stream E C target clk 1 (fst (ws_inputs ?S is)) prog ms0") auto
  have "mirror_bootstrap E C cfg health True clk (fst (ws_inputs ?S is)) ms = (r, ms')"
    using s assms(2,4,5) by (simp add: mirror_bootstrap_def Let_def ms0_def prog_def)
  moreover have "mirrored E content m from target (mi_storage ms0) r (mi_storage ms')"
    by (rule storage_engine.mirror_stream_replays [OF assms(1) _ assms(5) _ c s])
      (use assms(3,6) in \<open>auto simp: ms0_def\<close>)
  ultimately show ?thesis by (auto simp: ms0_def)
qed

text \<open>
  C15. A mirror is a replica of its upstream, across the whole exchange. The upstream is a running
  neve whose P-chain records are such as ingest writes. What its health report says is the target the
  mirror reads; the request the mirror then sends is decoded and admitted for exactly the missing
  range; the replay sends the range to its end; and a socket that delivers those messages, with pings
  and acknowledgements in between, leaves the mirror with exactly the upstream's bytes at every
  height of the range and its own everywhere else, unless its own store refuses a write, in which case
  everything below that height has been copied.
\<close>

theorem mirror_replicates_upstream:
  assumes "healthy_engine Eu contentu oku viewu" "storage_engine E content ok view" "en_ser Eu = en_ser E"
    and "distinct (map cs_chain cs)" "u \<in> set cs" "cs_chain u = Chain_P"
    and "storage_wf oku (cs_storage u)" "0 < from \<or> stored contentu (cs_storage u) (min_height Eu (cs_storage u)) \<noteq> None"
    and "\<forall>h rec. stored contentu (cs_storage u) h = Some rec \<longrightarrow> sendable (en_ser E) rec \<and> replayable (en_ser E) C h rec"
    and "storage_wf ok (mi_storage ms)" "from = mirror_from E cfg (mi_storage ms)"
    and "min_height Eu (cs_storage u) \<le> from" "from \<le> target"
    and "target = max_contiguous_height Eu (cs_storage u)" "target < u64_max"
    and "\<forall>h rec v. stored contentu (cs_storage u) h = Some rec \<and> from_slice (en_ser E) rec = Some v \<longrightarrow>
       (\<exists>f. from_slice (en_ser E) (wrap rec) = Some f \<and> notification_payload f = Some v)"
  shows "\<exists>p msgs.
    Option.bind (jget (old_records_request from target) ''params'') de_subscribe_params = Some p \<and>
    platform_subscribe Eu (cs_storage u) p = Inr (Serve_range OldRecords from (Some target)) \<and>
    range_loop (Suc (Suc target - from)) Eu OldRecords (Some target) (\<lambda>_. cs_storage u) (\<lambda>_. True) 0 from =
      Some (msgs, Caught_up) \<and>
    (\<forall>is clk. delivers (en_ser E) wrap is msgs \<longrightarrow>
       (\<exists>r ms'. mirror_bootstrap E C cfg (Net_reply 200 None (Some (build_health_report Eu hi cs))) True clk
            (fst (ws_inputs (en_ser E) is)) ms = (r, ms') \<and>
          mirrored E content (stored contentu (cs_storage u)) from target (mi_storage ms) r (mi_storage ms')))"
proof -
  let ?src = "cs_storage u" and ?m = "stored contentu (cs_storage u)" and ?S = "en_ser E"
  let ?health = "Net_reply 200 None (Some (build_health_report Eu hi cs))"
  let ?msgs = "map (\<lambda>h. the (?m h)) (heights from target)"
  have ne: "\<not> is_empty ?src"
    using assms(8,13,14) by (auto simp: stored_def is_empty_def max_contiguous_height_def split: option.splits)
  have adm: "admit_range Eu ?src OldRecords (Some from) (Some target) = Serve_range OldRecords from (Some target)"
    using ne assms(12-14) by (simp add: admit_range_def Let_def)
  have rec: "\<exists>rec. ?m h = Some rec \<and> sendable ?S rec \<and> replayable ?S C h rec" if "from \<le> h" "h \<le> target" for h
    using healthy_engine.admitted_range_present [OF assms(1,7,8) adm that] assms(9) by auto
  have tgt: "p_upstream_contiguous ?health = Some target"
    using probe_running [OF assms(4,5), of "''max_contiguous_height''" Eu hi] ne assms(6,14)
    by (simp add: p_upstream_contiguous_def is_success_def blocks_fields_def reported_height_def)
  have req: "\<exists>p. Option.bind (jget (old_records_request from target) ''params'') de_subscribe_params = Some p \<and>
      platform_subscribe Eu ?src p = Inr (Serve_range OldRecords from (Some target))"
    using old_records_understood [of "from" target Eu ?src] assms(13,15) adm
    by (simp add: serve_sub_def PLATFORM_SUB_KINDS_def is_live_def)
  have loop: "range_loop (Suc (Suc target - from)) Eu OldRecords (Some target) (\<lambda>_. ?src) (\<lambda>_. True) 0 from =
      Some (?msgs, Caught_up)"
  proof (rule healthy_engine.range_loop_fixed [OF assms(1)])
    show "replay_item (en_ser Eu) OldRecords ?m h = Some (the (?m h)) \<and> sendable (en_ser Eu) (the (?m h))"
      if "from \<le> h" "h \<le> target" for h
      using rec [OF that] assms(3) by (auto simp: replay_item_def wants_record_def spec_record_def replayable_def)
  qed (use assms(7,13,15) in auto)
  have "\<exists>r ms'. mirror_bootstrap E C cfg ?health True clk (fst (ws_inputs ?S is)) ms = (r, ms') \<and>
      mirrored E content ?m from target (mi_storage ms) r (mi_storage ms')" if "delivers ?S wrap is ?msgs" for "is" clk
    by (rule delivered_bootstrap [OF assms(2) tgt assms(10,11,13) _ assms(16) that]) (use rec in blast)
  with req loop show ?thesis by blast
qed

definition ref_upstream_store :: "(mem_store, mem_db) storage" where
  "ref_upstream_store = mem_put 8 (fb_id (ref_fb 8)) [] (block_elements (ref_fb 8) EMPTY_ARRAY) (mem_fresh Chain_P)"

definition ref_upstream_serve :: "(mem_store, mem_db) chain_serve" where
  "ref_upstream_serve = \<lparr>cs_chain = Chain_P, cs_storage = ref_upstream_store, cs_behind_tip = 0, cs_identity = ''id'', cs_data_dir = ''d''\<rparr>"

lemma ref_upstream_store_facts:
  "storage_wf mem_wf ref_upstream_store" "stored mem_content ref_upstream_store = [8 \<mapsto> ref_record]"
  "min_height mem_engines ref_upstream_store = 8" "max_contiguous_height mem_engines ref_upstream_store = 8"
proof -
  let ?es = "block_elements (ref_fb 8) EMPTY_ARRAY"
  have len: "length ?es = arity Chain_P" by (simp add: block_elements_def)
  note p = mem_put_first [OF len, of 8 "fb_id (ref_fb 8)" "[]", folded ref_upstream_store_def]
  note ok = mem.put_ok [OF mem_fresh_wf p]
  show w: "storage_wf mem_wf ref_upstream_store" and s0: "stored mem_content ref_upstream_store = [8 \<mapsto> ref_record]"
    using ok(1,2) by (simp_all add: stored_def mem_fresh_def ref_record_def)
  show mn: "min_height mem_engines ref_upstream_store = 8"
    using mem.put_first_floor [OF _ p] by (simp add: is_empty_def mem_fresh_def put_floor_def)
  obtain s where s: "st_store ref_upstream_store = Some s" using ok(5) by blast
  have s1: "mem_wf s" "mem_content s = [8 \<mapsto> ref_record]" "ms_min s = 8"
    using w s s0 mn by (simp_all add: storage_wf_def stored_def min_height_def mem_engines_def mem_blockstore_def)
  have "8 \<le> bs_contig mem_blockstore s" using mem.contig_next [of s] s1 by (simp add: mem_engines_def mem_blockstore_def)
  moreover have "bs_contig mem_blockstore s \<le> 8"
    using mem.contig_present [of s "bs_contig mem_blockstore s"] s1 calculation
    by (auto simp: mem_engines_def mem_blockstore_def split: if_splits)
  ultimately show "max_contiguous_height mem_engines ref_upstream_store = 8"
    using s by (simp add: max_contiguous_height_def mem_engines_def)
qed

theorem mirror_replicates_upstream_witness:
  "let cfg = ref_cfg\<lparr>cfg_backfill_floor := Some 8\<rparr>; ms = ref_mirror (mem_fresh Chain_P);
       socket = [Ws_msg (Ws_ping ''p''), Ws_msg (Ws_text (ref_notification ref_record))]
   in \<exists>r ms'. mirror_bootstrap mem_engines ref_crypto cfg
          (Net_reply 200 None (Some (build_health_report mem_engines plain_host [ref_upstream_serve]))) True (\<lambda>_. 0)
          (fst (ws_inputs ref_serde socket)) ms = (r, ms') \<and>
        mirrored mem_engines mem_content [8 \<mapsto> ref_record] 8 8 (mi_storage ms) r (mi_storage ms')"
proof -
  let ?cfg = "ref_cfg\<lparr>cfg_backfill_floor := Some 8\<rparr>" and ?ms = "ref_mirror (mem_fresh Chain_P)" and ?u = ref_upstream_serve
  let ?socket = "[Ws_msg (Ws_ping ''p''), Ws_msg (Ws_text (ref_notification ref_record))]"
  note F = ref_upstream_store_facts
  have ser: "en_ser mem_engines = ref_serde" by (simp add: mem_engines_def)
  have u: "cs_storage ?u = ref_upstream_store" "cs_chain ?u = Chain_P" by (simp_all add: ref_upstream_serve_def)
  have "utf8_valid ref_record" by (rule utf8_valid_ascii) code_simp
  then have snd: "sendable ref_serde ref_record" using ref_record_parses by (simp add: sendable_def)
  have R: "\<forall>h rec. stored mem_content (cs_storage ?u) h = Some rec \<longrightarrow>
      sendable (en_ser mem_engines) rec \<and> replayable (en_ser mem_engines) ref_crypto h rec"
    using snd ref_record_replayable by (auto simp: u F ser split: if_splits)
  have W: "\<forall>h rec v. stored mem_content (cs_storage ?u) h = Some rec \<and> from_slice (en_ser mem_engines) rec = Some v \<longrightarrow>
      (\<exists>f. from_slice (en_ser mem_engines) (ref_notification rec) = Some f \<and> notification_payload f = Some v)"
    using ref_notification_parses [OF _ ref_record_print(2)] ref_record_parses(1) by (auto simp: u F ser split: if_splits)
  have fr: "8 = mirror_from mem_engines ?cfg (mi_storage ?ms)"
    by (simp add: mirror_from_def is_empty_def mem_fresh_def ref_mirror_def)
  have n: "0 < (8 :: nat) \<or> stored mem_content (cs_storage ?u) (min_height mem_engines (cs_storage ?u)) \<noteq> None" by simp
  have P: "distinct (map cs_chain [?u])" "?u \<in> set [?u]" "storage_wf mem_wf (cs_storage ?u)"
    "storage_wf mem_wf (mi_storage ?ms)" "min_height mem_engines (cs_storage ?u) \<le> 8" "(8 :: nat) \<le> 8"
    "8 = max_contiguous_height mem_engines (cs_storage ?u)" "8 < u64_max"
    by (simp_all add: u F ref_mirror_def u64_max_def)
  note T = mirror_replicates_upstream [OF mem.healthy_engine_axioms mem.storage_engine_axioms refl P(1,2) u(2) P(3) n R
      P(4) fr P(5-8) W, where hi = plain_host]
  from T obtain msgs where
    M: "range_loop (Suc (Suc 8 - 8)) mem_engines OldRecords (Some 8) (\<lambda>_. cs_storage ?u) (\<lambda>_. True) 0 8 = Some (msgs, Caught_up)"
    and B: "\<forall>is clk. delivers (en_ser mem_engines) ref_notification is msgs \<longrightarrow>
       (\<exists>r ms'. mirror_bootstrap mem_engines ref_crypto ?cfg (Net_reply 200 None (Some (build_health_report mem_engines plain_host [?u]))) True clk
            (fst (ws_inputs (en_ser mem_engines) is)) ?ms = (r, ms') \<and>
          mirrored mem_engines mem_content (stored mem_content (cs_storage ?u)) 8 8 (mi_storage ?ms) r (mi_storage ms'))"
    by blast
  have "msgs = [ref_record]"
  proof -
    have "replay_item ref_serde OldRecords (stored mem_content ref_upstream_store) 8 = Some ref_record"
      by (simp add: F replay_item_def wants_record_def spec_record_def ref_record_def)
    then have "range_loop (Suc (Suc 8 - 8)) mem_engines OldRecords (Some 8) (\<lambda>_. ref_upstream_store) (\<lambda>_. True) 0 8 =
        Some (map (\<lambda>_. ref_record) (heights 8 8), Caught_up)"
      using F(1) snd by (intro mem.range_loop_fixed) (auto simp: ser u64_max_def)
    with M u show ?thesis by (simp add: heights_def)
  qed
  then have "delivers (en_ser mem_engines) ref_notification ?socket msgs" by (simp add: ws_stops_def)
  from B [rule_format, OF this, of "\<lambda>_. 0"] show ?thesis by (simp add: u F ser Let_def)
qed

section \<open>The backfill worker beside the live task\<close>

text \<open>
  The two tasks share one store. A schedule interleaves sessions of the live task, in any state of its
  buffer and with any frames, with passes of the worker; during a pass, sessions of the live task also go on
  before each height the pass takes. A session may stand for any part of one: its frames are any list.
\<close>

datatype ('s, 'd) joint_step = Live_session live_env "('s, 'd) live_state" | Backfill_pass "('s, 'd) pass_env"

fun joint_run ::
  "('s, 'd) engines \<Rightarrow> crypto \<Rightarrow> ingest_cfg \<Rightarrow> ('s, 'd) joint_step list \<Rightarrow> ('s, 'd) backfill_worker \<Rightarrow> ('s, 'd) backfill_worker" where
  "joint_run E C cfg [] s = s"
| "joint_run E C cfg (Live_session le lv # xs) s =
     joint_run E C cfg xs (s\<lparr>bw_storage := live_writes E C cfg le lv (bw_storage s)\<rparr>)"
| "joint_run E C cfg (Backfill_pass e # xs) s =
     (case backfill_iteration E C cfg e s of (Pass_parked, s') \<Rightarrow> s' | (_, s') \<Rightarrow> joint_run E C cfg xs s')"

fun passes :: "('s, 'd) joint_step list \<Rightarrow> nat" where
  "passes [] = 0"
| "passes (Live_session le lv # xs) = passes xs"
| "passes (Backfill_pass e # xs) = Suc (passes xs)"

text \<open>
  A pass beside the live task: the upstream serves, the live task is what writes meanwhile, and a fetch
  reads the store as it is at any moment until its height is taken, so it may find a height the live task has
  written during the pass.
\<close>

definition beside_live ::
  "('s, 'd) engines \<Rightarrow> ('s \<Rightarrow> u64 \<rightharpoonup> bytes) \<Rightarrow> ('s \<Rightarrow> bool) \<Rightarrow> crypto \<Rightarrow> ingest_cfg \<Rightarrow> u64 \<Rightarrow> u64 \<Rightarrow>
     ('s, 'd) pass_env \<Rightarrow> ('s, 'd) backfill_worker \<Rightarrow> bool" where
  "beside_live E content ok C cfg m T e s \<longleftrightarrow>
     upstream_serves E C cfg m T (pe_up e) \<and>
     (\<forall>h. storage_wf ok (pe_snap e h)) \<and> reads_past E content C cfg e s \<and>
     (\<forall>h. \<exists>le lv. live_sound lv \<and> pe_other e h = live_writes E C cfg le lv)"

fun joint_fair ::
  "('s, 'd) engines \<Rightarrow> ('s \<Rightarrow> u64 \<rightharpoonup> bytes) \<Rightarrow> ('s \<Rightarrow> bool) \<Rightarrow> crypto \<Rightarrow> ingest_cfg \<Rightarrow> u64 \<Rightarrow> u64 \<Rightarrow>
     ('s, 'd) joint_step list \<Rightarrow> ('s, 'd) backfill_worker \<Rightarrow> bool" where
  "joint_fair E content ok C cfg m T [] s = True"
| "joint_fair E content ok C cfg m T (Live_session le lv # xs) s =
     (live_sound lv \<and> joint_fair E content ok C cfg m T xs (s\<lparr>bw_storage := live_writes E C cfg le lv (bw_storage s)\<rparr>))"
| "joint_fair E content ok C cfg m T (Backfill_pass e # xs) s =
     (beside_live E content ok C cfg m T e s \<and> joint_fair E content ok C cfg m T xs (backfill_step E C cfg e s))"

lemma beside_live_fair:
  assumes "storage_engine E content ok view" "m \<in> dom (stored content (bw_storage s))" "beside_live E content ok C cfg m T e s"
  shows "backfill_fair E content ok C cfg m T e s"
proof -
  have "kept E ok m Chain_C (pe_other e h st) \<and> dom (stored content st) \<subseteq> dom (stored content (pe_other e h st))"
    if a: "kept E ok m Chain_C st \<and> dom (stored content (bw_storage s)) \<subseteq> dom (stored content st)" for h st
  proof -
    have "st_store st \<noteq> None" using a assms(2) by (auto simp: stored_def split: option.splits)
    moreover obtain le lv where "live_sound lv" "pe_other e h = live_writes E C cfg le lv"
      using assms(3) unfolding beside_live_def by blast
    ultimately show ?thesis
      using storage_engine.live_writes_rooted [OF assms(1) a [THEN conjunct1], of lv C cfg le] by simp
  qed
  with assms(3) show ?thesis unfolding beside_live_def backfill_fair_def by blast
qed

text \<open>A session keeps what the worker needs, and the range it has covered.\<close>

lemma session_between_passes:
  assumes "worker_inv E content ok view cfg m T s" "m \<in> dom (stored content (bw_storage s))" "live_sound lv"
  shows "worker_inv E content ok view cfg m T (s\<lparr>bw_storage := live_writes E C cfg le lv (bw_storage s)\<rparr>)"
    "dom (stored content (bw_storage s)) \<subseteq> dom (stored content (live_writes E C cfg le lv (bw_storage s)))"
proof -
  have "st_store (bw_storage s) \<noteq> None" using assms(2) by (auto simp: stored_def split: option.splits)
  with storage_engine.live_writes_rooted [of E content ok view m Chain_C "bw_storage s" lv C cfg le] assms
  have w: "kept E ok m Chain_C (live_writes E C cfg le lv (bw_storage s))"
    "dom (stored content (bw_storage s)) \<subseteq> dom (stored content (live_writes E C cfg le lv (bw_storage s)))"
    by (simp_all add: worker_inv_def backfill_ready_def)
  then have "stored content (live_writes E C cfg le lv (bw_storage s)) m \<noteq> None" using assms(2) by blast
  with w assms(1) show "worker_inv E content ok view cfg m T (s\<lparr>bw_storage := live_writes E C cfg le lv (bw_storage s)\<rparr>)"
    "dom (stored content (bw_storage s)) \<subseteq> dom (stored content (live_writes E C cfg le lv (bw_storage s)))"
    by (auto simp: worker_inv_def backfill_ready_def)
qed

lemma joint_run_covers:
  assumes "worker_inv E content ok view cfg m T s" "joint_fair E content ok C cfg m T xs s"
    and "{m..<n} \<subseteq> dom (stored content (bw_storage s))" "m < n" "n \<le> Suc T"
  shows "worker_inv E content ok view cfg m T (joint_run E C cfg xs s) \<and>
    {m..<min (Suc T) (n + passes xs * LOGS_WINDOW)} \<subseteq> dom (stored content (bw_storage (joint_run E C cfg xs s)))"
  using assms
proof (induction xs arbitrary: s n)
  case (Cons x xs)
  have m: "m \<in> dom (stored content (bw_storage s))" using Cons.prems(3,4) by (meson atLeastLessThan_iff order_refl subsetD)
  show ?case
  proof (cases x)
    case (Live_session le lv)
    with Cons.prems(2) have l: "live_sound lv" by simp
    note w = session_between_passes [OF Cons.prems(1) m l, of C le]
    from Cons.IH [OF w(1) _ _ Cons.prems(4,5)] Cons.prems(2,3) w(2) Live_session show ?thesis
      by (simp add: subset_trans)
  next
    case (Backfill_pass e)
    have f: "backfill_fair E content ok C cfg m T e s"
      using Cons.prems(1,2) beside_live_fair [OF _ m, of E ok view C cfg T e] Backfill_pass by (simp add: worker_inv_def)
    obtain r s' where p: "backfill_iteration E C cfg e s = (r, s')" by (cases "backfill_iteration E C cfg e s")
    have i: "worker_inv E content ok view cfg m T s'" "r \<noteq> Pass_parked"
      "{m..<min (Suc T) (n + LOGS_WINDOW)} \<subseteq> dom (stored content (bw_storage s'))"
      using worker.inv_pass [OF Cons.prems(1) f] worker.returns [OF Cons.prems(1) f]
        worker.advances [OF Cons.prems(1) f Cons.prems(3)] p by simp_all
    have eq: "min (Suc T) (min (Suc T) (n + LOGS_WINDOW) + passes xs * LOGS_WINDOW) =
        min (Suc T) (n + passes (x # xs) * LOGS_WINDOW)" using Backfill_pass by (simp add: min_def)
    have b: "m < min (Suc T) (n + LOGS_WINDOW)" using Cons.prems(4,5) by simp
    have "joint_run E C cfg (x # xs) s = joint_run E C cfg xs s'" using p i(2) Backfill_pass by (cases r) simp_all
    with Cons.IH [OF i(1) _ i(3) b] Cons.prems(2) p Backfill_pass show ?thesis unfolding eq by simp
  qed
qed (simp add: min_absorb2)

text \<open>
  C16. The live task and the backfill worker complete the C-chain together. They share one store; the
  live task writes what its upstream announces, of any height and in any order, before, between and during the
  passes of the worker, which fills the gap from the first stored block \<open>m\<close> and may find any height already
  written by the live task when it fetches it. After a number of passes known in advance every block
  from \<open>m\<close> to \<open>T\<close> is stored, the store still starts at \<open>m\<close>, its contiguous range reaches \<open>T\<close>, and a
  client's request to replay the blocks from \<open>m\<close> to \<open>T\<close> is admitted.
\<close>

theorem backfill_beside_live:
  assumes "storage_engine E content ok view" "disk_ok E ok" "0 < m \<and> m \<le> T \<and> T < u64_max"
    and "backfill_ready E content ok cfg m T s" "m \<in> dom (stored content (bw_storage s))"
    and "joint_fair E content ok C cfg m T xs s"
    and "T \<le> m + passes xs * LOGS_WINDOW"
    and "st' = bw_storage (joint_run E C cfg xs s)"
  shows "{m..T} \<subseteq> dom (stored content st') \<and> min_height E st' = m \<and> T \<le> max_contiguous_height E st' \<and>
    admit_range E st' OldBlocks (Some m) (Some T) = Serve_range OldBlocks m (Some T)"
proof -
  have i: "worker_inv E content ok view cfg m T s" using assms(1-4) by (simp add: worker_inv_def)
  have "{m..<Suc m} \<subseteq> dom (stored content (bw_storage s))" using assms(5) by auto
  from joint_run_covers [OF i assms(6) this]
  have e: "worker_inv E content ok view cfg m T (joint_run E C cfg xs s)" and c: "{m..T} \<subseteq> dom (stored content st')"
    using assms(3,7,8) by (auto simp: min_def atLeastLessThanSuc_atLeastAtMost split: if_splits)
  have k: "kept E ok m Chain_C st'" using e assms(8) by (simp add: worker_inv_def backfill_ready_def)
  have m: "st_store st' \<noteq> None" "stored content st' m \<noteq> None"
    using c assms(3) by (auto simp: stored_def split: option.splits)
  have mn: "min_height E st' = m" using k m(1) by (auto simp: kept_def anchored_def min_height_def)
  have "T \<le> max_contiguous_height E st'"
  proof (rule ccontr)
    assume "\<not> T \<le> max_contiguous_height E st'"
    moreover have "m \<le> Suc (max_contiguous_height E st')" "Suc (max_contiguous_height E st') \<notin> dom (stored content st')"
      using storage_engine.frontier_exact(1,3) [OF assms(1), of st' m 0] k m assms(3) by (auto simp: kept_def)
    ultimately show False using subsetD [OF c, of "Suc (max_contiguous_height E st')"] by simp
  qed
  then show ?thesis using c mn m(1) assms(3) by (simp add: admit_range_def is_empty_def Let_def)
qed

text \<open>
  A live session in which one block arrives, the reference block as a full body of height 9. During the pass
  below every fetch sees it, so the worker finds height 9 there while it fills height 8.
\<close>

definition ref_block_9 :: json where
  "ref_block_9 = JObj [(''hash'', JStr ref_hash), (''number'', JStr ''0x9''), (''transactions'', JArr [])]"

definition ref_push_9 :: json where
  "ref_push_9 = JObj [(''method'', JStr ''eth_subscription''), (''params'', JObj [(''result'', ref_block_9)])]"

definition ref_live_9 :: "(mem_store, mem_db) storage \<Rightarrow> (mem_store, mem_db) storage" where
  "ref_live_9 = live_writes mem_engines ref_crypto (ref_cfg\<lparr>cfg_ingest_logs := False\<rparr>)
     (ref_live_env (Hs_open [Ws_msg (Ws_text (print_json ref_push_9)), Ws_msg Ws_close]))
     \<lparr>lv_sink = Direct (mem_fresh Chain_C), lv_aimd = aimd_new 0, lv_published = []\<rparr>"

lemma ref_live_9_stores:
  assumes "kept mem_engines mem_wf 7 Chain_C st"
  shows "dom (stored mem_content (ref_live_9 st)) = insert 9 (dom (stored mem_content st))"
proof -
  have "plain ref_push_9" "plain ref_block_9"
    by (simp_all add: ref_push_9_def ref_block_9_def ref_hash_def)
  then have parsed: "from_slice ref_serde (print_json ref_push_9) = Some ref_push_9"
    and printed: "to_vec ref_serde ref_block_9 = Some (print_json ref_block_9)"
    using ref.parse_print by (simp_all add: ref_serde_def ref_to_vec_def)
  obtain raw where "decode_hash ref_crypto ref_hash = Inr raw" using ref_hash_decodes by blast
  with printed have pb: "prepare_block ref_serde ref_crypto ref_hash ref_block_9 = Some (raw, [], print_json ref_block_9)"
    by (simp add: prepare_block_def ref_block_9_def jget_str_def jget_arr_def extract_tx_hashes_def map_filter_simps)
  obtain st' where p: "put mem_engines 9 raw [] [print_json ref_block_9, EMPTY_ARRAY] st = (Inr (), st')"
    using mem.put_succeeds [OF mem_disk_ok assms, of 9 "[print_json ref_block_9, EMPTY_ARRAY]"] by auto
  have "''0x'' @ to_hex 9 = ''0x9''"
    unfolding to_hex_def by (subst format_radix.simps) (simp add: from_digit_def char_of_def bit_Suc_0_iff)
  then have "parse_hex_quantity ''0x9'' = Some 9" using parse_hex_quantity_to_hex(1) [of 9] by (simp add: u64_max_def)
  then have cl: "classify_frame ref_push_9 = Some (Ev_new_block 9 ref_hash ref_block_9)"
    by (simp add: classify_frame_def ref_push_9_def ref_block_9_def jget_str_def)
  have ser: "en_ser mem_engines = ref_serde" by (simp add: mem_engines_def)
  have "ref_live_9 st = st'"
    using parsed pb p cl
    by (simp add: ref_live_9_def live_writes_def live_session_def ref_live_env_def open_subscription_def connect_ws_def
        ws_inputs_Cons ws_stops_def session_event_def persist_live_def persist_block_def ser Let_def)
  with mem.put_ok(2) [OF _ p] assms show ?thesis by (auto simp: kept_def)
qed

theorem backfill_beside_live_witness:
  "let cfg = ref_cfg\<lparr>cfg_ingest_logs := False\<rparr>; st = mem_put 7 ''hash'' [] [''{}'', ''[]''] (mem_fresh Chain_C);
       idle = Live_session (ref_live_env (Hs_open [Ws_msg (Ws_ping []), Ws_msg Ws_close]))
         \<lparr>lv_sink = Direct (mem_fresh Chain_C), lv_aimd = aimd_new 0, lv_published = []\<rparr>;
       pass = Backfill_pass (ref_env_c\<lparr>pe_snap := \<lambda>_. ref_live_9 st, pe_other := \<lambda>_. ref_live_9\<rparr>);
       st' = bw_storage (joint_run mem_engines ref_crypto cfg [pass, idle] (backfill_worker_new cfg st))
   in 9 \<in> dom (stored mem_content (ref_live_9 st)) - dom (stored mem_content st) \<and>
      {7..9} \<subseteq> dom (stored mem_content st') \<and> admit_range mem_engines st' OldBlocks (Some 7) (Some 9) = Serve_range OldBlocks 7 (Some 9)"
proof -
  define cfg where "cfg = ref_cfg\<lparr>cfg_ingest_logs := False\<rparr>"
  define st where "st = mem_put 7 ''hash'' [] [''{}'', ''[]''] (mem_fresh Chain_C)"
  define lv :: "(mem_store, mem_db) live_state" where "lv = \<lparr>lv_sink = Direct (mem_fresh Chain_C), lv_aimd = aimd_new 0, lv_published = []\<rparr>"
  let ?e = "ref_env_c\<lparr>pe_snap := \<lambda>_. ref_live_9 st, pe_other := \<lambda>_. ref_live_9\<rparr>" and ?s = "backfill_worker_new cfg st"
  have p: "put mem_engines 7 ''hash'' [] [''{}'', ''[]''] (mem_fresh Chain_C) = (Inr (), st)"
    unfolding st_def by (rule mem_put_first) simp
  note ok = mem.put_ok [OF mem_fresh_wf p]
  have "min_height mem_engines st = 7"
    using mem.put_first_floor [OF _ p] by (simp add: is_empty_def mem_fresh_def put_floor_def)
  then have k: "kept mem_engines mem_wf 7 Chain_C st"
    using ok by (auto simp: kept_def anchored_def min_height_def mem_fresh_def)
  have m: "7 \<in> dom (stored mem_content (bw_storage ?s))" using ok(2) by (simp add: backfill_worker_new_def)
  have n: "9 \<notin> dom (stored mem_content st)" using ok(2) by (simp add: mem_fresh_def stored_def)
  have r: "backfill_ready mem_engines mem_content mem_wf cfg 7 9 ?s"
    using k m by (auto simp: backfill_ready_def backfill_worker_new_def tip_new_def cfg_def ref_cfg_def)
  have l: "live_sound lv" by (simp add: live_sound_def lv_def aimd_new_def)
  have live: "ref_live_9 = live_writes mem_engines ref_crypto cfg
      (ref_live_env (Hs_open [Ws_msg (Ws_text (print_json ref_push_9)), Ws_msg Ws_close])) lv"
    unfolding ref_live_9_def cfg_def lv_def ..
  let ?G = "\<lambda>t. kept mem_engines mem_wf 7 Chain_C t \<and> st_store t \<noteq> None \<and> dom (stored mem_content st) \<subseteq> dom (stored mem_content t)"
  have live_G: "?G (ref_live_9 t)" if "?G t" for t
    unfolding live using that by (rule mem.rooted.live_writes_keeps [OF l])
  have G0: "?G st" using k m by (auto simp: stored_def backfill_worker_new_def split: option.splits)
  have sees: "dom (stored mem_content (ref_live_9 st)) \<subseteq> dom (stored mem_content (ref_live_9 t))" if "?G t" for t
    using that k by (auto simp only: ref_live_9_stores)
  have run_G: "?G t" if "fill_loop mem_engines ref_crypto cfg results (\<lambda>_. ref_live_9) clk tip hs run st = (q, run', t)"
    for results clk tip hs run q run' t
    by (rule mem.rooted.fill_loop_keeps [OF live_G G0 that])
  have "reads_past mem_engines mem_content ref_crypto cfg ?e ?s"
    unfolding reads_past_def using run_G by (auto simp: backfill_worker_new_def dest!: sees [OF run_G, THEN subsetD])
  then have "beside_live mem_engines mem_content mem_wf ref_crypto cfg 7 9 ?e ?s"
    using ref_upstream_serves [of cfg 9 7] l live live_G [OF G0] unfolding beside_live_def
    by (auto simp: ref_env_c_def cfg_def ref_cfg_def kept_def)
  then have "joint_fair mem_engines mem_content mem_wf ref_crypto cfg 7 9
      [Backfill_pass ?e, Live_session (ref_live_env (Hs_open [Ws_msg (Ws_ping []), Ws_msg Ws_close])) lv] ?s" using l by simp
  from backfill_beside_live [OF mem.storage_engine_axioms mem_disk_ok _ r m this _ refl] n ref_live_9_stores [OF k] show ?thesis
    unfolding st_def lv_def cfg_def by (simp add: u64_max_def LOGS_WINDOW_def Let_def)
qed

end
